(* ===== verification/Prelude.thy ===== *)
theory Prelude
  imports Main "HOL-Library.Word"
begin

text \<open>
  Shared vocabulary of the development: the error values the Go code returns, the result
  type of a fallible operation with its sequencing operator, and generic facts on lists
  and tables that several components use.

  A Go function that returns \<open>(value, error)\<close> is a HOL function into
  \<open>'a result = err + 'a\<close>; \<open>Inl e\<close> is the early return with the error \<open>e\<close>. An
  error wrapped with \<open>fmt.Errorf("...: %w", err)\<close> is the error it wraps, because the
  callers only ever inspect it with \<open>errors.Is\<close>. A function that also changes the
  database returns the new database next to its value; since every multi-statement
  operation runs inside \<open>OnTransation\<close>, an \<open>Inl\<close> result means that the
  database is unchanged.
\<close>

named_theorems spec_simps \<open>unfolding rules of the model's small definitions\<close>
named_theorems keeps \<open>invariant preservation, one fact per operation\<close>

section \<open>Errors and results\<close>

text \<open>One constructor per error variable of the source that a modelled operation returns.\<close>

datatype webdav_err =
    WPrecondition | WLocked | WLockToken | WProperty | WQuota | WTooManyItems | WSyncToken
  | WLockNullNotPrepared

datatype multipart_err =
    QNoSuchUpload | QInvalidPart | QInvalidPartOrder | QPartTooSmall | QEntityTooLarge | QConflict
  | QInvalidRequest | QChecksum | QChecksumType | QObjectSize

datatype err =
    ErrInvalidPermission
  | ErrInvalidAlgorithm | ErrUnsupportedAlgorithm | ErrInvalidType | ErrInvalidCombination
  | ErrInvalidDigest | ErrInvalidPartSize
  | ErrUnique | ErrInvalidFileScanBatch | ErrNotExist | ErrS3ObjectConflict | ErrInvalidFileLayout
  | ErrRecursionLimit | ErrInvalidFileSize | ErrInvalidBlockSize | ErrTooManyFileParts
  | ErrInvalidFilePart | ErrFileShortRead | ErrInvalidUploadDeleteReference | ErrFilePartNotFound
  | ErrExist | ErrInvalidPath | ErrPathComponentNotDirectory | ErrSourceNotFound
  | ErrDestinationMustNotBeRoot | ErrDestinationExists | ErrDestinationInsideSource
  | ErrEntryMustNotBeRoot | ErrEntryNotFile | ErrParentNotFound | ErrNoRowsAffected
  | ErrRootNotFoundAfterCreate | ErrInvalidScanBatch | ErrInvalidPageLimit | ErrInvalidPageCursor
  | ErrReadCopied
  | ErrRead | ErrEmptyMemoryDeleteReference | ErrInvalidDeleteReference | ErrDirectoryNotEmpty
  | ErrTypeNotFound | ErrBackend | EOF | ErrUnexpectedEOF | ErrFileNotOpen | ErrInvalidOffset
  | ErrSeekPastEnd | ErrInvalidComposite
  | ErrSyntax | ErrCheck | ErrS3Precondition | ErrInvalidS3Part | ErrS3PartNotFound
  | ErrWebDAV webdav_err | ErrMultipart multipart_err
  | ErrInvalidFileLinkPage | ErrFileLinkCursorStale

abbreviation (input) "ErrWebDAVPrecondition \<equiv> ErrWebDAV WPrecondition"
abbreviation (input) "ErrWebDAVLocked \<equiv> ErrWebDAV WLocked"
abbreviation (input) "ErrWebDAVLockToken \<equiv> ErrWebDAV WLockToken"
abbreviation (input) "ErrWebDAVProperty \<equiv> ErrWebDAV WProperty"
abbreviation (input) "ErrWebDAVQuota \<equiv> ErrWebDAV WQuota"
abbreviation (input) "ErrWebDAVTooManyItems \<equiv> ErrWebDAV WTooManyItems"
abbreviation (input) "ErrWebDAVSyncToken \<equiv> ErrWebDAV WSyncToken"
abbreviation (input) "errWebDAVLockNullNotPrepared \<equiv> ErrWebDAV WLockNullNotPrepared"
abbreviation (input) "ErrNoSuchUpload \<equiv> ErrMultipart QNoSuchUpload"
abbreviation (input) "ErrInvalidMultipartPart \<equiv> ErrMultipart QInvalidPart"
abbreviation (input) "ErrInvalidPartOrder \<equiv> ErrMultipart QInvalidPartOrder"
abbreviation (input) "ErrMultipartPartTooSmall \<equiv> ErrMultipart QPartTooSmall"
abbreviation (input) "ErrMultipartEntityTooLarge \<equiv> ErrMultipart QEntityTooLarge"
abbreviation (input) "ErrMultipartConflict \<equiv> ErrMultipart QConflict"
abbreviation (input) "ErrInvalidMultipartRequest \<equiv> ErrMultipart QInvalidRequest"
abbreviation (input) "ErrMultipartChecksum \<equiv> ErrMultipart QChecksum"
abbreviation (input) "ErrMultipartChecksumType \<equiv> ErrMultipart QChecksumType"
abbreviation (input) "ErrMultipartObjectSize \<equiv> ErrMultipart QObjectSize"

type_synonym 'a result = "err + 'a"

definition bind_result :: "'a result \<Rightarrow> ('a \<Rightarrow> 'b result) \<Rightarrow> 'b result" where
  "bind_result m f = (case m of Inl e \<Rightarrow> Inl e | Inr a \<Rightarrow> f a)"

text \<open>\<open>guard_err c e\<close> is the statement \<open>if !c { return e }\<close>.\<close>

definition guard_err :: "bool \<Rightarrow> err \<Rightarrow> unit result" where
  "guard_err c e = (if c then Inr () else Inl e)"

lemma bind_result_simps [simp]:
  "bind_result (Inl e) f = Inl e"
  "bind_result (Inr a) f = f a"
  by (simp_all add: bind_result_def)

lemma bind_result_Inr_iff:
  "bind_result m f = Inr b \<longleftrightarrow> (\<exists>a. m = Inr a \<and> f a = Inr b)"
  by (cases m) auto

lemma bind_result_InrE:
  assumes "bind_result m f = Inr b"
  obtains a where "m = Inr a" and "f a = Inr b"
  using assms by (auto simp: bind_result_Inr_iff)

lemma bind_result_Inl_iff:
  "bind_result m f = Inl e \<longleftrightarrow> m = Inl e \<or> (\<exists>a. m = Inr a \<and> f a = Inl e)"
  by (cases m) auto

lemma guard_err_simps [simp]:
  "guard_err True e = Inr ()"
  "guard_err False e = Inl e"
  by (simp_all add: guard_err_def)

lemma guard_err_Inr_iff [simp]: "guard_err c e = Inr u \<longleftrightarrow> c"
  by (simp add: guard_err_def)

lemma guard_err_Inl_iff [simp]: "guard_err c e = Inl e' \<longleftrightarrow> \<not> c \<and> e' = e"
  by (auto simp: guard_err_def)

lemma bind_result_cong [fundef_cong]:
  "m = m' \<Longrightarrow> (\<And>a. m' = Inr a \<Longrightarrow> f a = g a) \<Longrightarrow> bind_result m f = bind_result m' g"
  by (cases m') (auto simp: bind_result_def)

section \<open>Loops that may return early\<close>

text \<open>\<open>for _, x := range xs { if err := f(x); err != nil { return err } }\<close>, threading a state.\<close>

fun fold_result :: "('a \<Rightarrow> 's \<Rightarrow> 's result) \<Rightarrow> 'a list \<Rightarrow> 's \<Rightarrow> 's result" where
  "fold_result f [] s = Inr s"
| "fold_result f (x # xs) s = bind_result (f x s) (fold_result f xs)"

lemma fold_result_cong [fundef_cong]:
  "xs = ys \<Longrightarrow> s = t \<Longrightarrow> (\<And>x u. x \<in> set ys \<Longrightarrow> f x u = g x u) \<Longrightarrow>
   fold_result f xs s = fold_result g ys t"
proof (induction xs arbitrary: ys s t)
  case (Cons x xs)
  then show ?case by (auto intro!: bind_result_cong)
qed auto

lemma fold_result_append:
  "fold_result f (xs @ ys) s = bind_result (fold_result f xs s) (fold_result f ys)"
  by (induction xs arbitrary: s) (auto simp: bind_result_def split: sum.splits)

lemma fold_result_invariant:
  assumes "fold_result f xs s = Inr t" and "P s"
    and "\<And>x u v. x \<in> set xs \<Longrightarrow> f x u = Inr v \<Longrightarrow> P u \<Longrightarrow> P v"
  shows "P t"
  using assms
proof (induction xs arbitrary: s)
  case (Cons x xs)
  from Cons.prems(1) obtain v where "f x s = Inr v" "fold_result f xs v = Inr t"
    by (auto simp: bind_result_Inr_iff)
  then show ?case
    using Cons.IH [of v] Cons.prems(2,3) by (metis list.set_intros)
qed simp

section \<open>Sorted lists\<close>

lemma above_nth_key:
  fixes f :: "'a \<Rightarrow> 'b :: linorder"
  assumes "sorted_wrt (\<lambda>x y. f x < f y) xs" and "n < length xs"
  shows "filter (\<lambda>x. f (xs ! n) < f x) xs = drop (Suc n) xs"
  using assms
proof (induction xs arbitrary: n)
  case (Cons x xs)
  show ?case
  proof (cases n)
    case 0
    have "filter (\<lambda>k. f x < f k) xs = xs" using Cons.prems(1) by (simp add: filter_id_conv)
    then show ?thesis using 0 by simp
  next
    case (Suc m)
    then have "f x < f (xs ! m)" using Cons.prems by simp
    then have "\<not> f (xs ! m) < f x" by (rule less_not_sym)
    then show ?thesis using Suc Cons.IH [of m] Cons.prems by simp
  qed
qed simp

lemma sort_strict: "sorted_wrt (\<lambda>x y. f x < (f y :: 'b :: linorder)) xs \<Longrightarrow> sort_key f xs = xs"
  by (induction xs) (simp_all add: insort_is_Cons less_imp_le)

end
