(* ===== verification/Authz.thy ===== *)
theory Authz
  imports Prelude
begin

text \<open>
  Model of \<^verbatim>\<open>src/authz/authz.go\<close>: the permission registry, the construction of an
  \<open>Authorizer\<close> from the configuration and the three queries \<open>Has\<close>, \<open>Any\<close> and
  \<open>Level\<close>. The lemmas show that the table-driven closure of the code is the one the
  architecture document describes by the names of the permissions: \<open>x:write\<close> includes
  \<open>x:read\<close>, \<open>all:read\<close> every read, \<open>all:write\<close> everything.
\<close>

section \<open>Permissions\<close>

type_synonym permission = string

abbreviation S3Read :: permission where "S3Read \<equiv> ''s3:read''"
abbreviation S3Write :: permission where "S3Write \<equiv> ''s3:write''"
abbreviation WebDAVRead :: permission where "WebDAVRead \<equiv> ''webdav:read''"
abbreviation WebDAVWrite :: permission where "WebDAVWrite \<equiv> ''webdav:write''"
abbreviation BackupRead :: permission where "BackupRead \<equiv> ''backup:read''"
abbreviation BackupWrite :: permission where "BackupWrite \<equiv> ''backup:write''"
abbreviation AdminRead :: permission where "AdminRead \<equiv> ''admin:read''"
abbreviation AdminWrite :: permission where "AdminWrite \<equiv> ''admin:write''"
abbreviation FileWrite :: permission where "FileWrite \<equiv> ''file:write''"
abbreviation AllRead :: permission where "AllRead \<equiv> ''all:read''"
abbreviation AllWrite :: permission where "AllWrite \<equiv> ''all:write''"

datatype level = LevelNone | LevelRead | LevelReadWrite

datatype permissionClass = classRead | classWrite

definition permissionClasses :: "permission \<rightharpoonup> permissionClass" where
  "permissionClasses = map_of
     [(S3Read, classRead), (S3Write, classWrite),
      (WebDAVRead, classRead), (WebDAVWrite, classWrite),
      (BackupRead, classRead), (BackupWrite, classWrite),
      (AdminRead, classRead), (AdminWrite, classWrite),
      (FileWrite, classWrite), (AllRead, classRead), (AllWrite, classWrite)]"

definition writeForRead :: "permission \<rightharpoonup> permission" where
  "writeForRead = map_of
     [(S3Read, S3Write), (WebDAVRead, WebDAVWrite),
      (BackupRead, BackupWrite), (AdminRead, AdminWrite)]"

section \<open>The authorizer\<close>

text \<open>
  A Go map is an association list with distinct keys, a Go set (\<open>map[K]struct{}\<close>) the
  list of its keys. A \<open>*Authorizer\<close> may be nil, hence the \<open>option\<close> in the queries.
\<close>

record authorizer =
  grants :: "(string \<times> permission list) list"

fun newUserGrants :: "permission list \<Rightarrow> string list \<Rightarrow> permission list result" where
  "newUserGrants userGrants [] = Inr userGrants"
| "newUserGrants userGrants (value # values) =
     (if permissionClasses value = None then Inl ErrInvalidPermission
      else if value \<in> set userGrants then Inl ErrInvalidPermission
      else newUserGrants (userGrants @ [value]) values)"

fun newGrants :: "(string \<times> string list) list \<Rightarrow> (string \<times> permission list) list result" where
  "newGrants [] = Inr []"
| "newGrants ((username, values) # rest) =
     bind_result (newUserGrants [] values) (\<lambda>userGrants.
     bind_result (newGrants rest) (\<lambda>gs. Inr ((username, userGrants) # gs)))"

definition New :: "(string \<times> string list) list \<Rightarrow> authorizer result" where
  "New input = bind_result (newGrants input) (\<lambda>gs. Inr \<lparr>grants = gs\<rparr>)"

definition Has :: "authorizer option \<Rightarrow> string \<Rightarrow> permission \<Rightarrow> bool" where
  "Has a username permission =
     (case (a, permissionClasses permission) of
        (Some az, Some class) \<Rightarrow>
          (case map_of (grants az) username of
             None \<Rightarrow> False
           | Some gs \<Rightarrow>
               if AllWrite \<in> set gs then True
               else if permission \<in> set gs then True
               else if class = classRead then
                 (if AllRead \<in> set gs then True
                  else case writeForRead permission of
                         Some write \<Rightarrow> write \<in> set gs
                       | None \<Rightarrow> False)
               else False)
      | _ \<Rightarrow> False)"

definition Any :: "authorizer option \<Rightarrow> permission \<Rightarrow> bool" where
  "Any a permission =
     (case a of None \<Rightarrow> False
      | Some az \<Rightarrow> list_ex (\<lambda>(username, _). Has a username permission) (grants az))"

definition Level :: "authorizer option \<Rightarrow> string \<Rightarrow> permission \<Rightarrow> permission \<Rightarrow> level" where
  "Level a username readPermission writePermission =
     (if Has a username writePermission then LevelReadWrite
      else if Has a username readPermission then LevelRead
      else LevelNone)"

section \<open>The documented closure\<close>

text \<open>
  The specification reads a permission as \<open>protocol:action\<close>. A grant \<open>g\<close> covers
  a permission \<open>p\<close> when it is the same one, when it is the protocol-wide write or read
  permission, or when it is the write permission of the same protocol and \<open>p\<close> reads.
\<close>

definition protocol_of :: "permission \<Rightarrow> string" where
  "protocol_of p = takeWhile (\<lambda>c. c \<noteq> CHR '':'') p"

definition action_of :: "permission \<Rightarrow> string" where
  "action_of p = tl (dropWhile (\<lambda>c. c \<noteq> CHR '':'') p)"

definition covers :: "permission \<Rightarrow> permission \<Rightarrow> bool" where
  "covers g p \<longleftrightarrow>
     g = p \<or>
     (protocol_of g = ''all'' \<and> action_of g = ''write'') \<or>
     (protocol_of g = ''all'' \<and> action_of g = ''read'' \<and> action_of p = ''read'') \<or>
     (protocol_of g = protocol_of p \<and> action_of g = ''write'' \<and> action_of p = ''read'')"

definition known :: "permission \<Rightarrow> bool" where
  "known p \<longleftrightarrow> permissionClasses p \<noteq> None"

lemma known_iff:
  "known p \<longleftrightarrow> p \<in> {S3Read, S3Write, WebDAVRead, WebDAVWrite, BackupRead, BackupWrite,
     AdminRead, AdminWrite, FileWrite, AllRead, AllWrite}"
  by (simp add: known_def permissionClasses_def)

lemma newUserGrants_Inr:
  "newUserGrants acc vs = Inr gs \<longleftrightarrow>
     list_all known vs \<and> distinct vs \<and> set vs \<inter> set acc = {} \<and> gs = acc @ vs"
  by (induction vs arbitrary: acc) (auto simp: known_def)

lemma newUserGrants_error:
  "newUserGrants acc vs = Inl e \<Longrightarrow> e = ErrInvalidPermission"
  by (induction vs arbitrary: acc) (auto split: if_splits)

definition valid_grants :: "(string \<times> string list) list \<Rightarrow> bool" where
  "valid_grants input \<longleftrightarrow> list_all (\<lambda>(u, vs). list_all known vs \<and> distinct vs) input"

lemma valid_grants_simps [simp]:
  "valid_grants []"
  "valid_grants ((u, vs) # rest) \<longleftrightarrow> list_all known vs \<and> distinct vs \<and> valid_grants rest"
  by (simp_all add: valid_grants_def)

lemma newGrants_Inr: "newGrants input = Inr gs \<longleftrightarrow> valid_grants input \<and> gs = input"
proof (induction input arbitrary: gs)
  case Nil
  then show ?case by (simp add: eq_commute)
next
  case (Cons x rest)
  obtain u vs where x: "x = (u, vs)" by (cases x)
  show ?case
    unfolding x by (simp add: bind_result_Inr_iff newUserGrants_Inr Cons.IH) blast
qed

lemma newGrants_error: "newGrants input = Inl e \<Longrightarrow> e = ErrInvalidPermission"
  by (induction input rule: newGrants.induct)
     (auto simp: bind_result_Inl_iff dest: newUserGrants_error)

lemma New_Inr: "New input = Inr a \<longleftrightarrow> valid_grants input \<and> grants a = input"
  by (cases a) (auto simp: New_def bind_result_Inr_iff newGrants_Inr)

text \<open>
  The registry is finite, so the closure of the two tables is compared with the documented
  one by evaluation on every pair of registered permissions.
\<close>

definition registry :: "permission list" where
  "registry = [S3Read, S3Write, WebDAVRead, WebDAVWrite, BackupRead, BackupWrite,
     AdminRead, AdminWrite, FileWrite, AllRead, AllWrite]"

definition grant_satisfies :: "permission \<Rightarrow> permission \<Rightarrow> bool" where
  "grant_satisfies g p \<longleftrightarrow>
     g = AllWrite \<or> g = p \<or>
     (permissionClasses p = Some classRead \<and> (g = AllRead \<or> writeForRead p = Some g))"

lemma known_registry: "known p \<longleftrightarrow> p \<in> set registry"
  by (simp only: known_iff registry_def list.set)

lemma registry_closure:
  "list_all (\<lambda>p. list_all (\<lambda>g. grant_satisfies g p = covers g p) registry) registry"
  by code_simp

lemma grant_satisfies_covers:
  assumes "known g" and "known p"
  shows "grant_satisfies g p \<longleftrightarrow> covers g p"
  using registry_closure assms by (simp add: known_registry list_all_iff)

lemma Has_Some:
  "Has (Some az) u p \<longleftrightarrow>
     known p \<and> (\<exists>gs. map_of (grants az) u = Some gs \<and> (\<exists>g\<in>set gs. grant_satisfies g p))"
proof (cases "permissionClasses p")
  case None
  then show ?thesis by (simp add: Has_def known_def)
next
  case (Some cls)
  then show ?thesis
    by (cases cls)
       (auto simp: Has_def known_def grant_satisfies_def split: option.splits)
qed

lemma writeForRead_classes:
  assumes "writeForRead r = Some w"
  shows "permissionClasses r = Some classRead \<and> permissionClasses w = Some classWrite"
  using assms
  by (simp add: writeForRead_def split: if_splits; hypsubst; simp add: permissionClasses_def)

lemma Has_None [simp]: "\<not> Has None u p"
  by (simp add: Has_def)

section \<open>Properties\<close>

text \<open>
  C30: for an authorizer that \<open>New\<close> built from the configuration, a user has a permission
  exactly when it is a registered one and some permission configured for that user covers
  it in the documented sense (same permission, \<open>all:write\<close>, \<open>all:read\<close> for
  reads, or the write permission of the same protocol for its read).
\<close>

theorem Has_covers:
  assumes "New input = Inr a"
  shows "Has (Some a) u p \<longleftrightarrow>
    known p \<and> (\<exists>vs. map_of input u = Some vs \<and> (\<exists>g\<in>set vs. covers g p))"
proof -
  have valid: "valid_grants input" and input: "grants a = input"
    using assms by (simp_all add: New_Inr)
  have "known g" if "map_of input u = Some vs" "g \<in> set vs" for vs g
    using valid map_of_SomeD [OF that(1)] that(2)
    by (force simp: valid_grants_def list_all_iff)
  then show ?thesis
    by (auto simp: Has_Some input grant_satisfies_covers)
qed

theorem Has_covers_witness:
  "New [(''u'', [''s3:write''])] = Inr \<lparr>grants = [(''u'', [''s3:write''])]\<rparr> \<and>
   (Has (Some \<lparr>grants = [(''u'', [''s3:write''])]\<rparr>) ''u'' ''s3:read'' \<longleftrightarrow>
      known ''s3:read'' \<and>
      (\<exists>vs. map_of [(''u'', [''s3:write''])] ''u'' = Some vs \<and>
         (\<exists>g\<in>set vs. covers g ''s3:read'')))"
proof -
  have h: "New [(''u'', [''s3:write''])] = Inr \<lparr>grants = [(''u'', [''s3:write''])]\<rparr>"
    by code_simp
  show ?thesis using h Has_covers [OF h] by blast
qed

text \<open>
  C31: \<open>New\<close> accepts a configuration exactly when every configured permission is
  registered and no user lists one twice, keeps it unchanged, and otherwise fails with
  \<open>ErrInvalidPermission\<close>.
\<close>

theorem New_accepts:
  "New input = (if valid_grants input then Inr \<lparr>grants = input\<rparr> else Inl ErrInvalidPermission)"
proof (cases "New input")
  case (Inl e)
  then have "newGrants input = Inl e" by (simp add: New_def bind_result_Inl_iff)
  moreover have "\<not> valid_grants input"
    using Inl New_Inr [of input "\<lparr>grants = input\<rparr>"] by auto
  ultimately show ?thesis using Inl newGrants_error by simp
next
  case (Inr a)
  then show ?thesis by (simp add: New_Inr)
qed



end
