(* ===== verification/Go_Lib.thy ===== *)
theory Go_Lib
  imports Prelude "HOL-Library.Word"
begin

text \<open>
  The parts of the Go standard library the source leans on when it reads and writes text:
  \<open>strconv\<close> (decimal integers), \<open>encoding/base64\<close> (\<open>StdEncoding\<close>),
  \<open>encoding/binary\<close> (\<open>BigEndian\<close>) and a few functions of \<open>strings\<close>.
  A Go string is a list of its bytes (\<^typ>\<open>string\<close>), a \<open>[]byte\<close> a list of
  8-bit words.
\<close>

unbundle bit_operations_syntax

type_synonym byte = "8 word"

section \<open>strconv\<close>

definition digit_char :: "nat \<Rightarrow> char" where
  "digit_char d = char_of (48 + d)"

definition digit_val :: "char \<Rightarrow> nat option" where
  "digit_val c = (let n = of_char c in if 48 \<le> n \<and> n < 58 then Some (n - 48) else None)"

fun format_nat :: "nat \<Rightarrow> string" where
  "format_nat n = (if n < 10 then [digit_char n] else format_nat (n div 10) @ [digit_char (n mod 10)])"

declare format_nat.simps [simp del]

text \<open>\<open>strconv.Itoa\<close> and \<open>strconv.FormatInt(i, 10)\<close>.\<close>

definition Itoa :: "int \<Rightarrow> string" where
  "Itoa i = (if i < 0 then CHR ''-'' # format_nat (nat (- i)) else format_nat (nat i))"

fun digits_val :: "nat \<Rightarrow> string \<Rightarrow> nat option" where
  "digits_val acc [] = Some acc"
| "digits_val acc (c # cs) = (case digit_val c of None \<Rightarrow> None | Some d \<Rightarrow> digits_val (acc * 10 + d) cs)"

text \<open>\<open>strconv.ParseUint(s, 10, 64)\<close>.\<close>

definition ParseUint :: "string \<Rightarrow> nat option" where
  "ParseUint s =
     (if s = [] then None
      else case digits_val 0 s of
             None \<Rightarrow> None
           | Some n \<Rightarrow> if n < 2 ^ 64 then Some n else None)"

text \<open>\<open>strconv.Atoi\<close> and \<open>strconv.ParseInt(s, 10, 64)\<close>: one optional sign,
  then at least one digit, the value within an \<open>int64\<close>.\<close>

definition split_sign :: "string \<Rightarrow> bool \<times> string" where
  "split_sign s =
     (case s of [] \<Rightarrow> (False, [])
      | c # cs \<Rightarrow> if c = CHR ''-'' then (True, cs) else if c = CHR ''+'' then (False, cs) else (False, s))"

definition Atoi :: "string \<Rightarrow> int option" where
  "Atoi s =
     (case split_sign s of (neg, ds) \<Rightarrow>
        if ds = [] then None
        else case digits_val 0 ds of
               None \<Rightarrow> None
             | Some n \<Rightarrow>
                 if neg then (if n \<le> 2 ^ 63 then Some (- int n) else None)
                 else (if n < 2 ^ 63 then Some (int n) else None))"

section \<open>strings\<close>

text \<open>\<open>strings.LastIndexByte\<close>, with \<open>None\<close> for \<open>-1\<close>.\<close>

fun last_index :: "'a \<Rightarrow> 'a list \<Rightarrow> nat option" where
  "last_index c [] = None"
| "last_index c (x # xs) =
     (case last_index c xs of Some i \<Rightarrow> Some (Suc i) | None \<Rightarrow> if x = c then Some 0 else None)"

definition lower_char :: "char \<Rightarrow> char" where
  "lower_char c = (let n = of_char c in if 65 \<le> n \<and> n \<le> (90::nat) then char_of (n + 32) else c)"

text \<open>\<open>strings.ToLower\<close> on ASCII text.\<close>

definition ToLower :: "string \<Rightarrow> string" where
  "ToLower s = map lower_char s"

definition HasPrefix :: "string \<Rightarrow> string \<Rightarrow> bool" where
  "HasPrefix s p \<longleftrightarrow> take (length p) s = p"

definition TrimPrefix :: "string \<Rightarrow> string \<Rightarrow> string" where
  "TrimPrefix s p = (if HasPrefix s p then drop (length p) s else s)"

text \<open>\<open>strings.TrimSpace\<close> on ASCII text.\<close>

definition is_space :: "char \<Rightarrow> bool" where
  "is_space c \<longleftrightarrow> (let n = (of_char c :: nat) in n = 32 \<or> 9 \<le> n \<and> n \<le> 13)"

definition TrimSpace :: "string \<Rightarrow> string" where
  "TrimSpace s = rev (dropWhile is_space (rev (dropWhile is_space s)))"

text \<open>The conversions \<open>[]byte(s)\<close> and \<open>string(bs)\<close>.\<close>

definition bytes_of_string :: "string \<Rightarrow> byte list" where
  "bytes_of_string s = map (\<lambda>c. word_of_nat (of_char c)) s"

definition string_of_bytes :: "byte list \<Rightarrow> string" where
  "string_of_bytes bs = map (\<lambda>b. char_of (unat b)) bs"

section \<open>encoding/binary\<close>

text \<open>\<open>BigEndian.PutUint32/64\<close> into \<open>n\<close> bytes and \<open>BigEndian.Uint32/64\<close>.\<close>

definition be_put :: "nat \<Rightarrow> 'a::len word \<Rightarrow> byte list" where
  "be_put n w = map (\<lambda>i. ucast (drop_bit (8 * (n - 1 - i)) w)) [0..<n]"

definition be_get :: "byte list \<Rightarrow> 'a::len word" where
  "be_get bs = foldl (\<lambda>w b. push_bit 8 w OR ucast b) 0 bs"

section \<open>encoding/base64\<close>

definition b64_char :: "nat \<Rightarrow> char" where
  "b64_char n =
     (if n < 26 then char_of (n + 65)
      else if n < 52 then char_of (n + 71)
      else if n < 62 then char_of (n - 4)
      else if n = 62 then CHR ''+''
      else CHR ''/'')"

definition b64_val :: "char \<Rightarrow> nat option" where
  "b64_val c =
     (let n = of_char c in
        if 65 \<le> n \<and> n \<le> 90 then Some (n - 65)
        else if 97 \<le> n \<and> n \<le> 122 then Some (n - 71)
        else if 48 \<le> n \<and> n \<le> 57 then Some (n + 4)
        else if n = 43 then Some 62
        else if n = 47 then Some 63
        else None)"

definition b64_chunk :: "byte \<Rightarrow> byte \<Rightarrow> byte \<Rightarrow> nat" where
  "b64_chunk a b c = unat a * 65536 + unat b * 256 + unat c"

fun b64_encode :: "byte list \<Rightarrow> string" where
  "b64_encode [] = []"
| "b64_encode [a] =
     (let n = b64_chunk a 0 0 in
        [b64_char (n div 262144), b64_char (n div 4096 mod 64), CHR ''='', CHR ''=''])"
| "b64_encode [a, b] =
     (let n = b64_chunk a b 0 in
        [b64_char (n div 262144), b64_char (n div 4096 mod 64), b64_char (n div 64 mod 64), CHR ''=''])"
| "b64_encode (a # b # c # bs) =
     (let n = b64_chunk a b c in
        [b64_char (n div 262144), b64_char (n div 4096 mod 64), b64_char (n div 64 mod 64),
         b64_char (n mod 64)] @ b64_encode bs)"

definition b64_bytes :: "nat \<Rightarrow> nat \<Rightarrow> nat \<Rightarrow> nat \<Rightarrow> byte list" where
  "b64_bytes v w x y =
     (let n = v * 262144 + w * 4096 + x * 64 + y in
        [word_of_nat (n div 65536), word_of_nat (n div 256), word_of_nat n])"

fun b64_quanta :: "string \<Rightarrow> byte list option" where
  "b64_quanta [] = Some []"
| "b64_quanta (c # d # e # f # cs) =
     (case (b64_val c, b64_val d) of
        (Some v, Some w) \<Rightarrow>
          if e = CHR ''='' then
            (if f = CHR ''='' \<and> cs = [] then Some (take 1 (b64_bytes v w 0 0)) else None)
          else if f = CHR ''='' then
            (case b64_val e of
               Some x \<Rightarrow> if cs = [] then Some (take 2 (b64_bytes v w x 0)) else None
             | None \<Rightarrow> None)
          else
            (case (b64_val e, b64_val f) of
               (Some x, Some y) \<Rightarrow> map_option (\<lambda>bs. b64_bytes v w x y @ bs) (b64_quanta cs)
             | _ \<Rightarrow> None)
      | _ \<Rightarrow> None)"
| "b64_quanta _ = None"

text \<open>\<open>DecodeString\<close> skips carriage returns and line feeds wherever they stand.\<close>

definition is_crlf :: "char \<Rightarrow> bool" where
  "is_crlf c \<longleftrightarrow> of_char c = (10::nat) \<or> of_char c = (13::nat)"

definition b64_decode :: "string \<Rightarrow> byte list option" where
  "b64_decode s = b64_quanta (filter (\<lambda>c. \<not> is_crlf c) s)"

section \<open>Round trips\<close>

lemma digit_val_char [simp]: "d < 10 \<Longrightarrow> digit_val (digit_char d) = Some d"
  by (simp add: digit_val_def digit_char_def)

lemma digits_val_append:
  "digits_val acc (xs @ ys) = (case digits_val acc xs of None \<Rightarrow> None | Some a \<Rightarrow> digits_val a ys)"
  by (induction xs arbitrary: acc) (auto split: option.splits)

lemma digits_val_format_nat [simp]: "digits_val 0 (format_nat n) = Some n"
  by (induction n rule: format_nat.induct)
     (subst format_nat.simps, auto simp: digits_val_append)

lemma format_nat_digits: "c \<in> set (format_nat n) \<Longrightarrow> \<exists>d < 10. c = digit_char d"
proof (induction n rule: format_nat.induct)
  case (1 n)
  show ?case
  proof (cases "n < 10")
    case True
    with "1.prems" show ?thesis by (subst (asm) format_nat.simps) auto
  next
    case False
    with "1.prems" have "c \<in> set (format_nat (n div 10)) \<or> c = digit_char (n mod 10)"
      by (subst (asm) format_nat.simps) auto
    moreover have "n mod 10 < 10" by simp
    ultimately show ?thesis using "1.IH" [OF False] by blast
  qed
qed

lemma format_nat_nonempty [simp]: "format_nat n \<noteq> []"
  by (subst format_nat.simps) simp

lemma digit_char_ne_sign:
  assumes "d < 10"
  shows "digit_char d \<noteq> CHR ''-''" and "digit_char d \<noteq> CHR ''+''"
proof -
  have *: "of_char (digit_char d) = 48 + d" using assms by (simp add: digit_char_def)
  show "digit_char d \<noteq> CHR ''-''"
  proof
    assume "digit_char d = CHR ''-''"
    with * have "48 + d = 45" by simp
    then show False by simp
  qed
  show "digit_char d \<noteq> CHR ''+''"
  proof
    assume "digit_char d = CHR ''+''"
    with * have "48 + d = 43" by simp
    then show False by simp
  qed
qed

lemma format_nat_no_sign: "CHR ''-'' \<notin> set (format_nat n)" "CHR ''+'' \<notin> set (format_nat n)"
  using format_nat_digits digit_char_ne_sign by metis+

lemma split_sign_format_nat [simp]: "split_sign (format_nat n) = (False, format_nat n)"
  using format_nat_no_sign [of n] by (cases "format_nat n") (auto simp: split_sign_def)

lemma ParseUint_code [code]:
  "ParseUint s =
     (if s = [] then None
      else case digits_val 0 s of
             None \<Rightarrow> None
           | Some n \<Rightarrow> if int n < 2 ^ 64 then Some n else None)"
proof -
  have "n < 2 ^ 64 \<longleftrightarrow> int n < 2 ^ 64" for n by (metis of_nat_less_iff of_nat_numeral of_nat_power)
  then show ?thesis by (simp only: ParseUint_def)
qed

lemma ParseUint_format_nat [simp]: "n < 2 ^ 64 \<Longrightarrow> ParseUint (format_nat n) = Some n"
  by (simp add: ParseUint_def)

lemma Atoi_Itoa:
  assumes "- (2 ^ 63) \<le> i" and "i < 2 ^ 63"
  shows "Atoi (Itoa i) = Some i"
proof (cases "i < 0")
  case True
  then have "split_sign (Itoa i) = (True, format_nat (nat (- i)))"
    by (simp add: Itoa_def split_sign_def)
  moreover have "nat (- i) \<le> 2 ^ 63" using assms True by simp
  ultimately show ?thesis using True by (simp add: Atoi_def)
next
  case False
  moreover have "nat i < 2 ^ 63" using assms False by simp
  ultimately show ?thesis by (simp add: Atoi_def Itoa_def)
qed

lemma last_index_append:
  "c \<notin> set ys \<Longrightarrow> last_index c (xs @ c # ys) = Some (length xs)"
proof -
  assume "c \<notin> set ys"
  then have "last_index c ys = None" by (induction ys) auto
  then show ?thesis by (induction xs) auto
qed

lemma last_index_Some:
  "last_index c xs = Some i \<Longrightarrow> i < length xs \<and> xs ! i = c"
  by (induction xs arbitrary: i) (auto split: option.splits if_splits)

lemma length_be_put [simp]: "length (be_put n w) = n"
  by (simp add: be_put_def)

lemma be_put_Suc: "be_put (Suc n) w = be_put n (drop_bit 8 w) @ [ucast w]"
  by (auto simp: be_put_def drop_bit_drop_bit intro!: arg_cong [of _ _ ucast] arg_cong [of _ _ "\<lambda>k. drop_bit k w"])

lemma be_get_snoc: "be_get (bs @ [b]) = push_bit 8 (be_get bs) OR ucast b"
  by (simp add: be_get_def)

lemma be_get_put: "be_get (be_put n w) = take_bit (8 * n) (w :: 'a::len word)"
proof (induction n arbitrary: w)
  case 0
  show ?case by (simp add: be_put_def be_get_def)
next
  case (Suc n)
  show ?case
    by (rule bit_word_eqI) (auto simp: be_put_Suc be_get_snoc Suc.IH bit_simps simp del: push_bit_numeral)
qed

lemma be_get_put_32 [simp]: "be_get (be_put 4 (w :: 32 word)) = w"
  by (simp add: be_get_put take_bit_word_eq_self)

lemma be_get_put_64 [simp]: "be_get (be_put 8 (w :: 64 word)) = w"
  by (simp add: be_get_put take_bit_word_eq_self)

lemma of_char_b64_char:
  "n < 64 \<Longrightarrow> of_char (b64_char n) =
     (if n < 26 then n + 65 else if n < 52 then n + 71 else if n < 62 then n - 4
      else if n = 62 then 43 else 47)"
  by (simp add: b64_char_def)

lemma char_eq_of_char: "c = d \<longleftrightarrow> of_char c = (of_char d :: nat)"
  by simp

lemma b64_char_simps [simp]:
  assumes "n < 64"
  shows "b64_val (b64_char n) = Some n" and "b64_char n \<noteq> CHR ''=''" and "\<not> is_crlf (b64_char n)"
proof -
  show "b64_val (b64_char n) = Some n"
    using assms by (simp add: b64_val_def of_char_b64_char Let_def) arith
  have "of_char CHR ''='' = (61::nat)" by simp
  then show "b64_char n \<noteq> CHR ''=''"
    using assms of_char_b64_char [of n] by (simp add: char_eq_of_char split: if_splits)
  show "\<not> is_crlf (b64_char n)"
    using assms by (simp add: is_crlf_def of_char_b64_char) arith
qed

lemma b64_chunk_lt: "b64_chunk a b c < 16777216"
  using unsigned_less [where 'a = nat, of a] unsigned_less [where 'a = nat, of b] unsigned_less [where 'a = nat, of c]
  by (simp add: b64_chunk_def)

lemma b64_chunk_indices [simp]:
  "b64_chunk a b c div 262144 < 64" "b64_chunk a b c div 4096 mod 64 < 64"
  "b64_chunk a b c div 64 mod 64 < 64" "b64_chunk a b c mod 64 < 64"
  using b64_chunk_lt [of a b c] by (simp_all add: div_less_iff_less_mult)

lemma base64_digits:
  fixes n :: nat
  shows "n = n div 262144 * 262144 + n div 4096 mod 64 * 4096 + n div 64 mod 64 * 64 + n mod 64"
proof -
  have combine: "m = c * 262144 + r * 4096 + q * 64 + p"
    if "m = a * 64 + p" "a = b * 64 + q" "b = c * 64 + r" for m a b c p q r :: nat
    using that by simp
  have "n div 4096 = n div 64 div 64" "n div 262144 = n div 64 div 64 div 64"
    by (simp_all add: div_mult2_eq [symmetric])
  then show ?thesis
    by (simp only:) (rule combine [OF div_mult_mod_eq [symmetric] div_mult_mod_eq [symmetric] div_mult_mod_eq [symmetric]])
qed

lemma byte_of_nat: "m mod 256 = unat b \<Longrightarrow> word_of_nat m = (b :: byte)"
  by (simp add: word_unat_eq_iff unsigned_of_nat take_bit_eq_mod)

lemma b64_bytes_chunk:
  "b64_bytes (b64_chunk a b c div 262144) (b64_chunk a b c div 4096 mod 64)
     (b64_chunk a b c div 64 mod 64) (b64_chunk a b c mod 64) = [a, b, c]"
proof -
  let ?n = "b64_chunk a b c"
  have n: "?n div 262144 * 262144 + ?n div 4096 mod 64 * 4096 + ?n div 64 mod 64 * 64 + ?n mod 64 = ?n"
    using base64_digits [of ?n] by simp
  have lt: "unat b < 256" "unat c < 256"
    using unsigned_less [where 'a = nat, of b] unsigned_less [where 'a = nat, of c] by simp_all
  then have "?n div 65536 = unat a" and "?n div 256 = unat a * 256 + unat b"
    by (simp_all add: b64_chunk_def)
  moreover have "word_of_nat (unat a * 256 + unat b) = b"
    by (rule byte_of_nat) (simp add: lt)
  moreover have "?n mod 256 = unat c"
    using lt by (simp add: b64_chunk_def mod_add_eq [symmetric] mod_mult_right_eq [symmetric, of "unat a" 65536])
  then have "word_of_nat ?n = c"
    by (rule byte_of_nat)
  ultimately show ?thesis
    unfolding b64_bytes_def Let_def n by simp
qed

lemma b64_chunk_padding:
  "b64_chunk a b 0 mod 64 = 0"
  "b64_chunk a 0 0 div 64 mod 64 = 0"
proof -
  have "b64_chunk a b 0 = 64 * (unat a * 1024 + unat b * 4)"
    by (simp add: b64_chunk_def)
  then show "b64_chunk a b 0 mod 64 = 0" by simp
  have "b64_chunk a 0 0 = 64 * (64 * (unat a * 16))"
    by (simp add: b64_chunk_def)
  then show "b64_chunk a 0 0 div 64 mod 64 = 0" by simp
qed

lemma b64_quanta_encode: "b64_quanta (b64_encode bs) = Some bs"
proof (induction bs rule: b64_encode.induct)
  case (2 a)
  then show ?case
    using b64_bytes_chunk [of a 0 0] by (simp add: Let_def b64_chunk_padding)
next
  case (3 a b)
  then show ?case
    using b64_bytes_chunk [of a b 0] by (simp add: Let_def b64_chunk_padding)
next
  case (4 a b c bs)
  then show ?case
    by (simp add: Let_def b64_bytes_chunk)
qed simp

lemma b64_encode_no_crlf: "filter (\<lambda>c. \<not> is_crlf c) (b64_encode bs) = b64_encode bs"
  by (induction bs rule: b64_encode.induct) (simp_all add: Let_def, simp_all add: is_crlf_def)

theorem b64_decode_encode [simp]: "b64_decode (b64_encode bs) = Some bs"
  by (simp add: b64_decode_def b64_encode_no_crlf b64_quanta_encode)

lemma b64_encode_no_minus: "CHR ''-'' \<notin> set (b64_encode bs)"
proof -
  have "b64_char n \<noteq> CHR ''-''" if "n < 64" for n
    using of_char_b64_char [OF that] by (simp add: char_eq_of_char split: if_splits)
  note * = this this [symmetric]
  show ?thesis
    by (induction bs rule: b64_encode.induct) (simp_all add: Let_def *)
qed

end
