(* ===== verification/Go_Hash.thy ===== *)
theory Go_Hash
  imports Go_Lib
begin

text \<open>
  The hash functions of the Go standard library that the source constructs: the reflected
  CRCs of \<open>hash/crc32\<close> and \<open>hash/crc64\<close> (one bit at a time, the function their
  lookup tables tabulate), \<open>crypto/sha1\<close>, \<open>crypto/sha256\<close> and \<open>crypto/md5\<close>. A
  \<open>hash.Hash\<close> is modelled by its size and the digest of the bytes written so far.
\<close>

section \<open>Reflected cyclic redundancy checks\<close>

definition crc_step :: "'a::len word \<Rightarrow> 'a word \<Rightarrow> 'a word" where
  "crc_step poly r = (if bit r 0 then drop_bit 1 r XOR poly else drop_bit 1 r)"

definition crc_byte :: "'a::len word \<Rightarrow> 'a word \<Rightarrow> byte \<Rightarrow> 'a word" where
  "crc_byte poly r b = (crc_step poly ^^ 8) (r XOR ucast b)"

text \<open>\<open>crc.Update(crc, table, bs)\<close>: the register is complemented before and after.\<close>

definition crc_update :: "'a::len word \<Rightarrow> 'a word \<Rightarrow> byte list \<Rightarrow> 'a word" where
  "crc_update poly crc bs = NOT (foldl (crc_byte poly) (NOT crc) bs)"

definition crc_checksum :: "'a::len word \<Rightarrow> byte list \<Rightarrow> 'a word" where
  "crc_checksum poly bs = crc_update poly 0 bs"

section \<open>SHA-1 and SHA-256\<close>

text \<open>Padding to a multiple of 64 bytes: \<open>0x80\<close>, zeros, the bit length in 8 bytes.\<close>

definition sha_pad :: "byte list \<Rightarrow> byte list" where
  "sha_pad m =
     m @ [0x80] @ replicate ((119 - length m mod 64) mod 64) 0
       @ be_put 8 (word_of_nat (8 * length m) :: 64 word)"

fun chunks :: "nat \<Rightarrow> 'a list \<Rightarrow> 'a list list" where
  "chunks 0 xs = []"
| "chunks (Suc k) [] = []"
| "chunks (Suc k) (x # xs) = (x # take k xs) # chunks (Suc k) (drop k xs)"

definition words_of :: "byte list \<Rightarrow> 32 word list" where
  "words_of bs = map be_get (chunks 4 bs)"

definition rotl32 :: "nat \<Rightarrow> 32 word \<Rightarrow> 32 word" where
  "rotl32 n w = push_bit n w OR drop_bit (32 - n) w"

definition rotr32 :: "nat \<Rightarrow> 32 word \<Rightarrow> 32 word" where
  "rotr32 n w = drop_bit n w OR push_bit (32 - n) w"

text \<open>The message schedules, kept newest word first.\<close>

fun sha1_extend :: "nat \<Rightarrow> 32 word list \<Rightarrow> 32 word list" where
  "sha1_extend 0 ws = ws"
| "sha1_extend (Suc n) ws =
     sha1_extend n (rotl32 1 (ws ! 2 XOR ws ! 7 XOR ws ! 13 XOR ws ! 15) # ws)"

type_synonym sha1_state = "32 word \<times> 32 word \<times> 32 word \<times> 32 word \<times> 32 word"

definition sha1_round :: "nat \<Rightarrow> 32 word \<Rightarrow> sha1_state \<Rightarrow> sha1_state" where
  "sha1_round t w = (\<lambda>(a, b, c, d, e).
     let (f, k) =
       (if t < 20 then ((b AND c) OR (NOT b AND d), 0x5A827999)
        else if t < 40 then (b XOR c XOR d, 0x6ED9EBA1)
        else if t < 60 then ((b AND c) OR (b AND d) OR (c AND d), 0x8F1BBCDC)
        else (b XOR c XOR d, 0xCA62C1D6))
     in (rotl32 5 a + f + e + w + k, a, rotl32 30 b, c, d))"

definition sha1_block :: "sha1_state \<Rightarrow> byte list \<Rightarrow> sha1_state" where
  "sha1_block s block =
     (let ws = rev (sha1_extend 64 (rev (words_of block)));
          (a, b, c, d, e) = fold (\<lambda>(t, w). sha1_round t w) (enumerate 0 ws) s
      in case s of (a', b', c', d', e') \<Rightarrow> (a' + a, b' + b, c' + c, d' + d, e' + e))"

definition sha1_init :: sha1_state where
  "sha1_init = (0x67452301, 0xEFCDAB89, 0x98BADCFE, 0x10325476, 0xC3D2E1F0)"

definition sha1 :: "byte list \<Rightarrow> byte list" where
  "sha1 m =
     (case foldl sha1_block sha1_init (chunks 64 (sha_pad m)) of (a, b, c, d, e) \<Rightarrow>
        be_put 4 a @ be_put 4 b @ be_put 4 c @ be_put 4 d @ be_put 4 e)"

text \<open>
  The constants of SHA-256 are the first 32 bits of the fractional parts of the cube roots of
  the first 64 primes, and of the square roots of the first 8. \<open>root_bits\<close> finds the integer
  root from the most significant bit down.
\<close>

primrec root_bits :: "nat \<Rightarrow> int \<Rightarrow> nat \<Rightarrow> int \<Rightarrow> int" where
  "root_bits k n 0 r = r"
| "root_bits k n (Suc b) r = root_bits k n b (if (r + 2 ^ b) ^ k \<le> n then r + 2 ^ b else r)"

definition primes_upto :: "int \<Rightarrow> int list" where
  "primes_upto n = filter (\<lambda>p. list_all (\<lambda>q. p mod q \<noteq> 0) [2..p - 1]) [2..n]"

definition root_fraction :: "nat \<Rightarrow> int \<Rightarrow> 32 word" where
  "root_fraction k p = word_of_int (root_bits k (p * (2 ^ 32) ^ k) 37 0)"

definition sha256_K :: "32 word list" where
  "sha256_K = map (root_fraction 3) (primes_upto 311)"

fun sha256_extend :: "nat \<Rightarrow> 32 word list \<Rightarrow> 32 word list" where
  "sha256_extend 0 ws = ws"
| "sha256_extend (Suc n) ws =
     (let s0 = (\<lambda>x. rotr32 7 x XOR rotr32 18 x XOR drop_bit 3 x) (ws ! 14);
          s1 = (\<lambda>x. rotr32 17 x XOR rotr32 19 x XOR drop_bit 10 x) (ws ! 1)
      in sha256_extend n ((s1 + ws ! 6 + s0 + ws ! 15) # ws))"

type_synonym sha256_state =
  "(32 word \<times> 32 word \<times> 32 word \<times> 32 word) \<times> (32 word \<times> 32 word \<times> 32 word \<times> 32 word)"

definition sha256_round :: "32 word \<times> 32 word \<Rightarrow> sha256_state \<Rightarrow> sha256_state" where
  "sha256_round = (\<lambda>(k, w) ((a, b, c, d), (e, f, g, h)).
     let s1 = rotr32 6 e XOR rotr32 11 e XOR rotr32 25 e;
         ch = (e AND f) XOR (NOT e AND g);
         t1 = h + s1 + ch + k + w;
         s0 = rotr32 2 a XOR rotr32 13 a XOR rotr32 22 a;
         maj = (a AND b) XOR (a AND c) XOR (b AND c)
     in ((t1 + s0 + maj, a, b, c), (d + t1, e, f, g)))"

definition sha256_block :: "sha256_state \<Rightarrow> byte list \<Rightarrow> sha256_state" where
  "sha256_block s block =
     (let ws = rev (sha256_extend 48 (rev (words_of block)));
          ((a, b, c, d), (e, f, g, h)) = fold sha256_round (zip sha256_K ws) s
      in case s of ((a', b', c', d'), (e', f', g', h')) \<Rightarrow>
           ((a' + a, b' + b, c' + c, d' + d), (e' + e, f' + f, g' + g, h' + h)))"

definition sha256_init :: sha256_state where
  "sha256_init =
     ((root_fraction 2 2, root_fraction 2 3, root_fraction 2 5, root_fraction 2 7),
      (root_fraction 2 11, root_fraction 2 13, root_fraction 2 17, root_fraction 2 19))"

definition sha256 :: "byte list \<Rightarrow> byte list" where
  "sha256 m =
     (case foldl sha256_block sha256_init (chunks 64 (sha_pad m)) of ((a, b, c, d), (e, f, g, h)) \<Rightarrow>
        concat (map (be_put 4) [a, b, c, d, e, f, g, h]))"

section \<open>MD5\<close>

definition le_put :: "nat \<Rightarrow> 'a::len word \<Rightarrow> byte list" where
  "le_put n w = rev (be_put n w)"

definition md5_pad :: "byte list \<Rightarrow> byte list" where
  "md5_pad m =
     m @ [0x80] @ replicate ((119 - length m mod 64) mod 64) 0
       @ le_put 8 (word_of_nat (8 * length m) :: 64 word)"

definition md5_K :: "32 word list" where
  "md5_K =
     [0xd76aa478, 0xe8c7b756, 0x242070db, 0xc1bdceee, 0xf57c0faf, 0x4787c62a, 0xa8304613, 0xfd469501,
      0x698098d8, 0x8b44f7af, 0xffff5bb1, 0x895cd7be, 0x6b901122, 0xfd987193, 0xa679438e, 0x49b40821,
      0xf61e2562, 0xc040b340, 0x265e5a51, 0xe9b6c7aa, 0xd62f105d, 0x02441453, 0xd8a1e681, 0xe7d3fbc8,
      0x21e1cde6, 0xc33707d6, 0xf4d50d87, 0x455a14ed, 0xa9e3e905, 0xfcefa3f8, 0x676f02d9, 0x8d2a4c8a,
      0xfffa3942, 0x8771f681, 0x6d9d6122, 0xfde5380c, 0xa4beea44, 0x4bdecfa9, 0xf6bb4b60, 0xbebfbc70,
      0x289b7ec6, 0xeaa127fa, 0xd4ef3085, 0x04881d05, 0xd9d4d039, 0xe6db99e5, 0x1fa27cf8, 0xc4ac5665,
      0xf4292244, 0x432aff97, 0xab9423a7, 0xfc93a039, 0x655b59c3, 0x8f0ccc92, 0xffeff47d, 0x85845dd1,
      0x6fa87e4f, 0xfe2ce6e0, 0xa3014314, 0x4e0811a1, 0xf7537e82, 0xbd3af235, 0x2ad7d2bb, 0xeb86d391]"

definition md5_shift :: "nat \<Rightarrow> nat" where
  "md5_shift i =
     (if i < 16 then [7, 12, 17, 22] else if i < 32 then [5, 9, 14, 20]
      else if i < 48 then [4, 11, 16, 23] else [6, 10, 15, 21]) ! (i mod 4)"

type_synonym md5_state = "32 word \<times> 32 word \<times> 32 word \<times> 32 word"

definition md5_round :: "32 word list \<Rightarrow> nat \<times> 32 word \<Rightarrow> md5_state \<Rightarrow> md5_state" where
  "md5_round ws = (\<lambda>(i, k) (a, b, c, d).
     let (f, g) =
       (if i < 16 then ((b AND c) OR (NOT b AND d), i)
        else if i < 32 then ((d AND b) OR (NOT d AND c), (5 * i + 1) mod 16)
        else if i < 48 then (b XOR c XOR d, (3 * i + 5) mod 16)
        else (c XOR (b OR NOT d), (7 * i) mod 16))
     in (d, b + rotl32 (md5_shift i) (a + f + k + ws ! g), b, c))"

definition md5_block :: "md5_state \<Rightarrow> byte list \<Rightarrow> md5_state" where
  "md5_block s block =
     (let ws = map (\<lambda>w. be_get (rev w)) (chunks 4 block);
          (a, b, c, d) = fold (md5_round ws) (enumerate 0 md5_K) s
      in case s of (a', b', c', d') \<Rightarrow> (a' + a, b' + b, c' + c, d' + d))"

definition md5 :: "byte list \<Rightarrow> byte list" where
  "md5 m =
     (case foldl md5_block (0x67452301, 0xefcdab89, 0x98badcfe, 0x10325476) (chunks 64 (md5_pad m)) of
        (a, b, c, d) \<Rightarrow> concat (map (le_put 4) [a, b, c, d]))"

text \<open>\<open>hex.EncodeToString\<close>.\<close>

definition hex_char :: "nat \<Rightarrow> char" where
  "hex_char n = (if n < 10 then char_of (n + 48) else char_of (n + 87))"

definition hex_encode :: "byte list \<Rightarrow> string" where
  "hex_encode bs = concat (map (\<lambda>b. [hex_char (unat b div 16), hex_char (unat b mod 16)]) bs)"

text \<open>\<open>hex.DecodeString\<close>, without telling its two errors apart.\<close>

definition hex_val :: "char \<Rightarrow> nat option" where
  "hex_val c =
     (let n = of_char c
      in if 48 \<le> n \<and> n \<le> 57 then Some (n - 48)
         else if 97 \<le> n \<and> n \<le> 102 then Some (n - 87)
         else if 65 \<le> n \<and> n \<le> 70 then Some (n - 55)
         else None)"

fun hex_decode :: "string \<Rightarrow> byte list option" where
  "hex_decode [] = Some []"
| "hex_decode [c] = None"
| "hex_decode (c # c' # cs) =
     (case (hex_val c, hex_val c', hex_decode cs) of
        (Some h, Some l, Some bs) \<Rightarrow> Some (word_of_nat (16 * h + l) # bs)
      | _ \<Rightarrow> None)"

lemma hex_val_char: "n < 16 \<Longrightarrow> hex_val (hex_char n) = Some n"
  by (auto simp: hex_val_def hex_char_def Let_def)

lemma hex_decode_encode [simp]: "hex_decode (hex_encode bs) = Some bs"
proof (induction bs)
  case (Cons b bs)
  have "unat b div 16 < 16" using unsigned_less [of b, where 'a = nat] by (simp add: less_mult_imp_div_less)
  then show ?case using Cons by (simp add: hex_encode_def hex_val_char)
qed (simp add: hex_encode_def)

lemma hex_decode_length: "hex_decode s = Some bs \<Longrightarrow> length s = 2 * length bs"
  by (induction s arbitrary: bs rule: hex_decode.induct) (auto split: option.splits)

section \<open>Digest sizes\<close>

lemma length_sha1 [simp]: "length (sha1 m) = 20"
  by (simp add: sha1_def split: prod.split)

lemma length_sha256 [simp]: "length (sha256 m) = 32"
  by (simp add: sha256_def split: prod.split)

lemma length_md5 [simp]: "length (md5 m) = 16"
  by (simp add: md5_def le_put_def split: prod.split)

lemma length_hex_encode [simp]: "length (hex_encode bs) = 2 * length bs"
  by (induction bs) (simp_all add: hex_encode_def)

end
