(* ===== verification/S3_Checksum.thy ===== *)
theory S3_Checksum
  imports Go_Hash
begin

text \<open>
  The package \<open>s3checksum\<close>: the vocabulary of checksum algorithms and aggregation types,
  digests in Base64, the composite checksum of a multipart object and the combination of
  part CRCs into the CRC of the whole object. The Go types \<open>Algorithm\<close> and \<open>Type\<close>
  are strings, and so are they here.

  The main result is that \<open>combineCRC\<close>, zlib's matrix method, computes from the CRCs of
  two byte strings the CRC of their concatenation, and hence that \<open>FullObject\<close> returns
  the checksum of the object a client would compute over all of its bytes.
\<close>

section \<open>Algorithms and types (algorithm.go)\<close>

abbreviation AlgorithmCRC32 :: string where "AlgorithmCRC32 \<equiv> ''CRC32''"
abbreviation AlgorithmCRC32C :: string where "AlgorithmCRC32C \<equiv> ''CRC32C''"
abbreviation AlgorithmCRC64NVME :: string where "AlgorithmCRC64NVME \<equiv> ''CRC64NVME''"
abbreviation AlgorithmSHA1 :: string where "AlgorithmSHA1 \<equiv> ''SHA1''"
abbreviation AlgorithmSHA256 :: string where "AlgorithmSHA256 \<equiv> ''SHA256''"

abbreviation TypeFullObject :: string where "TypeFullObject \<equiv> ''FULL_OBJECT''"
abbreviation TypeComposite :: string where "TypeComposite \<equiv> ''COMPOSITE''"

definition unsupportedAlgorithms :: "string list" where
  "unsupportedAlgorithms = [''MD5'', ''SHA512'', ''XXHASH64'', ''XXHASH3'', ''XXHASH128'']"

definition crc64NVMEPolynomial :: "64 word" where
  "crc64NVMEPolynomial = 0x9a6c9329ac4bc9b5"

definition crc32IEEEPolynomial :: "32 word" where
  "crc32IEEEPolynomial = 0xedb88320"

definition crc32CastagnoliPolynomial :: "32 word" where
  "crc32CastagnoliPolynomial = 0x82f63b78"

definition parseAlgorithmWithDefault :: "string \<Rightarrow> string \<Rightarrow> string result" where
  "parseAlgorithmWithDefault algorithmValue typeValue =
     (if algorithmValue = '''' then
        (if typeValue = TypeComposite then Inl ErrInvalidCombination else Inr AlgorithmCRC64NVME)
      else if algorithmValue \<in> set unsupportedAlgorithms then Inl ErrUnsupportedAlgorithm
      else if algorithmValue \<in> {AlgorithmCRC32, AlgorithmCRC32C, AlgorithmCRC64NVME, AlgorithmSHA1, AlgorithmSHA256}
      then Inr algorithmValue
      else Inl ErrInvalidAlgorithm)"

definition parseTypeWithDefault :: "string \<Rightarrow> string \<Rightarrow> string result" where
  "parseTypeWithDefault algorithm typeValue =
     (if typeValue = '''' then
        (if algorithm = AlgorithmCRC64NVME then Inr TypeFullObject else Inr TypeComposite)
      else if typeValue \<in> {TypeFullObject, TypeComposite} then Inr typeValue
      else Inl ErrInvalidType)"

definition ParseAlgorithm :: "string \<Rightarrow> string result" where
  "ParseAlgorithm value =
     (if value = '''' then Inl ErrInvalidAlgorithm else parseAlgorithmWithDefault value '''')"

definition ParseType :: "string \<Rightarrow> string result" where
  "ParseType value =
     (if value = '''' then Inl ErrInvalidType else parseTypeWithDefault AlgorithmCRC64NVME value)"

definition ValidateCombination :: "string \<Rightarrow> string \<Rightarrow> unit result" where
  "ValidateCombination algorithm checksumType =
     (if checksumType = TypeFullObject then
        (if algorithm \<in> {AlgorithmCRC32, AlgorithmCRC32C, AlgorithmCRC64NVME} then Inr ()
         else if algorithm \<in> {AlgorithmSHA1, AlgorithmSHA256} then Inl ErrInvalidCombination
         else Inl ErrInvalidAlgorithm)
      else if checksumType = TypeComposite then
        (if algorithm \<in> {AlgorithmCRC32, AlgorithmCRC32C, AlgorithmSHA1, AlgorithmSHA256} then Inr ()
         else if algorithm = AlgorithmCRC64NVME then Inl ErrInvalidCombination
         else Inl ErrInvalidAlgorithm)
      else Inl ErrInvalidType)"

definition ResolveMultipart :: "string \<Rightarrow> string \<Rightarrow> (string \<times> string) result" where
  "ResolveMultipart algorithmValue typeValue =
     bind_result (parseAlgorithmWithDefault algorithmValue typeValue) (\<lambda>algorithm.
     bind_result (parseTypeWithDefault algorithm typeValue) (\<lambda>checksumType.
     bind_result (ValidateCombination algorithm checksumType) (\<lambda>_.
     Inr (algorithm, checksumType))))"

text \<open>A \<open>hash.Hash\<close>: \<open>Size()\<close> and the value of \<open>Sum(nil)\<close> after writing the bytes.\<close>

record hasher =
  HSize :: nat
  HSum :: "byte list \<Rightarrow> byte list"

definition NewHash :: "string \<Rightarrow> hasher result" where
  "NewHash algorithm =
     (if algorithm = AlgorithmCRC32 then
        Inr \<lparr>HSize = 4, HSum = (\<lambda>bs. be_put 4 (crc_checksum crc32IEEEPolynomial bs))\<rparr>
      else if algorithm = AlgorithmCRC32C then
        Inr \<lparr>HSize = 4, HSum = (\<lambda>bs. be_put 4 (crc_checksum crc32CastagnoliPolynomial bs))\<rparr>
      else if algorithm = AlgorithmCRC64NVME then
        Inr \<lparr>HSize = 8, HSum = (\<lambda>bs. be_put 8 (crc_checksum crc64NVMEPolynomial bs))\<rparr>
      else if algorithm = AlgorithmSHA1 then Inr \<lparr>HSize = 20, HSum = sha1\<rparr>
      else if algorithm = AlgorithmSHA256 then Inr \<lparr>HSize = 32, HSum = sha256\<rparr>
      else Inl ErrInvalidAlgorithm)"

definition HeaderName :: "string \<Rightarrow> string result" where
  "HeaderName algorithm =
     bind_result (NewHash algorithm) (\<lambda>_. Inr (''x-amz-checksum-'' @ ToLower algorithm))"

definition XMLName :: "string \<Rightarrow> string result" where
  "XMLName algorithm = bind_result (NewHash algorithm) (\<lambda>_. Inr (''Checksum'' @ algorithm))"

section \<open>Digests (digest.go)\<close>

definition Decode :: "string \<Rightarrow> string \<Rightarrow> byte list result" where
  "Decode algorithm value =
     (case b64_decode value of
        None \<Rightarrow> Inl ErrInvalidDigest
      | Some digest \<Rightarrow>
          bind_result (NewHash algorithm) (\<lambda>hasher.
            if length digest \<noteq> HSize hasher then Inl ErrInvalidDigest else Inr digest))"

definition SumBase64 :: "hasher \<Rightarrow> byte list \<Rightarrow> string" where
  "SumBase64 hasher written = b64_encode (HSum hasher written)"

section \<open>Composite checksums (composite.go)\<close>

text \<open>The loop of \<open>Composite\<close>: the bytes written into the hash so far.\<close>

fun compositeWrite :: "string \<Rightarrow> byte list \<Rightarrow> string list \<Rightarrow> byte list result" where
  "compositeWrite algorithm written [] = Inr written"
| "compositeWrite algorithm written (value # values) =
     bind_result (Decode algorithm value) (\<lambda>raw. compositeWrite algorithm (written @ raw) values)"

definition Composite :: "string \<Rightarrow> string list \<Rightarrow> (string \<times> string) result" where
  "Composite algorithm values =
     (if values = [] then Inl ErrInvalidDigest
      else
        bind_result (ValidateCombination algorithm TypeComposite) (\<lambda>_.
        bind_result (NewHash algorithm) (\<lambda>hasher.
        bind_result (compositeWrite algorithm [] values) (\<lambda>written.
          let requestValue = SumBase64 hasher written
          in Inr (requestValue, requestValue @ ''-'' @ Itoa (int (length values)))))))"

definition ParseCompositeStored :: "string \<Rightarrow> string \<Rightarrow> int \<Rightarrow> string result" where
  "ParseCompositeStored algorithm value expectedParts =
     (case last_index (CHR ''-'') value of
        None \<Rightarrow> Inl ErrInvalidDigest
      | Some separator \<Rightarrow>
          if separator = 0 \<or> separator = length value - 1 then Inl ErrInvalidDigest
          else
            case Atoi (drop (separator + 1) value) of
              None \<Rightarrow> Inl ErrInvalidDigest
            | Some partCount \<Rightarrow>
                if partCount \<noteq> expectedParts \<or> partCount \<le> 0 then Inl ErrInvalidDigest
                else
                  let requestValue = take separator value
                  in bind_result (Decode algorithm requestValue) (\<lambda>_. Inr requestValue))"

section \<open>Full-object checksums (combine\_crc.go)\<close>

record PartChecksum =
  Value :: string
  PSize :: int

text \<open>
  \<open>gf2MatrixTimes\<close>: the loop consumes the vector from its lowest bit; \<open>index\<close> never
  leaves the matrix because the matrix has one row per bit of the word.
\<close>

function gf2TimesLoop :: "'a::len word list \<Rightarrow> 'a word \<Rightarrow> nat \<Rightarrow> 'a word \<Rightarrow> 'a word" where
  "gf2TimesLoop matrix vector index acc =
     (if vector \<noteq> 0 then
        gf2TimesLoop matrix (drop_bit 1 vector) (index + 1)
          (if bit vector 0 then acc XOR matrix ! index else acc)
      else acc)"
  by pat_completeness auto
termination
proof (relation "measure (\<lambda>(_, vector, _, _). unat vector)", goal_cases)
  case (2 matrix vector index acc)
  have "unat (drop_bit 1 vector) = unat vector div 2"
    by (simp only: unsigned_drop_bit_eq) (simp add: drop_bit_eq_div unsigned_take_bit_eq [symmetric])
  moreover have "0 < unat vector"
    using 2 by (simp add: unat_gt_0)
  ultimately show ?case by simp
qed simp

declare gf2TimesLoop.simps [simp del]

definition gf2MatrixTimes :: "'a::len word list \<Rightarrow> 'a word \<Rightarrow> 'a word" where
  "gf2MatrixTimes matrix vector = gf2TimesLoop matrix vector 0 0"

definition gf2MatrixSquare :: "'a::len word list \<Rightarrow> 'a word list \<Rightarrow> 'a word list" where
  "gf2MatrixSquare square matrix =
     map (\<lambda>index. gf2MatrixTimes matrix (matrix ! index)) [0..<length square]"

text \<open>The infinite loop of \<open>combineCRC\<close>; it stops once the length is shifted out.\<close>

fun combineLoop :: "'a::len word list \<Rightarrow> 'a word list \<Rightarrow> 'a word \<Rightarrow> nat \<Rightarrow> 'a word" where
  "combineLoop even' odd' first n =
     (let even' = gf2MatrixSquare even' odd';
          first = (if n mod 2 \<noteq> 0 then gf2MatrixTimes even' first else first);
          n = n div 2
      in if n = 0 then first
         else
           let odd' = gf2MatrixSquare odd' even';
               first = (if n mod 2 \<noteq> 0 then gf2MatrixTimes odd' first else first);
               n = n div 2
           in if n = 0 then first else combineLoop even' odd' first n)"

declare combineLoop.simps [simp del]

definition oddMatrix :: "'a::len word \<Rightarrow> nat \<Rightarrow> 'a word list" where
  "oddMatrix polynomial width = polynomial # map (\<lambda>index. push_bit (index - 1) 1) [1..<width]"

definition combineCRC :: "'a::len word \<Rightarrow> 'a word \<Rightarrow> int \<Rightarrow> 'a word \<Rightarrow> nat \<Rightarrow> 'a word" where
  "combineCRC first second secondLength polynomial width =
     (if secondLength \<le> 0 then first
      else
        let odd' = oddMatrix polynomial width;
            even' = replicate width 0;
            even' = gf2MatrixSquare even' odd';
            odd' = gf2MatrixSquare odd' even'
        in combineLoop even' odd' first (nat secondLength) XOR second)"

text \<open>The loop over the parts, shared by the 32-bit and the 64-bit function.\<close>

fun combineParts ::
  "string \<Rightarrow> 'a::len word \<Rightarrow> nat \<Rightarrow> nat \<Rightarrow> 'a word \<Rightarrow> PartChecksum list \<Rightarrow> 'a word result" where
  "combineParts algorithm polynomial width index combined [] = Inr combined"
| "combineParts algorithm polynomial width index combined (part # parts) =
     (if PSize part < 0 then Inl ErrInvalidPartSize
      else
        bind_result (Decode algorithm (Value part)) (\<lambda>raw.
          let partCRC = be_get raw
          in combineParts algorithm polynomial width (index + 1)
               (if index = 0 then partCRC
                else combineCRC combined partCRC (PSize part) polynomial width) parts))"

definition combineCRC32Parts :: "string \<Rightarrow> PartChecksum list \<Rightarrow> string result" where
  "combineCRC32Parts algorithm parts =
     (let polynomial =
        (if algorithm = AlgorithmCRC32C then crc32CastagnoliPolynomial else crc32IEEEPolynomial)
      in bind_result (combineParts algorithm polynomial 32 0 0 parts) (\<lambda>combined.
           Inr (b64_encode (be_put 4 combined))))"

definition combineCRC64Parts :: "PartChecksum list \<Rightarrow> string result" where
  "combineCRC64Parts parts =
     bind_result (combineParts AlgorithmCRC64NVME crc64NVMEPolynomial 64 0 0 parts) (\<lambda>combined.
       Inr (b64_encode (be_put 8 combined)))"

definition FullObject :: "string \<Rightarrow> PartChecksum list \<Rightarrow> string result" where
  "FullObject algorithm parts =
     (if parts = [] then Inl ErrInvalidDigest
      else
        bind_result (ValidateCombination algorithm TypeFullObject) (\<lambda>_.
          if algorithm \<in> {AlgorithmCRC32, AlgorithmCRC32C} then combineCRC32Parts algorithm parts
          else if algorithm = AlgorithmCRC64NVME then combineCRC64Parts parts
          else if algorithm \<in> {AlgorithmSHA1, AlgorithmSHA256} then Inl ErrInvalidCombination
          else Inl ErrInvalidAlgorithm))"

section \<open>Cyclic redundancy checks are linear\<close>

definition gf2_linear :: "('a::len word \<Rightarrow> 'a word) \<Rightarrow> bool" where
  "gf2_linear f \<longleftrightarrow> (\<forall>x y. f (x XOR y) = f x XOR f y)"

lemma gf2_linearD: "gf2_linear f \<Longrightarrow> f (x XOR y) = f x XOR f y"
  by (simp add: gf2_linear_def)

lemma gf2_linear_0: "gf2_linear f \<Longrightarrow> f 0 = 0"
  using gf2_linearD [of f 0 0] by simp

lemma gf2_linear_comp: "gf2_linear f \<Longrightarrow> gf2_linear g \<Longrightarrow> gf2_linear (\<lambda>x. f (g x))"
  by (simp add: gf2_linear_def)

lemma gf2_linear_funpow: "gf2_linear f \<Longrightarrow> gf2_linear (f ^^ n)"
  by (induction n) (auto simp: gf2_linear_def)

lemma gf2_linear_crc_step: "gf2_linear (crc_step poly)"
  unfolding gf2_linear_def
proof (intro allI)
  fix x y
  show "crc_step poly (x XOR y) = crc_step poly x XOR crc_step poly y"
    by (cases "bit x 0"; cases "bit y 0")
       (simp_all add: crc_step_def bit_xor_iff drop_bit_xor ac_simps bit.xor_left_self)
qed

text \<open>Feeding zero bytes is \<open>zero_bytes\<close>; any register splits off its own contribution.\<close>

definition zero_bytes :: "'a::len word \<Rightarrow> nat \<Rightarrow> 'a word \<Rightarrow> 'a word" where
  "zero_bytes poly n = crc_step poly ^^ (8 * n)"

lemma crc_fold_split:
  "foldl (crc_byte poly) (r XOR d) bs = foldl (crc_byte poly) r bs XOR zero_bytes poly (length bs) d"
proof (induction bs arbitrary: r d)
  case Nil
  show ?case by (simp add: zero_bytes_def)
next
  case (Cons b bs)
  let ?f = "crc_step poly ^^ 8"
  have "crc_byte poly (r XOR d) b = ?f ((r XOR ucast b) XOR d)"
    by (simp only: crc_byte_def ac_simps)
  also have "\<dots> = crc_byte poly r b XOR ?f d"
    by (simp only: gf2_linearD [OF gf2_linear_funpow [OF gf2_linear_crc_step]] crc_byte_def)
  finally have "foldl (crc_byte poly) (r XOR d) (b # bs)
      = foldl (crc_byte poly) (crc_byte poly r b) bs XOR zero_bytes poly (length bs) (?f d)"
    by (simp only: foldl.simps Cons.IH)
  moreover have "zero_bytes poly (length bs) (?f d) = zero_bytes poly (length (b # bs)) d"
    by (simp add: zero_bytes_def funpow_add [symmetric, THEN fun_cong, unfolded comp_def] ac_simps
        del: funpow.simps)
  ultimately show ?case by simp
qed

lemma crc_checksum_append:
  "crc_checksum poly (a @ b) = zero_bytes poly (length b) (crc_checksum poly a) XOR crc_checksum poly b"
proof -
  let ?a = "foldl (crc_byte poly) (NOT 0) a"
  have "?a = NOT 0 XOR NOT ?a" by (rule bit_word_eqI) (simp add: bit_simps)
  then have "foldl (crc_byte poly) ?a b
      = foldl (crc_byte poly) (NOT 0) b XOR zero_bytes poly (length b) (NOT ?a)"
    by (metis crc_fold_split)
  then show ?thesis
    by (auto simp: crc_checksum_def crc_update_def bit_eq_iff bit_simps)
qed

section \<open>Matrices represent linear maps\<close>

definition represents :: "'a::len word list \<Rightarrow> ('a word \<Rightarrow> 'a word) \<Rightarrow> bool" where
  "represents M f \<longleftrightarrow> length M = LENGTH('a) \<and> (\<forall>i < LENGTH('a). M ! i = f (push_bit i 1))"

lemma push_bit_split_low:
  "push_bit k (v :: 'a::len word) = (if bit v 0 then push_bit k 1 else 0) XOR push_bit (k + 1) (drop_bit 1 v)"
proof (rule bit_word_eqI)
  fix i
  assume "i < LENGTH('a)"
  then show "bit (push_bit k v) i = bit ((if bit v 0 then push_bit k 1 else 0) XOR push_bit (k + 1) (drop_bit 1 v)) i"
    by (cases "i \<le> k") (auto simp: bit_simps Suc_le_eq not_le Suc_diff_Suc le_less simp del: push_bit_Suc)
qed

lemma gf2TimesLoop_linear:
  fixes f :: "'a::len word \<Rightarrow> 'a word"
  assumes lin: "gf2_linear f"
  shows "represents M f \<Longrightarrow> index \<le> LENGTH('a) \<Longrightarrow> drop_bit (LENGTH('a) - index) vector = 0 \<Longrightarrow>
         gf2TimesLoop M vector index acc = acc XOR f (push_bit index vector)"
proof (induction M vector index acc rule: gf2TimesLoop.induct)
  case (1 M vector index acc)
  show ?case
  proof (cases "vector = 0")
    case True
    then show ?thesis by (subst gf2TimesLoop.simps) (simp add: gf2_linear_0 [OF lin])
  next
    case False
    with "1.prems" have index: "index < LENGTH('a)"
      by (cases "index = LENGTH('a)") auto
    then have "drop_bit (LENGTH('a) - (index + 1)) (drop_bit 1 vector) = 0"
      using "1.prems"(3) by (simp only: drop_bit_drop_bit) (simp add: Suc_diff_Suc)
    then have IH: "gf2TimesLoop M (drop_bit 1 vector) (index + 1) acc'
        = acc' XOR f (push_bit (index + 1) (drop_bit 1 vector))"
      if "acc' = (if bit vector 0 then acc XOR M ! index else acc)" for acc'
      using "1.IH" [OF False "1.prems"(1)] index that by simp
    show ?thesis
    proof (cases "bit vector 0")
      case True
      have "gf2TimesLoop M vector index acc = (acc XOR M ! index) XOR f (push_bit (index + 1) (drop_bit 1 vector))"
        using IH [of "acc XOR M ! index"] True False by (subst gf2TimesLoop.simps) simp
      also have "\<dots> = acc XOR (f (push_bit index 1) XOR f (push_bit (index + 1) (drop_bit 1 vector)))"
        using "1.prems"(1) index by (simp add: represents_def xor.assoc)
      also have "\<dots> = acc XOR f (push_bit index vector)"
        using True by (simp only: gf2_linearD [OF lin, symmetric] push_bit_split_low [of index vector] if_True)
      finally show ?thesis .
    next
      case low: False
      then show ?thesis
        using IH [of acc] False push_bit_split_low [of index vector]
        by (subst gf2TimesLoop.simps) simp
    qed
  qed
qed

lemma gf2MatrixTimes_represents:
  assumes "gf2_linear f" and "represents M f"
  shows "gf2MatrixTimes M = f"
  by (rule ext) (simp add: gf2MatrixTimes_def gf2TimesLoop_linear [OF assms])

lemma gf2MatrixSquare_represents:
  fixes f :: "'a::len word \<Rightarrow> 'a word"
  assumes "gf2_linear f" and "represents M f" and "length S = LENGTH('a)"
  shows "represents (gf2MatrixSquare S M) (f ^^ 2)"
  using assms(2,3)
  by (simp add: represents_def gf2MatrixSquare_def gf2MatrixTimes_represents [OF assms(1,2)] numeral_2_eq_2)

lemma oddMatrix_represents:
  "represents (oddMatrix poly LENGTH('a)) (crc_step (poly :: 'a::len word))"
proof -
  have "oddMatrix poly LENGTH('a) ! i = crc_step poly (push_bit i 1)" if "i < LENGTH('a)" for i
  proof (cases i)
    case 0
    then show ?thesis by (simp add: oddMatrix_def crc_step_def drop_bit_eq_div)
  next
    case (Suc j)
    then have "drop_bit 1 (push_bit i (1 :: 'a word)) = push_bit j 1"
      using that by (intro bit_word_eqI) (auto simp: bit_simps)
    then show ?thesis
      using Suc that nth_upt [of 1 j "LENGTH('a)"] by (simp add: oddMatrix_def crc_step_def bit_simps)
  qed
  then show ?thesis
    by (simp add: represents_def) (simp add: oddMatrix_def)
qed

lemma exponent_digits:
  fixes n :: nat
  assumes "n = a * 2 + p" and "a = b * 2 + q"
  shows "2 * k * n = 2 * (4 * k) * b + (4 * k * q + 2 * k * p)"
  unfolding assms by (simp add: algebra_simps)

lemma combineLoop_eq:
  fixes E D :: "'a::len word list"
  assumes "length E = LENGTH('a)" and "represents D (crc_step poly ^^ k)" and "0 < n"
  shows "combineLoop E D r n = (crc_step poly ^^ (2 * k * n)) r"
  using assms
proof (induction E D r n arbitrary: k rule: combineLoop.induct)
  case (1 E D r n)
  let ?f = "crc_step poly"
  let ?E = "gf2MatrixSquare E D"
  let ?r = "if n mod 2 \<noteq> 0 then gf2MatrixTimes ?E r else r"
  let ?D = "gf2MatrixSquare D ?E"
  let ?r' = "if n div 2 mod 2 \<noteq> 0 then gf2MatrixTimes ?D ?r else ?r"
  have lin: "gf2_linear (?f ^^ m)" for m
    by (rule gf2_linear_funpow [OF gf2_linear_crc_step])
  have E: "represents ?E (?f ^^ (2 * k))"
    using gf2MatrixSquare_represents [OF lin "1.prems"(2,1)] by (simp add: funpow_mult mult.commute)
  have "length D = LENGTH('a)" using "1.prems"(2) by (simp add: represents_def)
  then have D: "represents ?D (?f ^^ (4 * k))"
    using gf2MatrixSquare_represents [OF lin E] by (simp add: funpow_mult mult.commute)
  have r: "?r = (?f ^^ (2 * k * (n mod 2))) r"
    by (cases "n mod 2 = 0") (simp_all add: gf2MatrixTimes_represents [OF lin E])
  have r': "?r' = (?f ^^ (4 * k * (n div 2 mod 2) + 2 * k * (n mod 2))) r"
    by (cases "n div 2 mod 2 = 0") (simp_all only: r gf2MatrixTimes_represents [OF lin D] funpow_add, simp_all add: r)
  have expo: "2 * k * n
      = 2 * (4 * k) * (n div 2 div 2) + (4 * k * (n div 2 mod 2) + 2 * k * (n mod 2))"
    by (rule exponent_digits [OF div_mult_mod_eq [symmetric] div_mult_mod_eq [symmetric]])
  show ?case
  proof (cases "n div 2 = 0")
    case True
    then have "n mod 2 = n" by (metis mod_div_trivial div_mult_mod_eq mult_0 add_0)
    then show ?thesis
      using True r by (subst combineLoop.simps) (simp add: Let_def)
  next
    case nz: False
    show ?thesis
    proof (cases "n div 2 div 2 = 0")
      case True
      then show ?thesis
        using nz r' expo by (subst combineLoop.simps) (simp add: Let_def)
    next
      case False
      then have "combineLoop E D r n = combineLoop ?E ?D ?r' (n div 2 div 2)"
        using nz by (subst combineLoop.simps) (simp only: Let_def if_False)
      also have "\<dots> = (?f ^^ (2 * (4 * k) * (n div 2 div 2))) ?r'"
      proof (rule "1.IH" [OF refl refl refl nz refl refl refl False _ D])
        show "length ?E = LENGTH('a)" using E by (simp add: represents_def)
        show "0 < n div 2 div 2" using False by simp
      qed
      also have "\<dots> = (?f ^^ (2 * k * n)) r"
        unfolding r' expo by (simp add: funpow_add [symmetric, THEN fun_cong, unfolded comp_def])
      finally show ?thesis .
    qed
  qed
qed

theorem combineCRC_zero_bytes:
  fixes poly :: "'a::len word"
  assumes "0 < n"
  shows "combineCRC a b n poly LENGTH('a) = zero_bytes poly (nat n) a XOR b"
proof -
  let ?odd = "oddMatrix poly LENGTH('a)"
  let ?even = "gf2MatrixSquare (replicate LENGTH('a) 0) ?odd"
  have even: "represents ?even (crc_step poly ^^ 2)"
    by (rule gf2MatrixSquare_represents [OF gf2_linear_crc_step oddMatrix_represents]) simp
  have "represents (gf2MatrixSquare ?odd ?even) ((crc_step poly ^^ 2) ^^ 2)"
    by (rule gf2MatrixSquare_represents [OF gf2_linear_funpow [OF gf2_linear_crc_step] even])
       (simp add: oddMatrix_def)
  then have "represents (gf2MatrixSquare ?odd ?even) (crc_step poly ^^ 4)"
    by (simp only: funpow_mult) simp
  then have "combineLoop ?even (gf2MatrixSquare ?odd ?even) a (nat n) = zero_bytes poly (nat n) a"
    using even assms by (subst combineLoop_eq [where k = 4]) (simp_all add: represents_def zero_bytes_def)
  then show ?thesis
    using assms by (simp add: combineCRC_def Let_def)
qed

section \<open>Correctness of the checksums\<close>

lemma combineCRC_append:
  fixes poly :: "'a::len word"
  shows "combineCRC (crc_checksum poly a) (crc_checksum poly b) (int (length b)) poly LENGTH('a)
           = crc_checksum poly (a @ b)"
proof (cases "b = []")
  case True
  then show ?thesis by (simp add: combineCRC_def)
next
  case False
  then show ?thesis by (simp add: combineCRC_zero_bytes crc_checksum_append)
qed

lemma Decode_encode:
  assumes "NewHash algorithm = Inr h" and "length raw = HSize h"
  shows "Decode algorithm (b64_encode raw) = Inr raw"
  using assms by (simp add: Decode_def)

lemma NewHash_sizes: "NewHash algorithm = Inr h \<Longrightarrow> length (HSum h bs) = HSize h"
  by (auto simp: NewHash_def split: if_splits)

text \<open>What a client that uploads \<open>content\<close> as one part records for it.\<close>

definition part_of :: "hasher \<Rightarrow> byte list \<Rightarrow> PartChecksum" where
  "part_of h content = \<lparr>Value = SumBase64 h content, PSize = int (length content)\<rparr>"

lemma combineParts_contents:
  fixes poly :: "'a::len word"
  assumes hash: "NewHash algorithm = Inr h"
    and crc: "\<And>bs. HSum h bs = be_put w (crc_checksum poly bs)"
    and get: "\<And>c. be_get (be_put w c) = (c :: 'a word)"
  shows "0 < index \<Longrightarrow> combineParts algorithm poly LENGTH('a) index (crc_checksum poly done') (map (part_of h) contents)
           = Inr (crc_checksum poly (done' @ concat contents))"
proof (induction contents arbitrary: index done')
  case Nil
  show ?case by simp
next
  case (Cons c cs)
  have "Decode algorithm (Value (part_of h c)) = Inr (be_put w (crc_checksum poly c))"
    using Decode_encode [OF hash NewHash_sizes [OF hash]] by (simp add: part_of_def SumBase64_def crc)
  moreover have "PSize (part_of h c) = int (length c)" by (simp add: part_of_def)
  ultimately show ?case
    using Cons.IH [of "Suc index" "done' @ c"] Cons.prems
    by (simp add: get combineCRC_append)
qed

lemma combineParts_all:
  fixes poly :: "'a::len word"
  assumes hash: "NewHash algorithm = Inr h"
    and crc: "\<And>bs. HSum h bs = be_put w (crc_checksum poly bs)"
    and get: "\<And>c. be_get (be_put w c) = (c :: 'a word)"
    and "contents \<noteq> []"
  shows "combineParts algorithm poly LENGTH('a) 0 0 (map (part_of h) contents)
           = Inr (crc_checksum poly (concat contents))"
proof -
  obtain c cs where contents: "contents = c # cs" using assms(4) by (cases contents) auto
  have "Decode algorithm (Value (part_of h c)) = Inr (be_put w (crc_checksum poly c))"
    using Decode_encode [OF hash NewHash_sizes [OF hash]] by (simp add: part_of_def SumBase64_def crc)
  moreover have "\<not> PSize (part_of h c) < 0" by (simp add: part_of_def)
  ultimately show ?thesis
    using combineParts_contents [OF hash crc get, of 1 c cs] by (simp add: contents get)
qed

lemma FullObject_contents:
  assumes alg: "algorithm \<in> {AlgorithmCRC32, AlgorithmCRC32C, AlgorithmCRC64NVME}"
    and hash: "NewHash algorithm = Inr h" and ne: "contents \<noteq> []"
  shows "FullObject algorithm (map (part_of h) contents) = Inr (SumBase64 h (concat contents))"
proof -
  have valid: "ValidateCombination algorithm TypeFullObject = Inr ()"
    using alg by (simp add: ValidateCombination_def)
  consider (ieee) "algorithm = AlgorithmCRC32" | (castagnoli) "algorithm = AlgorithmCRC32C"
    | (nvme) "algorithm = AlgorithmCRC64NVME"
    using alg by blast
  then show ?thesis
  proof cases
    case ieee
    then have h: "h = \<lparr>HSize = 4, HSum = (\<lambda>bs. be_put 4 (crc_checksum crc32IEEEPolynomial bs))\<rparr>"
      using hash by (simp add: NewHash_def)
    show ?thesis
      using combineParts_all [OF hash _ be_get_put_32 ne, of crc32IEEEPolynomial] ne valid ieee h
      by (simp add: FullObject_def combineCRC32Parts_def SumBase64_def)
  next
    case castagnoli
    then have h: "h = \<lparr>HSize = 4, HSum = (\<lambda>bs. be_put 4 (crc_checksum crc32CastagnoliPolynomial bs))\<rparr>"
      using hash by (simp add: NewHash_def)
    show ?thesis
      using combineParts_all [OF hash _ be_get_put_32 ne, of crc32CastagnoliPolynomial] ne valid castagnoli h
      by (simp add: FullObject_def combineCRC32Parts_def SumBase64_def)
  next
    case nvme
    then have h: "h = \<lparr>HSize = 8, HSum = (\<lambda>bs. be_put 8 (crc_checksum crc64NVMEPolynomial bs))\<rparr>"
      using hash by (simp add: NewHash_def)
    show ?thesis
      using combineParts_all [OF hash _ be_get_put_64 ne, of crc64NVMEPolynomial] ne valid nvme h
      by (simp add: FullObject_def combineCRC64Parts_def SumBase64_def)
  qed
qed

lemma compositeWrite_encode:
  assumes hash: "NewHash algorithm = Inr h"
  shows "compositeWrite algorithm written (map (SumBase64 h) contents)
           = Inr (written @ concat (map (HSum h) contents))"
proof (induction contents arbitrary: written)
  case Nil
  show ?case by simp
next
  case (Cons c cs)
  then show ?case
    using Decode_encode [OF hash NewHash_sizes [OF hash]] by (simp add: SumBase64_def)
qed

lemma Composite_contents:
  assumes hash: "NewHash algorithm = Inr h" and "contents \<noteq> []"
    and "ValidateCombination algorithm TypeComposite = Inr ()"
  shows "Composite algorithm (map (SumBase64 h) contents) =
           (let request = SumBase64 h (concat (map (HSum h) contents))
            in Inr (request, request @ ''-'' @ Itoa (int (length contents))))"
  using assms compositeWrite_encode [OF hash, of "[]" contents]
  by (simp add: Composite_def)

lemma b64_encode_nonempty: "bs \<noteq> [] \<Longrightarrow> b64_encode bs \<noteq> []"
  by (induction bs rule: b64_encode.induct) (simp_all add: Let_def)

lemma NewHash_size_pos: "NewHash algorithm = Inr h \<Longrightarrow> 0 < HSize h"
  by (auto simp: NewHash_def split: if_splits)

lemma ParseCompositeStored_append:
  assumes hash: "NewHash algorithm = Inr h" and n: "0 < n" "n < 2 ^ 63"
  shows "ParseCompositeStored algorithm (SumBase64 h bs @ ''-'' @ Itoa n) n = Inr (SumBase64 h bs)"
proof -
  let ?req = "SumBase64 h bs"
  have itoa: "Itoa n = format_nat (nat n)" using n by (simp add: Itoa_def)
  have sep: "last_index (CHR ''-'') (?req @ ''-'' @ Itoa n) = Some (length ?req)"
    using last_index_append [of "CHR ''-''" "Itoa n" ?req] format_nat_no_sign(1) by (simp add: itoa)
  have "HSum h bs \<noteq> []"
    using NewHash_sizes [OF hash, of bs] NewHash_size_pos [OF hash] by auto
  then have ne: "?req \<noteq> []" by (simp add: SumBase64_def b64_encode_nonempty)
  have "Atoi (Itoa n) = Some n" using n by (intro Atoi_Itoa) simp_all
  moreover have "Itoa n \<noteq> []" by (simp add: itoa)
  moreover have "Decode algorithm ?req = Inr (HSum h bs)"
    using Decode_encode [OF hash NewHash_sizes [OF hash]] by (simp add: SumBase64_def)
  ultimately show ?thesis
    using ne n sep by (simp add: ParseCompositeStored_def)
qed

lemma Composite_Inr:
  assumes "Composite algorithm values = Inr (request, stored)"
  obtains h bs where "values \<noteq> []" and "NewHash algorithm = Inr h"
    and "compositeWrite algorithm [] values = Inr bs" and "request = SumBase64 h bs"
    and "stored = request @ ''-'' @ Itoa (int (length values))"
  using assms
  by (auto simp: Composite_def bind_result_Inr_iff Let_def split: if_splits)

section \<open>Properties\<close>

text \<open>
  C27: \<open>combineCRC\<close> computes, from the CRC of \<open>a\<close>, the CRC of \<open>b\<close> and the length of
  \<open>b\<close> alone, the CRC of the concatenation of \<open>a\<close> and \<open>b\<close>. It holds for every
  polynomial and every word width, hence for CRC-32, CRC-32C and CRC-64/NVME.
\<close>

theorem combineCRC_correct:
  "combineCRC (crc_checksum poly a) (crc_checksum poly b) (int (length b)) poly LENGTH('w)
     = crc_checksum (poly :: 'w::len word) (a @ b)"
  by (rule combineCRC_append)

text \<open>
  C28: \<open>FullObject\<close>, given for each part the checksum and the size its uploader recorded,
  returns the checksum of the whole object, without reading it again, for every algorithm that
  supports full-object checksums.
\<close>

theorem FullObject_correct:
  assumes "algorithm \<in> {AlgorithmCRC32, AlgorithmCRC32C, AlgorithmCRC64NVME}"
    and "NewHash algorithm = Inr h" and "contents \<noteq> []"
  shows "FullObject algorithm (map (part_of h) contents) = Inr (SumBase64 h (concat contents))"
  using assms by (rule FullObject_contents)

theorem FullObject_correct_witness:
  "FullObject ''CRC64NVME''
     [part_of \<lparr>HSize = 8, HSum = (\<lambda>bs. be_put 8 (crc_checksum crc64NVMEPolynomial bs))\<rparr> [1, 2, 3],
      part_of \<lparr>HSize = 8, HSum = (\<lambda>bs. be_put 8 (crc_checksum crc64NVMEPolynomial bs))\<rparr> [4, 5]]
   = Inr (SumBase64 \<lparr>HSize = 8, HSum = (\<lambda>bs. be_put 8 (crc_checksum crc64NVMEPolynomial bs))\<rparr>
            [1, 2, 3, 4, 5])"
  using FullObject_correct [of "''CRC64NVME''"
      "\<lparr>HSize = 8, HSum = (\<lambda>bs. be_put 8 (crc_checksum crc64NVMEPolynomial bs))\<rparr>" "[[1, 2, 3], [4, 5]]"]
  by (simp add: NewHash_def)

text \<open>
  C29: a composite checksum survives being stored: the value \<open>Composite\<close> produces for a list
  of part checksums is accepted by \<open>ParseCompositeStored\<close> for the same number of parts, and
  gives back the Base64 value a client sends, which decodes to a digest of the right size.
\<close>

theorem Composite_ParseCompositeStored:
  assumes "Composite algorithm values = Inr (request, stored)"
    and "int (length values) < 2 ^ 63"
  shows "ParseCompositeStored algorithm stored (int (length values)) = Inr request \<and>
         (\<exists>h digest. NewHash algorithm = Inr h \<and> Decode algorithm request = Inr digest \<and> length digest = HSize h)"
proof (rule conjI)
  from assms(1) obtain h bs where *: "values \<noteq> []" "NewHash algorithm = Inr h"
      "request = SumBase64 h bs" "stored = request @ ''-'' @ Itoa (int (length values))"
    by (rule Composite_Inr)
  show "ParseCompositeStored algorithm stored (int (length values)) = Inr request"
    using ParseCompositeStored_append [OF *(2), of "int (length values)" bs] *(1,3,4) assms(2) by simp
  show "\<exists>h digest. NewHash algorithm = Inr h \<and> Decode algorithm request = Inr digest \<and> length digest = HSize h"
    using Decode_encode [OF *(2) NewHash_sizes [OF *(2)], of bs] NewHash_sizes [OF *(2), of bs] *(2,3)
    by (auto simp: SumBase64_def)
qed

theorem Composite_ParseCompositeStored_witness:
  "let h = \<lparr>HSize = 20, HSum = sha1\<rparr>; request = SumBase64 h (sha1 [1, 2, 3] @ sha1 [4, 5])
   in Composite ''SHA1'' [SumBase64 h [1, 2, 3], SumBase64 h [4, 5]] = Inr (request, request @ ''-2'')
      \<and> ParseCompositeStored ''SHA1'' (request @ ''-2'') 2 = Inr request"
proof -
  let ?h = "\<lparr>HSize = 20, HSum = sha1\<rparr>"
  have itoa: "Itoa 2 = ''2''" by code_simp
  have "Composite ''SHA1'' [SumBase64 ?h [1, 2, 3], SumBase64 ?h [4, 5]]
      = Inr (SumBase64 ?h (sha1 [1, 2, 3] @ sha1 [4, 5]), SumBase64 ?h (sha1 [1, 2, 3] @ sha1 [4, 5]) @ ''-2'')"
    using Composite_contents [of "''SHA1''" ?h "[[1, 2, 3], [4, 5]]"]
    by (simp add: NewHash_def ValidateCombination_def itoa Let_def)
  then show ?thesis
    using Composite_ParseCompositeStored by (fastforce simp: Let_def)
qed

end
