(* ===== verification/Storage.thy ===== *)
theory Storage
  imports Go_Hash "HOL-Library.Product_Lexorder" "HOL-Library.List_Lexorder" "HOL-Library.Char_ord"
begin

text \<open>
  The relational state of the server. Every table of the schema (\<open>migrations/*.sql\<close>) that
  the modelled components touch is a list of rows, a row is a record with the table's columns,
  and the database is the record of its tables. A statement is a list function: \<open>SELECT\<close>
  is \<open>filter\<close> followed by \<open>sort_key\<close> and \<open>take\<close>, \<open>UPDATE\<close> is
  \<open>map\<close>, \<open>DELETE\<close> is \<open>filter\<close>, \<open>INSERT\<close> appends after checking the
  table's \<open>UNIQUE\<close> constraints. Text columns restricted by a \<open>CHECK\<close> to a list of
  words are datatypes. Row identifiers are natural numbers, sizes and times in milliseconds
  integers. Failures of the database itself (I/O errors, a busy file) are outside the model.

  The second half holds the data access objects \<open>dao/file_dao.go\<close> and
  \<open>dao/file_part_dao.go\<close>.
\<close>

section \<open>Tables\<close>

abbreviation (input) FileStateInit :: nat where "FileStateInit \<equiv> 1"
abbreviation (input) FileStateReady :: nat where "FileStateReady \<equiv> 2"
abbreviation (input) FileStateDeleted :: nat where "FileStateDeleted \<equiv> 3"

record file_row =
  fr_id :: nat
  fr_file_id :: nat
  fr_size :: int
  fr_part_count :: int
  fr_state :: nat
  fr_ctime :: int
  fr_mtime :: int
  fr_extinfo :: string
  fr_layout :: nat

record part_row =
  pr_file_id :: nat
  pr_part_id :: int
  pr_key :: string
  pr_md5 :: string
  pr_size :: int
  pr_ctime :: int
  pr_mtime :: int

datatype delete_state = Live | Pending | Deleting | Deleted | Expired | Failed

record delete_row =
  dr_file_id :: nat
  dr_part_id :: int
  dr_backend :: string
  dr_ref :: string
  dr_uploaded_at :: int
  dr_state :: delete_state
  dr_attempts :: int
  dr_next_attempt :: int
  dr_lease_until :: int
  dr_last_attempt :: int
  dr_error :: string
  dr_deleted_at :: int
  dr_ctime :: int
  dr_mtime :: int

record mapping_row =
  mr_id :: nat
  mr_entry_id :: nat
  mr_parent :: nat
  mr_ref_data :: string
  mr_kind :: nat
  mr_ctime :: int
  mr_mtime :: int
  mr_size :: int
  mr_mode :: nat
  mr_name :: string

record metadata_row =
  or_entry_id :: nat
  or_etag :: string
  or_sha256 :: string
  or_checksum_algorithm :: string
  or_checksum_value :: string
  or_checksum_type :: string
  or_content_type :: string
  or_cache_control :: string
  or_content_disposition :: string
  or_content_encoding :: string
  or_content_language :: string
  or_expires :: string
  or_user_metadata :: string
  or_ctime :: int
  or_mtime :: int

record segment_row =
  sr_file_id :: nat
  sr_index :: nat
  sr_source :: nat
  sr_size :: int
  sr_ctime :: int
  sr_mtime :: int

datatype upload_state = UActive | UCompleting | UCompleted | UAborted

record upload_row =
  ur_upload_id :: string
  ur_bucket :: string
  ur_key :: string
  ur_state :: upload_state
  ur_content_type :: string
  ur_cache_control :: string
  ur_content_disposition :: string
  ur_content_encoding :: string
  ur_content_language :: string
  ur_expires :: string
  ur_user_metadata :: string
  ur_checksum_algorithm :: string
  ur_checksum_type :: string
  ur_fingerprint :: string
  ur_result_file_id :: nat
  ur_result_etag :: string
  ur_result_checksum :: string
  ur_initiated_at :: int
  ur_expires_at :: int
  ur_completed_at :: int
  ur_cleanup_at :: int
  ur_ctime :: int
  ur_mtime :: int

datatype mpart_state = MActive | MSelected | MDiscarded

record mpart_row =
  qr_upload_id :: string
  qr_part_number :: int
  qr_state :: mpart_state
  qr_file_id :: nat
  qr_size :: int
  qr_etag :: string
  qr_checksum :: string
  qr_uploaded_at :: int
  qr_ctime :: int
  qr_mtime :: int

record completed_row =
  cr_file_id :: nat
  cr_part_number :: int
  cr_size :: int
  cr_available :: bool
  cr_algorithm :: string
  cr_value :: string
  cr_ctime :: int
  cr_mtime :: int

record pin_row =
  nr_job_id :: string
  nr_file_id :: nat
  nr_ctime :: int

record property_row =
  wr_entry_id :: nat
  wr_namespace :: string
  wr_local_name :: string
  wr_value_xml :: string
  wr_ctime :: int
  wr_mtime :: int

record lock_row =
  lr_token :: string
  lr_root_path :: string
  lr_root_entry :: nat
  lr_infinity :: bool
  lr_owner_xml :: string
  lr_principal :: string
  lr_created_at :: int
  lr_expires_at :: int
  lr_null :: bool

datatype change_kind = ChangeCreated | ChangeUpdated | ChangeDeleted

record change_row =
  hr_revision :: nat
  hr_path :: string
  hr_kind :: change_kind
  hr_at :: int

text \<open>
  Besides the tables, the database holds the counters behind its \<open>AUTOINCREMENT\<close> columns
  and \<open>id_seq\<close>, the number of identifiers drawn so far from the process-wide generator
  \<open>idgen\<close>.
\<close>

record db =
  files :: "file_row list"
  parts :: "part_row list"
  deletes :: "delete_row list"
  mappings :: "mapping_row list"
  metas :: "metadata_row list"
  segments :: "segment_row list"
  uploads :: "upload_row list"
  mparts :: "mpart_row list"
  completed :: "completed_row list"
  pins :: "pin_row list"
  props :: "property_row list"
  locks :: "lock_row list"
  changes :: "change_row list"
  file_seq :: nat
  mapping_seq :: nat
  change_seq :: nat
  id_seq :: nat

section \<open>Reading a table in batches\<close>

text \<open>
  The loop of \<open>fileDaoImpl.ScanFile\<close> and of \<open>dbDirectory.Scan\<close>: rows above the last
  key seen, in key order, at most \<open>batch\<close> at a time, handed to a callback that may stop the
  scan. Both callers reject \<open>batch = 0\<close> before the loop.
\<close>

definition scan_batch :: "('r \<Rightarrow> nat) \<Rightarrow> nat \<Rightarrow> 'r list \<Rightarrow> nat \<Rightarrow> 'r list" where
  "scan_batch key batch rows lastid =
     take batch (sort_key key (filter (\<lambda>r. lastid < key r) rows))"

function scan_rows ::
  "('r \<Rightarrow> nat) \<Rightarrow> nat \<Rightarrow> 'r list \<Rightarrow> ('s \<Rightarrow> 'r list \<Rightarrow> ('s \<times> bool) result) \<Rightarrow> nat \<Rightarrow> 's \<Rightarrow> 's result" where
  "scan_rows key batch rows cb lastid s =
     (let res = scan_batch key batch rows lastid;
          nextid = (if res = [] then 0 else key (last res))
      in bind_result (cb s res) (\<lambda>(s', cont).
           if \<not> cont then Inr s'
           else if length res < batch \<or> batch = 0 then Inr s'
           else scan_rows key batch rows cb nextid s'))"
  by pat_completeness auto

lemma scan_batch_last:
  assumes "scan_batch key batch rows lastid \<noteq> []"
  shows "last (scan_batch key batch rows lastid) \<in> set rows"
    and "lastid < key (last (scan_batch key batch rows lastid))"
proof -
  have "last (scan_batch key batch rows lastid) \<in> set (scan_batch key batch rows lastid)"
    using assms by simp
  then have "last (scan_batch key batch rows lastid) \<in> set (filter (\<lambda>r. lastid < key r) rows)"
    unfolding scan_batch_def by (meson in_set_takeD set_sort [THEN equalityD1] subsetD)
  then show "last (scan_batch key batch rows lastid) \<in> set rows"
    and "lastid < key (last (scan_batch key batch rows lastid))" by auto
qed

lemma filter_shrinks:
  assumes "x \<in> set xs" and "P x" and "\<not> Q x" and "\<And>y. Q y \<Longrightarrow> P y"
  shows "length (filter Q xs) < length (filter P xs)"
proof -
  have "filter Q xs = filter Q (filter P xs)"
    using assms(4) by (auto intro: filter_cong)
  moreover have "length (filter Q (filter P xs)) < length (filter P xs)"
    by (rule length_filter_less [where x = x]) (use assms in auto)
  ultimately show ?thesis by simp
qed

termination scan_rows
proof (relation "measure (\<lambda>(key, batch, rows, cb, lastid, s). length (filter (\<lambda>r. lastid < key r) rows))",
    goal_cases)
  case (2 key batch rows cb lastid s res nextid p s' cont)
  then have ne: "scan_batch key batch rows lastid \<noteq> []" by auto
  then have "nextid = key (last (scan_batch key batch rows lastid))" using 2 by simp
  then show ?case
    using scan_batch_last [OF ne] by (auto intro!: filter_shrinks)
qed simp

declare scan_rows.simps [simp del]

lemma sorted_tail:
  assumes "sorted_wrt (<) (map key xs)" and "take b xs \<noteq> []"
  shows "filter (\<lambda>r. key (last (take b xs)) < (key r :: nat)) xs = drop b xs"
proof -
  let ?h = "take b xs" and ?t = "drop b xs"
  have "sorted_wrt (<) (map key ?h @ map key ?t)"
    using assms(1) by (simp only: map_append [symmetric] append_take_drop_id)
  then have h: "sorted_wrt (<) (map key ?h)" and ht: "\<forall>x\<in>set ?h. \<forall>y\<in>set ?t. key x < key y"
    by (simp_all add: sorted_wrt_append)
  have "\<not> key (last ?h) < key x" if "x \<in> set ?h" for x
  proof -
    from that obtain ys zs where "?h = ys @ x # zs" by (meson split_list)
    then show ?thesis using h by (cases zs rule: rev_cases) (auto simp: sorted_wrt_append)
  qed
  then have "filter (\<lambda>r. key (last ?h) < key r) ?h = []" by (simp add: filter_empty_conv)
  moreover have "filter (\<lambda>r. key (last ?h) < key r) ?t = ?t"
    using ht assms(2) by (auto intro: filter_True)
  moreover have "filter P xs = filter P ?h @ filter P ?t" for P
    by (simp only: filter_append [symmetric] append_take_drop_id)
  ultimately show ?thesis by (simp only: append_Nil)
qed

lemma scan_rows_all:
  assumes batch: "0 < batch" and dist: "distinct (map key rows)"
    and cb: "\<And>s xs. cb s xs = Inr (f s xs, True)"
    and f: "\<And>s xs ys. f (f s xs) ys = f s (xs @ ys)"
  shows "scan_rows key batch rows cb lastid s
           = Inr (f s (sort_key key (filter (\<lambda>r. lastid < key r) rows)))"
proof (induction "length (filter (\<lambda>r. lastid < key r) rows)" arbitrary: lastid s rule: less_induct)
  case less
  let ?R = "\<lambda>l. sort_key key (filter (\<lambda>r. l < key r) rows)"
  let ?res = "take batch (?R lastid)"
  show ?case
  proof (cases "length ?res < batch")
    case True
    then have "?res = ?R lastid" by simp
    with True show ?thesis
      by (subst scan_rows.simps) (simp add: Let_def scan_batch_def cb)
  next
    case False
    then have ne: "?res \<noteq> []" using batch by (metis list.size(3))
    let ?n = "key (last ?res)"
    have "distinct (map key (?R lastid))"
      using dist by (simp add: distinct_map inj_on_def)
    then have "sorted_wrt (<) (map key (?R lastid))"
      by (simp only: strict_sorted_iff sorted_sort_key simp_thms)
    then have tail: "filter (\<lambda>r. ?n < key r) (?R lastid) = drop batch (?R lastid)"
      using ne by (rule sorted_tail)
    have gt: "lastid < ?n" and mem: "last ?res \<in> set rows"
      using scan_batch_last [of key batch rows lastid] ne by (simp_all add: scan_batch_def)
    have "?R ?n = filter (\<lambda>r. ?n < key r) (?R lastid)"
      using gt by (simp add: filter_sort) (meson order_less_trans)
    then have "?R lastid = ?res @ ?R ?n" unfolding tail by (simp only: append_take_drop_id)
    then have split: "f (f s ?res) (?R ?n) = f s (?R lastid)" using f [of s ?res "?R ?n"] by argo
    have "length (filter (\<lambda>r. ?n < key r) rows) < length (filter (\<lambda>r. lastid < key r) rows)"
      using gt mem by (intro filter_shrinks [of "last ?res"]) auto
    then have "scan_rows key batch rows cb ?n (f s ?res) = Inr (f (f s ?res) (?R ?n))"
      by (rule less)
    then have "scan_rows key batch rows cb lastid s = Inr (f (f s ?res) (?R ?n))"
      using False ne batch [THEN gr_implies_not0]
      by (subst scan_rows.simps) (simp only: Let_def scan_batch_def cb bind_result_simps prod.case
          not_True_eq_False if_False not_gr_zero less_nat_zero_code simp_thms)
    then show ?thesis by (simp only: split)
  qed
qed

section \<open>Files (dao/file\_dao.go)\<close>

definition insert_unique :: "('r \<Rightarrow> 'k) \<Rightarrow> 'r \<Rightarrow> 'r list \<Rightarrow> 'r list result" where
  "insert_unique key row rows =
     (if key row \<in> set (map key rows) then Inl ErrUnique else Inr (rows @ [row]))"

text \<open>
  \<open>UPDATE\<close> of the rows with \<open>P\<close> under a unique index on \<open>key\<close>. The statement is taken to
  fail just if the updated table would violate the index.
\<close>

definition update_unique :: "('r \<Rightarrow> 'k) \<Rightarrow> ('r \<Rightarrow> bool) \<Rightarrow> ('r \<Rightarrow> 'r) \<Rightarrow> 'r list \<Rightarrow> 'r list result" where
  "update_unique key P f rows =
     (let updated = map (\<lambda>r. if P r then f r else r) rows
      in if (\<exists>r\<in>set rows. P r) \<and> \<not> distinct (map key updated) then Inl ErrUnique else Inr updated)"

text \<open>\<open>fileid\<close> is the value of \<open>idgen.NextId()\<close>, \<open>now\<close> the clock in milliseconds.\<close>

definition CreateFileDraftRow :: "nat \<Rightarrow> int \<Rightarrow> int \<Rightarrow> int \<Rightarrow> db \<Rightarrow> (nat \<times> db) result" where
  "CreateFileDraftRow fileid now fsize partCount d =
     bind_result
       (insert_unique fr_file_id
          \<lparr>fr_id = Suc (file_seq d), fr_file_id = fileid, fr_size = fsize, fr_part_count = partCount,
           fr_state = FileStateInit, fr_ctime = now, fr_mtime = now, fr_extinfo = ''{}'',
           fr_layout = 1\<rparr> (files d))
       (\<lambda>rows. Inr (fileid, d\<lparr>files := rows, file_seq := Suc (file_seq d)\<rparr>))"

definition MarkFileReady :: "nat \<Rightarrow> string \<Rightarrow> int \<Rightarrow> db \<Rightarrow> db" where
  "MarkFileReady fileid extinfo now d =
     d\<lparr>files := map (\<lambda>r. if fr_file_id r = fileid
                         then r\<lparr>fr_state := FileStateReady, fr_mtime := now, fr_extinfo := extinfo\<rparr>
                         else r) (files d)\<rparr>"

definition GetFileInfo :: "nat list \<Rightarrow> db \<Rightarrow> file_row list" where
  "GetFileInfo fileIds d = filter (\<lambda>r. fr_file_id r \<in> set fileIds) (files d)"

definition ScanFile ::
  "nat \<Rightarrow> ('s \<Rightarrow> file_row list \<Rightarrow> ('s \<times> bool) result) \<Rightarrow> db \<Rightarrow> 's \<Rightarrow> 's result" where
  "ScanFile batch cb d s =
     (if batch = 0 \<or> batch > 1000000 then Inl ErrInvalidFileScanBatch
      else scan_rows fr_id batch (files d) cb 0 s)"

definition DeleteFile :: "nat list \<Rightarrow> db \<Rightarrow> db" where
  "DeleteFile fileIds d = d\<lparr>files := filter (\<lambda>r. fr_file_id r \<notin> set fileIds) (files d)\<rparr>"

section \<open>Parts (dao/file\_part\_dao.go)\<close>

record CreateFilePartRequest =
  FileId :: nat
  FilePartId :: int
  FileKey :: string
  FilePartMd5 :: string
  FilePartSize :: int
  BackendKind :: string
  DeleteRef :: string
  UploadedAt :: int

text \<open>One transaction inserts the part and its deletion state, which starts \<open>live\<close>.\<close>

definition CreateFilePartRow :: "CreateFilePartRequest \<Rightarrow> int \<Rightarrow> db \<Rightarrow> db result" where
  "CreateFilePartRow req now d =
     bind_result
       (insert_unique (\<lambda>r. (pr_file_id r, pr_part_id r))
          \<lparr>pr_file_id = FileId req, pr_part_id = FilePartId req, pr_key = FileKey req,
           pr_md5 = FilePartMd5 req, pr_size = FilePartSize req, pr_ctime = now, pr_mtime = now\<rparr>
          (parts d)) (\<lambda>part_rows.
     bind_result
       (insert_unique (\<lambda>r. (dr_file_id r, dr_part_id r))
          \<lparr>dr_file_id = FileId req, dr_part_id = FilePartId req, dr_backend = BackendKind req,
           dr_ref = DeleteRef req, dr_uploaded_at = UploadedAt req, dr_state = Live,
           dr_attempts = 0, dr_next_attempt = 0, dr_lease_until = 0, dr_last_attempt = 0,
           dr_error = '''', dr_deleted_at = 0, dr_ctime = now, dr_mtime = now\<rparr>
          (deletes d)) (\<lambda>delete_rows.
     Inr (d\<lparr>parts := part_rows, deletes := delete_rows\<rparr>)))"

definition GetFilePartInfo :: "nat \<Rightarrow> int list \<Rightarrow> db \<Rightarrow> part_row list" where
  "GetFilePartInfo fileid partids d =
     filter (\<lambda>r. pr_file_id r = fileid \<and> pr_part_id r \<in> set partids) (parts d)"

definition DeleteFilePart :: "nat list \<Rightarrow> db \<Rightarrow> db" where
  "DeleteFilePart fileIds d = d\<lparr>parts := filter (\<lambda>r. pr_file_id r \<notin> set fileIds) (parts d)\<rparr>"

definition ListFilePart :: "nat \<Rightarrow> db \<Rightarrow> part_row list" where
  "ListFilePart fileid d = sort_key pr_part_id (filter (\<lambda>r. pr_file_id r = fileid) (parts d))"

section \<open>Keys\<close>

text \<open>The \<open>UNIQUE\<close> constraints of the schema, as an invariant of the model.\<close>

definition unique_by :: "('r \<Rightarrow> 'k) \<Rightarrow> 'r list \<Rightarrow> bool" where
  "unique_by key rows \<longleftrightarrow> distinct (map key rows)"

definition keys_ok :: "db \<Rightarrow> bool" where
  "keys_ok d \<longleftrightarrow>
     unique_by fr_file_id (files d) \<and> unique_by fr_id (files d) \<and>
     (\<forall>r\<in>set (files d). fr_id r \<le> file_seq d \<and> 0 < fr_id r) \<and>
     unique_by (\<lambda>r. (pr_file_id r, pr_part_id r)) (parts d) \<and>
     unique_by (\<lambda>r. (dr_file_id r, dr_part_id r)) (deletes d)"

lemma insert_unique_Inr:
  "insert_unique key row rows = Inr rows' \<longleftrightarrow> key row \<notin> set (map key rows) \<and> rows' = rows @ [row]"
  by (auto simp: insert_unique_def)

lemma unique_by_insert:
  "insert_unique key row rows = Inr rows' \<Longrightarrow> unique_by key rows \<Longrightarrow> unique_by key rows'"
  by (auto simp: insert_unique_Inr unique_by_def)

lemma unique_by_filter: "unique_by key rows \<Longrightarrow> unique_by key (filter P rows)"
  by (simp add: unique_by_def distinct_map inj_on_def)

lemma unique_by_map: "(\<And>r. key (f r) = key r) \<Longrightarrow> unique_by key (map f rows) = unique_by key rows"
  by (simp add: unique_by_def comp_def)

lemma unique_by_eq:
  "unique_by key rows \<Longrightarrow> r \<in> set rows \<Longrightarrow> r' \<in> set rows \<Longrightarrow> key r = key r' \<Longrightarrow> r = r'"
  by (auto simp: unique_by_def distinct_map inj_on_def)

lemma CreateFileDraftRow_keys [keeps]:
  assumes "keys_ok d" and "CreateFileDraftRow fileid now fsize count d = Inr (f, d')"
  shows "keys_ok d'"
proof -
  have "Suc (file_seq d) \<notin> fr_id ` set (files d)"
    using assms(1) by (auto simp: keys_ok_def)
  then show ?thesis
    using assms
    by (auto simp: keys_ok_def CreateFileDraftRow_def bind_result_Inr_iff insert_unique_Inr unique_by_def le_SucI)
qed

lemma MarkFileReady_keys [keeps]: "keys_ok d \<Longrightarrow> keys_ok (MarkFileReady fileid ext now d)"
  by (auto simp: keys_ok_def MarkFileReady_def unique_by_map)

lemma DeleteFile_keys [keeps]: "keys_ok d \<Longrightarrow> keys_ok (DeleteFile ids d)"
  by (auto simp: keys_ok_def DeleteFile_def unique_by_filter)

lemma CreateFilePartRow_keys [keeps]:
  "keys_ok d \<Longrightarrow> CreateFilePartRow req now d = Inr d' \<Longrightarrow> keys_ok d'"
  by (auto simp: keys_ok_def CreateFilePartRow_def bind_result_Inr_iff intro: unique_by_insert)

lemma DeleteFilePart_keys [keeps]: "keys_ok d \<Longrightarrow> keys_ok (DeleteFilePart ids d)"
  by (auto simp: keys_ok_def DeleteFilePart_def unique_by_filter)

text \<open>
  A scan visits every file of the table exactly once, in the order of its row identifier,
  however small the batches are.
\<close>

lemma ScanFile_all:
  assumes "keys_ok d" and "0 < batch" "batch \<le> 1000000"
    and "\<And>s xs. cb s xs = Inr (f s xs, True)"
    and "\<And>s xs ys. f (f s xs) ys = f s (xs @ ys)"
  shows "ScanFile batch cb d s = Inr (f s (sort_key fr_id (files d)))"
proof -
  have "filter (\<lambda>r. 0 < fr_id r) (files d) = files d"
    using assms(1) by (simp add: keys_ok_def)
  moreover have "distinct (map fr_id (files d))"
    using assms(1) by (simp add: keys_ok_def unique_by_def)
  ultimately show ?thesis
    using scan_rows_all [of batch fr_id "files d" cb f 0 s] assms(2-5) by (simp add: ScanFile_def)
qed

section \<open>A fresh database\<close>

definition empty_db :: db where
  "empty_db = \<lparr>files = [], parts = [], deletes = [], mappings = [], metas = [], segments = [],
     uploads = [], mparts = [], completed = [], pins = [], props = [], locks = [], changes = [],
     file_seq = 0, mapping_seq = 0, change_seq = 0, id_seq = 0\<rparr>"

lemma empty_db_simps [simp]:
  "files empty_db = []" "parts empty_db = []" "deletes empty_db = []" "mappings empty_db = []"
  "metas empty_db = []" "segments empty_db = []" "uploads empty_db = []" "mparts empty_db = []"
  "completed empty_db = []" "pins empty_db = []" "props empty_db = []" "locks empty_db = []"
  "changes empty_db = []" "file_seq empty_db = 0" "mapping_seq empty_db = 0"
  "change_seq empty_db = 0" "id_seq empty_db = 0"
  by (simp_all add: empty_db_def)

lemma empty_db_keys: "keys_ok empty_db"
  by (simp add: keys_ok_def unique_by_def)

end
