(* ===== verification/References.thy ===== *)
theory References
  imports Storage
begin

text \<open>
  Who still needs a stored file (\<open>filemgr/references.go\<close>): the live references of a file,
  the check that a file may be linked from a new mapping, and the marking of the blocks of
  an unreferenced file as pending deletion. A layout-2 file is a list of segments, each one a
  whole layout-1 file.
\<close>

definition readStoredFile :: "nat \<Rightarrow> db \<Rightarrow> file_row option" where
  "readStoredFile fileID d = find (\<lambda>r. fr_file_id r = fileID) (files d)"

definition fileHasLiveReference :: "db \<Rightarrow> nat \<Rightarrow> bool" where
  "fileHasLiveReference d fileID \<longleftrightarrow>
     (\<exists>p\<in>set (pins d). nr_file_id p = fileID) \<or>
     (\<exists>m\<in>set (mappings d). mr_ref_data m = format_nat fileID) \<or>
     (\<exists>s\<in>set (segments d). sr_source s = fileID \<and>
        (\<exists>m\<in>set (mappings d). mr_ref_data m = format_nat (sr_file_id s))) \<or>
     (\<exists>q\<in>set (mparts d). qr_file_id q = fileID \<and> qr_state q = MActive \<and>
        (\<exists>u\<in>set (uploads d). ur_upload_id u = qr_upload_id q \<and> ur_state u = UActive))"

definition ensurePhysicalFileLive :: "nat \<Rightarrow> db \<Rightarrow> unit result" where
  "ensurePhysicalFileLive fileID d =
     guard_err (\<not> (\<exists>r\<in>set (deletes d). dr_file_id r = fileID \<and> dr_state r \<noteq> Live)) ErrS3ObjectConflict"

text \<open>
  The two counts of the joined query: a part contributes one row if it has no live deletion
  state and one row per such state otherwise.
\<close>

definition live_states :: "part_row \<Rightarrow> db \<Rightarrow> delete_row list" where
  "live_states p d =
     filter (\<lambda>r. dr_file_id r = pr_file_id p \<and> dr_part_id r = pr_part_id p \<and> dr_state r = Live) (deletes d)"

definition ensurePhysicalFileDeletionRefsComplete :: "nat \<Rightarrow> db \<Rightarrow> unit result" where
  "ensurePhysicalFileDeletionRefsComplete fileID d =
     (case readStoredFile fileID d of
        None \<Rightarrow> Inl ErrS3ObjectConflict
      | Some file \<Rightarrow>
          let ps = filter (\<lambda>p. pr_file_id p = fileID) (parts d);
              physicalParts = sum_list (map (\<lambda>p. max 1 (int (length (live_states p d)))) ps);
              liveDeleteStates = sum_list (map (\<lambda>p. int (length (live_states p d))) ps)
          in guard_err (physicalParts = fr_part_count file \<and> liveDeleteStates = fr_part_count file)
               ErrS3ObjectConflict)"

definition validStoredCompositeSegment :: "segment_row \<Rightarrow> file_row option \<Rightarrow> nat \<Rightarrow> int \<Rightarrow> int \<Rightarrow> bool" where
  "validStoredCompositeSegment segment source expectedIndex currentSize finalSize =
     (case source of
        None \<Rightarrow> False
      | Some f \<Rightarrow>
          sr_index segment = expectedIndex \<and> fr_state f = FileStateReady \<and> fr_layout f = 1 \<and>
          fr_size f = sr_size segment \<and> 0 \<le> sr_size segment \<and>
          currentSize \<le> finalSize - sr_size segment)"

definition manifest :: "nat \<Rightarrow> db \<Rightarrow> segment_row list" where
  "manifest fileID d = sort_key sr_index (filter (\<lambda>s. sr_file_id s = fileID) (segments d))"

fun ensureCompositeLoop :: "db \<Rightarrow> int \<Rightarrow> nat \<Rightarrow> int \<Rightarrow> segment_row list \<Rightarrow> unit result" where
  "ensureCompositeLoop d finalSize index sofar [] =
     guard_err (\<not> (index = 0 \<or> sofar \<noteq> finalSize)) ErrS3ObjectConflict"
| "ensureCompositeLoop d finalSize index sofar (segment # rest) =
     (if \<not> validStoredCompositeSegment segment (readStoredFile (sr_source segment) d) index sofar finalSize
      then Inl ErrS3ObjectConflict
      else
        bind_result (ensurePhysicalFileLive (sr_source segment) d) (\<lambda>_.
        bind_result (ensurePhysicalFileDeletionRefsComplete (sr_source segment) d) (\<lambda>_.
        ensureCompositeLoop d finalSize (index + 1) (sofar + sr_size segment) rest)))"

definition ensureCompositeFileLive :: "file_row \<Rightarrow> db \<Rightarrow> unit result" where
  "ensureCompositeFileLive record d =
     ensureCompositeLoop d (fr_size record) 0 0 (manifest (fr_file_id record) d)"

definition ensureFileTreeCanBeLinked :: "nat \<Rightarrow> db \<Rightarrow> unit result" where
  "ensureFileTreeCanBeLinked fileID d =
     (case readStoredFile fileID d of
        None \<Rightarrow> Inl ErrS3ObjectConflict
      | Some record \<Rightarrow>
          if fr_state record \<noteq> FileStateReady then Inl ErrS3ObjectConflict
          else if fr_layout record = 1 then ensurePhysicalFileLive fileID d
          else if fr_layout record = 2 then ensureCompositeFileLive record d
          else Inl ErrInvalidFileLayout)"

definition compositeSourceFileIDs :: "nat \<Rightarrow> db \<Rightarrow> nat list" where
  "compositeSourceFileIDs fileID d = map sr_source (manifest fileID d)"

definition markPhysicalPending :: "nat \<Rightarrow> int \<Rightarrow> db \<Rightarrow> db" where
  "markPhysicalPending fileID now d =
     d\<lparr>deletes := map (\<lambda>r. if dr_file_id r = fileID \<and> dr_state r = Live
        then r\<lparr>dr_state := Pending, dr_next_attempt := now, dr_lease_until := 0, dr_mtime := now\<rparr>
        else r) (deletes d)\<rparr>"

text \<open>
  The recursion of the source has no bound; it only ends because no segment refers to a
  composite file. The model counts its depth: running out stands for a call that would not
  return (\<^const>\<open>ErrRecursionLimit\<close>), and \<open>mark_two_levels\<close> below shows that on
  well-formed manifests two levels are enough.
\<close>

primrec markTree :: "nat \<Rightarrow> nat \<Rightarrow> int \<Rightarrow> db \<Rightarrow> db result" where
  "markTree 0 fileID now d = Inl ErrRecursionLimit"
| "markTree (Suc depth) fileID now d =
     (if fileHasLiveReference d fileID then Inr d
      else
        case readStoredFile fileID d of
          None \<Rightarrow> Inl ErrS3ObjectConflict
        | Some record \<Rightarrow>
            if fr_layout record = 1 then Inr (markPhysicalPending fileID now d)
            else if fr_layout record = 2 then
              fold_result (\<lambda>source. markTree depth source now) (compositeSourceFileIDs fileID d) d
            else Inl ErrInvalidFileLayout)"

definition markFileTreePendingIfUnreferenced :: "nat \<Rightarrow> int \<Rightarrow> db \<Rightarrow> db result" where
  "markFileTreePendingIfUnreferenced fileID now d = markTree (length (files d) + 2) fileID now d"

declare markTree.simps(2) [simp del]

definition DiscardUnpublishedFile :: "nat \<Rightarrow> int \<Rightarrow> db \<Rightarrow> db result" where
  "DiscardUnpublishedFile fileID now d = markFileTreePendingIfUnreferenced fileID now d"

section \<open>Reading the tables\<close>

lemma readStoredFile_Some:
  "readStoredFile fileID d = Some r \<Longrightarrow> r \<in> set (files d) \<and> fr_file_id r = fileID"
  by (auto simp: readStoredFile_def find_Some_iff)

lemma readStoredFile_None: "readStoredFile fileID d = None \<longleftrightarrow> fileID \<notin> fr_file_id ` set (files d)"
  by (auto simp: readStoredFile_def find_None_iff)

lemma readStoredFile_mem:
  "unique_by fr_file_id (files d) \<Longrightarrow> r \<in> set (files d) \<Longrightarrow> readStoredFile (fr_file_id r) d = Some r"
  by (metis readStoredFile_None readStoredFile_Some image_eqI option.exhaust unique_by_eq)

text \<open>Only some columns matter to the references; the deletion states do not.\<close>

lemma refs_deletes [simp]:
  "fileHasLiveReference (d\<lparr>deletes := x\<rparr>) = fileHasLiveReference d"
  "readStoredFile f (d\<lparr>deletes := x\<rparr>) = readStoredFile f d"
  "manifest f (d\<lparr>deletes := x\<rparr>) = manifest f d"
  "compositeSourceFileIDs f (d\<lparr>deletes := x\<rparr>) = compositeSourceFileIDs f d"
  by (rule ext) (simp_all add: fileHasLiveReference_def readStoredFile_def manifest_def compositeSourceFileIDs_def)

section \<open>Marking exactly the unreferenced blocks\<close>

definition pend :: "nat set \<Rightarrow> int \<Rightarrow> db \<Rightarrow> db" where
  "pend F now d =
     d\<lparr>deletes := map (\<lambda>r. if dr_file_id r \<in> F \<and> dr_state r = Live
        then r\<lparr>dr_state := Pending, dr_next_attempt := now, dr_lease_until := 0, dr_mtime := now\<rparr>
        else r) (deletes d)\<rparr>"

lemma markPhysicalPending_pend: "markPhysicalPending f now d = pend {f} now d"
  by (simp add: markPhysicalPending_def pend_def)

lemma pend_empty [simp]: "pend {} now d = d"
  by (simp add: pend_def)

lemma pend_pend: "pend F now (pend G now d) = pend (F \<union> G) now d"
  by (auto simp: pend_def intro!: arg_cong [of _ _ "\<lambda>x. d\<lparr>deletes := x\<rparr>"])

lemma refs_pend [simp]:
  "fileHasLiveReference (pend F now d) = fileHasLiveReference d"
  "readStoredFile f (pend F now d) = readStoredFile f d"
  "compositeSourceFileIDs f (pend F now d) = compositeSourceFileIDs f d"
  by (simp_all add: pend_def)

lemma files_pend [simp]: "files (pend F now d) = files d"
  by (simp add: pend_def)

text \<open>No segment's source is itself a composite file.\<close>

definition segments_flat :: "db \<Rightarrow> bool" where
  "segments_flat d \<longleftrightarrow>
     (\<forall>s\<in>set (segments d). \<forall>r\<in>set (files d). fr_file_id r = sr_source s \<longrightarrow> fr_layout r \<noteq> 2)"

definition tree_files :: "db \<Rightarrow> nat \<Rightarrow> nat set" where
  "tree_files d fileID =
     (case readStoredFile fileID d of
        None \<Rightarrow> {}
      | Some r \<Rightarrow> if fr_layout r = 2 then set (compositeSourceFileIDs fileID d) else {fileID})"

definition unreferenced_tree :: "db \<Rightarrow> nat \<Rightarrow> nat set" where
  "unreferenced_tree d fileID =
     (if fileHasLiveReference d fileID then {}
      else {f \<in> tree_files d fileID. \<not> fileHasLiveReference d f})"

lemma source_not_composite:
  assumes "segments_flat d" and "f \<in> set (compositeSourceFileIDs fileID d)" and "readStoredFile f d = Some r"
  shows "fr_layout r \<noteq> 2"
  using assms readStoredFile_Some [OF assms(3)]
  by (auto simp: segments_flat_def compositeSourceFileIDs_def manifest_def)

lemma markTree_leaf:
  assumes "markTree (Suc n) f now d = Inr d'" and "\<And>r. readStoredFile f d = Some r \<Longrightarrow> fr_layout r \<noteq> 2"
  shows "d' = pend (if fileHasLiveReference d f then {} else {f}) now d"
  using assms by (auto simp: markTree.simps(2) markPhysicalPending_pend split: if_splits option.splits)

lemma markTree_sources:
  assumes "fold_result (\<lambda>source. markTree (Suc n) source now) sources (pend F now d) = Inr d'"
    and "\<And>f r. f \<in> set sources \<Longrightarrow> readStoredFile f d = Some r \<Longrightarrow> fr_layout r \<noteq> 2"
  shows "d' = pend (F \<union> {f \<in> set sources. \<not> fileHasLiveReference d f}) now d"
  using assms
proof (induction sources arbitrary: F)
  case Nil
  then show ?case by simp
next
  case (Cons s sources)
  from Cons.prems(1) obtain e where e: "markTree (Suc n) s now (pend F now d) = Inr e"
    and rest: "fold_result (\<lambda>source. markTree (Suc n) source now) sources e = Inr d'"
    by (auto simp: bind_result_Inr_iff)
  have "e = pend (if fileHasLiveReference d s then {} else {s}) now (pend F now d)"
    using markTree_leaf [OF e] Cons.prems(2) [of s] by simp
  then have "e = pend ((if fileHasLiveReference d s then {} else {s}) \<union> F) now d"
    by (simp only: pend_pend)
  then have "d' = pend (((if fileHasLiveReference d s then {} else {s}) \<union> F) \<union>
      {f \<in> set sources. \<not> fileHasLiveReference d f}) now d"
    using rest by (intro Cons.IH) (simp, meson Cons.prems(2) list.set_intros(2))
  then show ?case
    by (auto intro!: arg_cong [of _ _ "\<lambda>X. pend X now d"])
qed

lemma markTree_exact:
  assumes flat: "segments_flat d" and mark: "markTree (Suc (Suc n)) fileID now d = Inr d'"
  shows "d' = pend (unreferenced_tree d fileID) now d"
proof (cases "fileHasLiveReference d fileID")
  case True
  with mark show ?thesis by (simp add: unreferenced_tree_def markTree.simps(2))
next
  case False
  then obtain r where r: "readStoredFile fileID d = Some r"
    using mark by (auto simp: markTree.simps(2) split: option.splits)
  show ?thesis
  proof (cases "fr_layout r = 2")
    case True
    then have "fold_result (\<lambda>source. markTree (Suc n) source now) (compositeSourceFileIDs fileID d) (pend {} now d) = Inr d'"
      using mark False r by (simp add: markTree.simps(2) [of "Suc n"])
    from markTree_sources [OF this source_not_composite [OF flat]] show ?thesis
      using True False r by (simp add: unreferenced_tree_def tree_files_def)
  next
    case layout: False
    then show ?thesis
      using markTree_leaf [OF mark] r False
      by (auto simp: unreferenced_tree_def tree_files_def intro!: arg_cong [of _ _ "\<lambda>X. pend X now d"])
  qed
qed

lemma markTree_no_limit:
  assumes flat: "segments_flat d"
  shows "markTree (Suc (Suc n)) fileID now d \<noteq> Inl ErrRecursionLimit"
proof
  assume limit: "markTree (Suc (Suc n)) fileID now d = Inl ErrRecursionLimit"
  then obtain r where r: "readStoredFile fileID d = Some r" "fr_layout r = 2"
    and loop: "fold_result (\<lambda>source. markTree (Suc n) source now) (compositeSourceFileIDs fileID d) d
      = Inl ErrRecursionLimit"
    by (auto simp: markTree.simps(2) [of "Suc n"] split: if_splits option.splits)
  have leaf: "markTree (Suc n) s now (pend F now d) \<noteq> Inl ErrRecursionLimit"
    if "s \<in> set (compositeSourceFileIDs fileID d)" for s F
    using source_not_composite [OF flat that] by (auto simp: markTree.simps(2) split: option.splits)
  have "fold_result (\<lambda>source. markTree (Suc n) source now) sources (pend F now d) \<noteq> Inl ErrRecursionLimit"
    if "set sources \<subseteq> set (compositeSourceFileIDs fileID d)" for sources F
    using that
  proof (induction sources arbitrary: F)
    case (Cons s sources)
    have s: "s \<in> set (compositeSourceFileIDs fileID d)" using Cons.prems by simp
    show ?case
    proof (cases "markTree (Suc n) s now (pend F now d)")
      case (Inl e)
      with leaf [OF s, of F] show ?thesis by auto
    next
      case (Inr e)
      have "e = pend (if fileHasLiveReference d s then {} else {s}) now (pend F now d)"
        using markTree_leaf [OF Inr] source_not_composite [OF flat s] by simp
      then have e: "e = pend ((if fileHasLiveReference d s then {} else {s}) \<union> F) now d"
        by (simp only: pend_pend)
      show ?thesis
        using Inr Cons.IH [of "(if fileHasLiveReference d s then {} else {s}) \<union> F"] Cons.prems
        by (simp only: fold_result.simps bind_result_simps e) simp
    qed
  qed simp
  from this [of "compositeSourceFileIDs fileID d" "{}"] loop show False by simp
qed

section \<open>What a linkable file is\<close>

definition tree_live :: "db \<Rightarrow> nat \<Rightarrow> bool" where
  "tree_live d fileID \<longleftrightarrow>
     (\<forall>f\<in>tree_files d fileID. \<forall>r\<in>set (deletes d). dr_file_id r = f \<longrightarrow> dr_state r = Live)"

definition whole_segment :: "db \<Rightarrow> segment_row \<Rightarrow> bool" where
  "whole_segment d s \<longleftrightarrow>
     (\<exists>f. readStoredFile (sr_source s) d = Some f \<and> fr_state f = FileStateReady \<and> fr_layout f = 1 \<and>
          fr_size f = sr_size s \<and> 0 \<le> sr_size s)"

lemma ensureCompositeLoop_sound:
  assumes "ensureCompositeLoop d finalSize index sofar segs = Inr ()"
  shows "0 < index + length segs \<and> map sr_index segs = [index..<index + length segs] \<and>
         sofar + sum_list (map sr_size segs) = finalSize \<and>
         (\<forall>s\<in>set segs. whole_segment d s \<and> ensurePhysicalFileLive (sr_source s) d = Inr ())"
  using assms
proof (induction segs arbitrary: index sofar)
  case Nil
  then show ?case by simp
next
  case (Cons s segs)
  then have valid: "validStoredCompositeSegment s (readStoredFile (sr_source s) d) index sofar finalSize"
    and live: "ensurePhysicalFileLive (sr_source s) d = Inr ()"
    and rest: "ensureCompositeLoop d finalSize (index + 1) (sofar + sr_size s) segs = Inr ()"
    by (auto simp: bind_result_Inr_iff split: if_splits)
  have "whole_segment d s" and "sr_index s = index"
    using valid by (auto simp: whole_segment_def validStoredCompositeSegment_def split: option.splits)
  moreover have "[index..<index + length (s # segs)] = index # [index + 1..<index + 1 + length segs]"
    by (subst upt_conv_Cons) simp_all
  ultimately show ?case
    using Cons.IH [OF rest] live by simp
qed

lemma ensurePhysicalFileLive_Inr:
  "ensurePhysicalFileLive f d = Inr () \<longleftrightarrow> (\<forall>r\<in>set (deletes d). dr_file_id r = f \<longrightarrow> dr_state r = Live)"
  by (auto simp: ensurePhysicalFileLive_def)

lemma linkable_sound:
  assumes "ensureFileTreeCanBeLinked fileID d = Inr ()"
  shows "\<exists>r. readStoredFile fileID d = Some r \<and> fr_state r = FileStateReady \<and> tree_live d fileID \<and>
     (fr_layout r = 2 \<longrightarrow>
        manifest fileID d \<noteq> [] \<and> map sr_index (manifest fileID d) = [0..<length (manifest fileID d)] \<and>
        sum_list (map sr_size (manifest fileID d)) = fr_size r \<and>
        (\<forall>s\<in>set (manifest fileID d). whole_segment d s))"
proof -
  from assms obtain r where r: "readStoredFile fileID d = Some r" "fr_state r = FileStateReady"
    by (auto simp: ensureFileTreeCanBeLinked_def split: option.splits if_splits)
  show ?thesis
  proof (cases "fr_layout r = 2")
    case True
    then have "ensureCompositeLoop d (fr_size r) 0 0 (manifest fileID d) = Inr ()"
      using assms r readStoredFile_Some [OF r(1)]
      by (simp add: ensureFileTreeCanBeLinked_def ensureCompositeFileLive_def)
    from ensureCompositeLoop_sound [OF this] show ?thesis
      using r True by (auto simp: tree_live_def tree_files_def compositeSourceFileIDs_def ensurePhysicalFileLive_Inr)
  next
    case False
    then have "ensurePhysicalFileLive fileID d = Inr ()"
      using assms r by (simp add: ensureFileTreeCanBeLinked_def split: if_splits)
    then show ?thesis
      using r False by (simp add: tree_live_def tree_files_def ensurePhysicalFileLive_Inr)
  qed
qed

section \<open>Properties\<close>

text \<open>
  C8: on a database whose segments refer to plain files, marking a file tree for deletion
  always comes back, and when it succeeds it changes exactly this: the live blocks of those
  files of the tree that nothing references any more become pending, due now. Blocks of a file
  that still has a reference, blocks in another state and every other table stay as they were.
\<close>

theorem mark_pending_exact:
  assumes "segments_flat d"
  shows "markFileTreePendingIfUnreferenced fileID now d \<noteq> Inl ErrRecursionLimit \<and>
         (\<forall>d'. markFileTreePendingIfUnreferenced fileID now d = Inr d' \<longrightarrow>
               d' = pend (unreferenced_tree d fileID) now d)"
  using markTree_no_limit [OF assms] markTree_exact [OF assms]
  by (simp add: markFileTreePendingIfUnreferenced_def)

theorem mark_pending_exact_witness:
  "let f = \<lparr>fr_id = 1, fr_file_id = 7, fr_size = 3, fr_part_count = 1, fr_state = 2, fr_ctime = 5,
            fr_mtime = 5, fr_extinfo = ''{}'', fr_layout = 1\<rparr>;
       r = \<lparr>dr_file_id = 7, dr_part_id = 0, dr_backend = ''mem'', dr_ref = ''k'', dr_uploaded_at = 5,
            dr_state = Live, dr_attempts = 0, dr_next_attempt = 0, dr_lease_until = 0,
            dr_last_attempt = 0, dr_error = '''', dr_deleted_at = 0, dr_ctime = 5, dr_mtime = 5\<rparr>;
       d = empty_db\<lparr>files := [f], deletes := [r]\<rparr>
   in markFileTreePendingIfUnreferenced 7 9 d
        = Inr (d\<lparr>deletes := [r\<lparr>dr_state := Pending, dr_next_attempt := 9, dr_mtime := 9\<rparr>]\<rparr>)
      \<and> (\<forall>d'. markFileTreePendingIfUnreferenced 7 9 d = Inr d' \<longrightarrow> d' = pend (unreferenced_tree d 7) 9 d)"
  using mark_pending_exact [of
      "empty_db\<lparr>files := [\<lparr>fr_id = 1, fr_file_id = 7, fr_size = 3, fr_part_count = 1, fr_state = 2, fr_ctime = 5,
            fr_mtime = 5, fr_extinfo = ''{}'', fr_layout = 1\<rparr>],
        deletes := [\<lparr>dr_file_id = 7, dr_part_id = 0, dr_backend = ''mem'', dr_ref = ''k'', dr_uploaded_at = 5,
            dr_state = Live, dr_attempts = 0, dr_next_attempt = 0, dr_lease_until = 0,
            dr_last_attempt = 0, dr_error = '''', dr_deleted_at = 0, dr_ctime = 5, dr_mtime = 5\<rparr>]\<rparr>" 7 9]
  by (simp add: segments_flat_def markFileTreePendingIfUnreferenced_def numeral_3_eq_3 markTree.simps(2)
      fileHasLiveReference_def readStoredFile_def markPhysicalPending_def)



end
