(* ===== verification/Go_Path.thy ===== *)
theory Go_Path
  imports Go_Lib
begin

text \<open>
  The Go package \<open>path\<close> (\<open>Clean\<close>, \<open>Base\<close>, \<open>Dir\<close>, \<open>Join\<close>) and the
  functions of \<open>strings\<close> that split and join on a separator. The lemmas relate them to the
  abstract view the other theories use: an absolute clean path is the list of its components.
\<close>

section \<open>strings.Split and strings.Join\<close>

fun split_on :: "'a \<Rightarrow> 'a list \<Rightarrow> 'a list list" where
  "split_on c [] = [[]]"
| "split_on c (x # xs) =
     (if x = c then [] # split_on c xs
      else case split_on c xs of [] \<Rightarrow> [[x]] | w # ws \<Rightarrow> (x # w) # ws)"

fun join_on :: "'a \<Rightarrow> 'a list list \<Rightarrow> 'a list" where
  "join_on c [] = []"
| "join_on c [w] = w"
| "join_on c (w # v # ws) = w @ c # join_on c (v # ws)"

definition TrimSuffixSlash :: "string \<Rightarrow> string" where
  "TrimSuffixSlash s = (if s \<noteq> [] \<and> last s = CHR ''/'' then butlast s else s)"

section \<open>package path\<close>

text \<open>One element of the path against the elements kept so far.\<close>

definition clean_step :: "bool \<Rightarrow> string list \<Rightarrow> string \<Rightarrow> string list" where
  "clean_step rooted kept c =
     (if c = '''' \<or> c = ''.'' then kept
      else if c = ''..'' then
        (if kept \<noteq> [] \<and> last kept \<noteq> ''..'' then butlast kept
         else if rooted then kept else kept @ [''..''])
      else kept @ [c])"

definition clean_elems :: "bool \<Rightarrow> string list \<Rightarrow> string list" where
  "clean_elems rooted cs = foldl (clean_step rooted) [] cs"

definition Clean :: "string \<Rightarrow> string" where
  "Clean p =
     (if p = '''' then ''.''
      else
        let rooted = (hd p = CHR ''/'');
            kept = clean_elems rooted (split_on (CHR ''/'') p)
        in if rooted then CHR ''/'' # join_on (CHR ''/'') kept
           else if kept = [] then ''.'' else join_on (CHR ''/'') kept)"

definition strip_slashes :: "string \<Rightarrow> string" where
  "strip_slashes p = rev (dropWhile (\<lambda>c. c = CHR ''/'') (rev p))"

definition Base :: "string \<Rightarrow> string" where
  "Base p =
     (if p = '''' then ''.''
      else
        let q = strip_slashes p;
            r = (case last_index (CHR ''/'') q of Some i \<Rightarrow> drop (i + 1) q | None \<Rightarrow> q)
        in if r = '''' then ''/'' else r)"

definition Dir :: "string \<Rightarrow> string" where
  "Dir p = Clean (case last_index (CHR ''/'') p of Some i \<Rightarrow> take (i + 1) p | None \<Rightarrow> '''')"

fun join_buf :: "string \<Rightarrow> string list \<Rightarrow> string" where
  "join_buf buf [] = buf"
| "join_buf buf (e # es) =
     (if buf = '''' then join_buf e es else join_buf (buf @ CHR ''/'' # e) es)"

definition Join :: "string list \<Rightarrow> string" where
  "Join elems = (if \<forall>e\<in>set elems. e = '''' then '''' else Clean (join_buf '''' elems))"

lemma last_index_notin: "c \<notin> set xs \<Longrightarrow> last_index c xs = None"
  by (induction xs) auto

section \<open>Normal paths\<close>

text \<open>A component that survives cleaning, and the absolute path of a list of them.\<close>

definition normal :: "string \<Rightarrow> bool" where
  "normal c \<longleftrightarrow> c \<noteq> '''' \<and> c \<noteq> ''.'' \<and> c \<noteq> ''..'' \<and> CHR ''/'' \<notin> set c"

definition abs_path :: "string list \<Rightarrow> string" where
  "abs_path cs = CHR ''/'' # join_on (CHR ''/'') cs"

lemma normalD:
  assumes "normal c"
  shows "c \<noteq> []" and "CHR ''/'' \<notin> set c" and "last c \<noteq> CHR ''/''" and "hd c \<noteq> CHR ''/''"
proof -
  show "c \<noteq> []" and *: "CHR ''/'' \<notin> set c" using assms by (simp_all add: normal_def)
  then show "last c \<noteq> CHR ''/''" and "hd c \<noteq> CHR ''/''"
    using last_in_set [of c] hd_in_set [of c] by (metis, metis)
qed

lemma split_on_nonempty [simp]: "split_on c xs \<noteq> []"
  by (induction xs) (auto split: list.splits)

lemma split_on_no_sep: "c \<notin> set xs \<Longrightarrow> split_on c xs = [xs]"
  by (induction xs) auto

lemma split_on_append_sep: "c \<notin> set w \<Longrightarrow> split_on c (w @ c # xs) = w # split_on c xs"
  by (induction w) auto

lemma split_on_parts: "w \<in> set (split_on c xs) \<Longrightarrow> c \<notin> set w"
  by (induction xs arbitrary: w) (auto split: if_splits list.splits)

lemma join_on_Cons: "ws \<noteq> [] \<Longrightarrow> join_on c (w # ws) = w @ c # join_on c ws"
  by (cases ws) auto

lemma split_on_join:
  assumes "\<And>w. w \<in> set ws \<Longrightarrow> c \<notin> set w" and "ws \<noteq> []"
  shows "split_on c (join_on c ws) = ws"
  using assms
proof (induction c ws rule: join_on.induct)
  case (3 c w v ws)
  then show ?case by (simp add: split_on_append_sep)
qed (auto simp: split_on_no_sep)

lemma split_abs_path:
  assumes "\<forall>c\<in>set cs. normal c"
  shows "split_on (CHR ''/'') (abs_path cs) = '''' # (if cs = [] then [''''] else cs)"
  using assms split_on_join [of cs "CHR ''/''"] by (auto simp: abs_path_def normal_def)

lemma clean_elems_normal:
  assumes "\<forall>c\<in>set cs. normal c"
  shows "foldl (clean_step rooted) kept cs = kept @ cs"
  using assms by (induction cs arbitrary: kept) (auto simp: clean_step_def normal_def)

lemma Clean_abs_path [simp]:
  assumes "\<forall>c\<in>set cs. normal c"
  shows "Clean (abs_path cs) = abs_path cs"
proof -
  have "clean_elems True (split_on (CHR ''/'') (abs_path cs)) = cs"
    using clean_elems_normal [OF assms, of True "[]"]
    by (simp add: split_abs_path [OF assms] clean_elems_def clean_step_def)
  then show ?thesis by (simp add: Clean_def abs_path_def)
qed

lemma clean_step_rooted_normal:
  assumes "\<forall>c\<in>set kept. normal c" and "CHR ''/'' \<notin> set c"
  shows "\<forall>c\<in>set (clean_step True kept c). normal c"
proof -
  have "last kept \<noteq> ''..''" if "kept \<noteq> []" using assms(1) that by (auto simp: normal_def)
  moreover have "set (butlast kept) \<subseteq> set kept" by (meson in_set_butlastD subsetI)
  ultimately show ?thesis using assms by (auto simp: clean_step_def normal_def)
qed

lemma clean_elems_rooted_normal:
  assumes "\<forall>c\<in>set cs. CHR ''/'' \<notin> set c"
  shows "\<forall>c\<in>set (clean_elems True cs). normal c"
proof -
  have "\<forall>c\<in>set (foldl (clean_step True) kept cs). normal c" if "\<forall>c\<in>set kept. normal c" for kept
    using that assms
  proof (induction cs arbitrary: kept)
    case (Cons c cs)
    have "\<forall>c\<in>set (clean_step True kept c). normal c"
      using Cons.prems by (intro clean_step_rooted_normal) simp_all
    then show ?case using Cons.IH Cons.prems(2) by simp
  qed simp
  from this [of "[]"] show ?thesis by (simp add: clean_elems_def)
qed

text \<open>Every absolute path cleans to the path of a list of normal components.\<close>

definition components :: "string \<Rightarrow> string list" where
  "components p = clean_elems True (split_on (CHR ''/'') p)"

lemma components_normal [simp]: "\<forall>c\<in>set (components p). normal c"
  unfolding components_def by (rule clean_elems_rooted_normal) (auto dest: split_on_parts)

lemma Clean_absolute: "p \<noteq> '''' \<Longrightarrow> hd p = CHR ''/'' \<Longrightarrow> Clean p = abs_path (components p)"
  by (simp add: Clean_def components_def abs_path_def)

lemma components_abs_path [simp]: "\<forall>c\<in>set cs. normal c \<Longrightarrow> components (abs_path cs) = cs"
  using clean_elems_normal [of cs True "[]"]
  by (simp add: components_def split_abs_path clean_elems_def clean_step_def)

lemma Clean_idem_absolute:
  assumes "p \<noteq> ''''" and "hd p = CHR ''/''"
  shows "Clean (Clean p) = Clean p"
  by (simp add: Clean_absolute [OF assms])

lemma join_on_snoc: "ws \<noteq> [] \<Longrightarrow> join_on c (ws @ [w]) = join_on c ws @ c # w"
  by (induction c ws rule: join_on.induct) auto

lemma abs_path_snoc:
  "abs_path (cs @ [c]) = (if cs = [] then [CHR ''/''] else abs_path cs @ [CHR ''/'']) @ c"
  by (simp add: abs_path_def join_on_snoc)

lemma abs_path_eq_root: "\<forall>c\<in>set cs. normal c \<Longrightarrow> abs_path cs = ''/'' \<longleftrightarrow> cs = []"
proof (cases cs rule: rev_cases)
  case (snoc ys y)
  assume "\<forall>c\<in>set cs. normal c"
  then have "y \<noteq> []" using snoc normalD(1) by simp
  then show ?thesis using snoc by (simp add: abs_path_snoc) (simp add: abs_path_def)
qed (simp add: abs_path_def)

lemma last_index_abs_path_snoc:
  assumes "normal c"
  shows "last_index (CHR ''/'') (abs_path (cs @ [c]))
           = Some (if cs = [] then 0 else length (abs_path cs))"
proof -
  have "CHR ''/'' \<notin> set c" using assms by (rule normalD)
  then show ?thesis
    using last_index_append [of "CHR ''/''" c "abs_path cs"]
    by (cases "cs = []") (simp_all add: abs_path_def join_on_snoc last_index_notin)
qed

lemma Dir_abs_path:
  assumes "\<forall>c\<in>set (cs @ [c]). normal c"
  shows "Dir (abs_path (cs @ [c])) = abs_path cs"
proof (cases "cs = []")
  case True
  then show ?thesis
    using assms last_index_abs_path_snoc [of c cs] Clean_abs_path [of "[]"]
    by (simp add: Dir_def abs_path_def)
next
  case False
  have "components (abs_path cs @ [CHR ''/'']) = cs"
  proof -
    have "abs_path cs @ [CHR ''/''] = CHR ''/'' # join_on (CHR ''/'') (cs @ [[]])"
      using False by (simp add: abs_path_def join_on_snoc)
    moreover have "split_on (CHR ''/'') (join_on (CHR ''/'') (cs @ [[]])) = cs @ [[]]"
    proof (rule split_on_join)
      fix w assume "w \<in> set (cs @ [[]])"
      then show "CHR ''/'' \<notin> set w" using assms normalD(2) by (cases "w \<in> set cs") simp_all
    qed simp
    ultimately show ?thesis
      using clean_elems_normal [of cs True "[]"] assms
      by (simp add: components_def clean_elems_def clean_step_def)
  qed
  moreover have "take (length (abs_path cs) + 1) (abs_path (cs @ [c])) = abs_path cs @ [CHR ''/'']"
    using False by (simp add: abs_path_snoc)
  ultimately show ?thesis
    using False assms last_index_abs_path_snoc [of c cs] Clean_absolute [of "abs_path cs @ [CHR ''/'']"]
    by (simp add: Dir_def) (simp add: abs_path_def)
qed

lemma strip_slashes_abs_path:
  assumes "normal c"
  shows "strip_slashes (abs_path (cs @ [c])) = abs_path (cs @ [c])"
proof -
  have "rev c \<noteq> []" "hd (rev c) \<noteq> CHR ''/''" using normalD [OF assms] by (simp_all add: hd_rev)
  then have "dropWhile (\<lambda>x. x = CHR ''/'') (rev c @ xs) = rev c @ xs" for xs
    by (cases "rev c") auto
  then show ?thesis by (simp add: strip_slashes_def abs_path_snoc)
qed

lemma Base_abs_path:
  assumes "normal c"
  shows "Base (abs_path (cs @ [c])) = c"
proof -
  have "drop (Suc (if cs = [] then 0 else length (abs_path cs))) (abs_path (cs @ [c])) = c"
    by (simp add: abs_path_snoc)
  then show ?thesis
    using assms last_index_abs_path_snoc [OF assms, of cs]
    by (simp add: Base_def strip_slashes_abs_path normal_def) (simp add: abs_path_def)
qed

lemma Join_abs_path:
  assumes "\<forall>c\<in>set (cs @ [c]). normal c"
  shows "Join [abs_path cs, c] = abs_path (cs @ [c])"
proof -
  have ne: "abs_path cs \<noteq> []" by (simp add: abs_path_def)
  have "components (abs_path cs @ CHR ''/'' # c) = cs @ [c]"
  proof (cases "cs = []")
    case True
    then show ?thesis
      using assms split_on_no_sep [of "CHR ''/''" c]
      by (simp add: components_def abs_path_def clean_elems_def clean_step_def normal_def)
  next
    case False
    then have "abs_path cs @ CHR ''/'' # c = abs_path (cs @ [c])" by (simp add: abs_path_snoc)
    then show ?thesis using components_abs_path [OF assms] by simp
  qed
  then show ?thesis
    using ne Clean_absolute [of "abs_path cs @ CHR ''/'' # c"]
    by (simp add: Join_def) (simp add: abs_path_def)
qed

end
