(* ===== verification/Directory.thy ===== *)
theory Directory
  imports Storage Go_Path
begin

text \<open>
  The directory tree kept in \<open>tg_file_mapping_tab\<close> (\<open>directory/db_directory.go\<close>): an
  entry has a parent entry and a name, a path is resolved component by component from the root
  entry (parent 0, name \<open>/\<close>). The operations below are the methods of
  \<open>dbDirectory\<close> and of \<open>directoryTransaction\<close>, with the database threaded through.

  \<open>idfn\<close> is the identifier generator \<open>idgen\<close>: its \<open>n\<close>-th value is
  \<open>idfn n\<close>. \<open>now\<close> is the clock, read once per operation. The recursions over a
  subtree have no bound in the source and end because the tree is finite; in the model they
  carry a depth, for which the number of entries is enough (\<open>Directory_Tree\<close>), and running
  out of it is \<^const>\<open>ErrRecursionLimit\<close>.
\<close>

abbreviation (input) KindDir :: nat where "KindDir \<equiv> 1"
abbreviation (input) KindFile :: nat where "KindFile \<equiv> 2"
abbreviation (input) defaultEntryFileMode :: nat where "defaultEntryFileMode \<equiv> 493"

section \<open>Paths\<close>

definition rebuildDirItems :: "string \<Rightarrow> string list result" where
  "rebuildDirItems dir =
     (let items = split_on (CHR ''/'') dir
      in if ''..'' \<in> set items then Inl ErrInvalidPath
         else Inr (''/'' # filter (\<lambda>item. item \<noteq> '''' \<and> item \<noteq> ''.'') items))"

definition isArrayHasSuffix :: "string list \<Rightarrow> string list \<Rightarrow> bool" where
  "isArrayHasSuffix origin prefix \<longleftrightarrow>
     length prefix \<le> length origin \<and> take (length prefix) origin = prefix"

definition splitFilename :: "string \<Rightarrow> string \<times> string \<times> bool" where
  "splitFilename filename =
     (let filename = Clean filename
      in if filename = ''/'' then ('''', ''/'', True)
         else let filename = TrimSuffixSlash filename
              in (Dir filename, Base filename, False))"

definition precheckMoveCopy :: "string \<Rightarrow> string \<Rightarrow> bool result" where
  "precheckMoveCopy src dst =
     bind_result (rebuildDirItems src) (\<lambda>s.
     bind_result (rebuildDirItems dst) (\<lambda>t.
       if s = t then Inr False
       else if isArrayHasSuffix t s then Inl ErrDestinationInsideSource
       else if isArrayHasSuffix s t then Inl ErrDestinationInsideSource
       else Inr True))"

section \<open>Statements on the table\<close>

definition txSearchEntry :: "nat \<Rightarrow> string \<Rightarrow> db \<Rightarrow> mapping_row option" where
  "txSearchEntry pid name d = find (\<lambda>m. mr_parent m = pid \<and> mr_name m = name) (mappings d)"

definition txIsEntryExist :: "nat \<Rightarrow> string \<Rightarrow> db \<Rightarrow> bool" where
  "txIsEntryExist pid name d \<longleftrightarrow> txSearchEntry pid name d \<noteq> None"

text \<open>\<open>ent\<close> carries the columns; its identifiers are replaced by the generated ones.\<close>

definition txCreateEntry :: "(nat \<Rightarrow> nat) \<Rightarrow> nat \<Rightarrow> mapping_row \<Rightarrow> db \<Rightarrow> (nat \<times> db) result" where
  "txCreateEntry idfn pid ent d =
     (let eid = idfn (id_seq d);
          row = ent\<lparr>mr_id := Suc (mapping_seq d), mr_entry_id := eid, mr_parent := pid\<rparr>
      in if \<exists>m\<in>set (mappings d). (mr_parent m = pid \<and> mr_name m = mr_name ent) \<or> mr_entry_id m = eid
         then Inl ErrUnique
         else Inr (eid, d\<lparr>mappings := mappings d @ [row], mapping_seq := Suc (mapping_seq d),
                          id_seq := Suc (id_seq d)\<rparr>))"

definition new_entry :: "string \<Rightarrow> string \<Rightarrow> nat \<Rightarrow> int \<Rightarrow> nat \<Rightarrow> int \<Rightarrow> mapping_row" where
  "new_entry name refdata kind fsize mode now =
     \<lparr>mr_id = 0, mr_entry_id = 0, mr_parent = 0, mr_ref_data = refdata, mr_kind = kind,
      mr_ctime = now, mr_mtime = now, mr_size = fsize, mr_mode = mode, mr_name = name\<rparr>"

definition txCreateDir :: "(nat \<Rightarrow> nat) \<Rightarrow> int \<Rightarrow> nat \<Rightarrow> string \<Rightarrow> db \<Rightarrow> (nat \<times> db) result" where
  "txCreateDir idfn now pid name d =
     txCreateEntry idfn pid (new_entry name '''' KindDir 0 defaultEntryFileMode now) d"

definition txChangeParent :: "nat \<Rightarrow> nat \<Rightarrow> string \<Rightarrow> db \<Rightarrow> db result" where
  "txChangeParent entryid parentid newname d =
     (if \<exists>m\<in>set (mappings d). mr_parent m = parentid \<and> mr_name m = newname \<and> mr_entry_id m \<noteq> entryid
      then Inl ErrUnique
      else if \<not> (\<exists>m\<in>set (mappings d). mr_entry_id m = entryid) then Inl ErrNoRowsAffected
      else Inr (d\<lparr>mappings := map (\<lambda>m. if mr_entry_id m = entryid
             then m\<lparr>mr_parent := parentid, mr_name := newname\<rparr> else m) (mappings d)\<rparr>))"

definition txRemove :: "nat \<Rightarrow> string \<Rightarrow> db \<Rightarrow> db" where
  "txRemove parentid name d =
     d\<lparr>mappings := filter (\<lambda>m. \<not> (mr_parent m = parentid \<and> mr_name m = name)) (mappings d)\<rparr>"

definition touchEntryID :: "nat \<Rightarrow> int \<Rightarrow> db \<Rightarrow> db" where
  "touchEntryID entryID mtime d =
     d\<lparr>mappings := map (\<lambda>m. if mr_entry_id m = entryID then m\<lparr>mr_mtime := mtime\<rparr> else m) (mappings d)\<rparr>"

definition recordChange :: "string \<Rightarrow> change_kind \<Rightarrow> int \<Rightarrow> db \<Rightarrow> db" where
  "recordChange entryPath kind now d =
     d\<lparr>changes := changes d @ [\<lparr>hr_revision = Suc (change_seq d), hr_path = Clean entryPath,
                               hr_kind = kind, hr_at = now\<rparr>],
       change_seq := Suc (change_seq d)\<rparr>"

definition children_of :: "nat \<Rightarrow> db \<Rightarrow> mapping_row list" where
  "children_of parentid d = sort_key mr_entry_id (filter (\<lambda>m. mr_parent m = parentid) (mappings d))"

definition txListDir :: "nat \<Rightarrow> nat \<Rightarrow> nat \<Rightarrow> db \<Rightarrow> mapping_row list" where
  "txListDir parentid offset limit d = take limit (drop offset (children_of parentid d))"

definition txListDirAfter :: "nat \<Rightarrow> nat \<Rightarrow> nat \<Rightarrow> db \<Rightarrow> mapping_row list" where
  "txListDirAfter parentID lastEntryID limit d =
     take limit (sort_key mr_entry_id
       (filter (\<lambda>m. mr_parent m = parentID \<and> lastEntryID < mr_entry_id m) (mappings d)))"

function listAllLoop :: "nat \<Rightarrow> nat \<Rightarrow> db \<Rightarrow> mapping_row list \<Rightarrow> mapping_row list" where
  "listAllLoop parentid offset d rs =
     (let ents = txListDir parentid offset 128 d
      in if length ents < 128 then rs @ ents else listAllLoop parentid (offset + 128) d (rs @ ents))"
  by pat_completeness auto
termination
  by (relation "measure (\<lambda>(p, offset, d, rs). length (children_of p d) - offset)")
     (auto simp: txListDir_def)

declare listAllLoop.simps [simp del]

definition txListAllDir :: "nat \<Rightarrow> db \<Rightarrow> mapping_row list" where
  "txListAllDir parentid d = listAllLoop parentid 0 d []"

section \<open>Resolving a path\<close>

text \<open>One component: its entry identifier and kind, created as a directory if allowed.\<close>

definition txSelectDirComponent ::
  "(nat \<Rightarrow> nat) \<Rightarrow> int \<Rightarrow> nat \<Rightarrow> string \<Rightarrow> string \<Rightarrow> bool \<Rightarrow> db \<Rightarrow> ((nat \<times> nat) \<times> db) result" where
  "txSelectDirComponent idfn now parentID name componentPath allowCreate d =
     (case txSearchEntry parentID name d of
        Some entry \<Rightarrow> Inr ((mr_entry_id entry, mr_kind entry), d)
      | None \<Rightarrow>
          if \<not> allowCreate then Inl ErrNotExist
          else
            bind_result (txCreateDir idfn now parentID name d) (\<lambda>(entryID, d).
              let d = recordChange componentPath ChangeCreated now d;
                  d = (if parentID \<noteq> 0 then touchEntryID parentID now d else d)
              in Inr ((entryID, KindDir), d)))"

fun selectLoop ::
  "(nat \<Rightarrow> nat) \<Rightarrow> int \<Rightarrow> bool \<Rightarrow> string list \<Rightarrow> string list \<Rightarrow> nat \<Rightarrow> db \<Rightarrow> (nat \<times> db) result" where
  "selectLoop idfn now allowCreate seen [] parentid d = Inr (parentid, d)"
| "selectLoop idfn now allowCreate seen (item # items) parentid d =
     bind_result (txSelectDirComponent idfn now parentid item (Join (seen @ [item])) allowCreate d)
       (\<lambda>((eid, kind), d).
          if kind \<noteq> KindDir then Inl ErrPathComponentNotDirectory
          else selectLoop idfn now allowCreate (seen @ [item]) items eid d)"

definition txOnSelectDir ::
  "(nat \<Rightarrow> nat) \<Rightarrow> int \<Rightarrow> string \<Rightarrow> bool \<Rightarrow> db \<Rightarrow> (nat \<times> db) result" where
  "txOnSelectDir idfn now dir allowCreate d =
     bind_result (rebuildDirItems dir) (\<lambda>items. selectLoop idfn now allowCreate [] items 0 d)"

text \<open>Resolution without creation changes nothing, so only the directory is returned.\<close>

fun findLoop :: "string list \<Rightarrow> nat \<Rightarrow> db \<Rightarrow> nat result" where
  "findLoop [] parentid d = Inr parentid"
| "findLoop (item # items) parentid d =
     (case txSearchEntry parentid item d of
        None \<Rightarrow> Inl ErrNotExist
      | Some entry \<Rightarrow>
          if mr_kind entry \<noteq> KindDir then Inl ErrPathComponentNotDirectory
          else findLoop items (mr_entry_id entry) d)"

definition findDir :: "string \<Rightarrow> db \<Rightarrow> nat result" where
  "findDir dir d = bind_result (rebuildDirItems dir) (\<lambda>items. findLoop items 0 d)"

definition txGetRoot :: "db \<Rightarrow> mapping_row option" where
  "txGetRoot d = txSearchEntry 0 ''/'' d"

definition txCreateRoot :: "(nat \<Rightarrow> nat) \<Rightarrow> int \<Rightarrow> db \<Rightarrow> (mapping_row \<times> db) result" where
  "txCreateRoot idfn now d =
     (case txGetRoot d of
        Some ent \<Rightarrow> Inr (ent, d)
      | None \<Rightarrow>
          bind_result (txCreateEntry idfn 0 (new_entry ''/'' '''' KindDir 0 defaultEntryFileMode now) d)
            (\<lambda>(eid, d). case txGetRoot d of
                None \<Rightarrow> Inl ErrRootNotFoundAfterCreate
              | Some ent \<Rightarrow> Inr (ent, d)))"

text \<open>The parent identifier (0 for the root) and the entry, if there is one.\<close>

definition txGetEntryInfo :: "string \<Rightarrow> db \<Rightarrow> (nat \<times> mapping_row option) result" where
  "txGetEntryInfo location d =
     (case splitFilename location of (dir, name, isRoot) \<Rightarrow>
        if isRoot then Inr (0, txGetRoot d)
        else bind_result (findDir dir d) (\<lambda>parentid. Inr (parentid, txSearchEntry parentid name d)))"

definition touchParent :: "string \<Rightarrow> int \<Rightarrow> db \<Rightarrow> db result" where
  "touchParent entryPath mtime d =
     (case txGetEntryInfo (Dir (Clean entryPath)) d of
        Inl e \<Rightarrow> if e = ErrNotExist then Inr d else Inl e
      | Inr (_, None) \<Rightarrow> Inr d
      | Inr (_, Some parent) \<Rightarrow> Inr (touchEntryID (mr_entry_id parent) mtime d))"

section \<open>Transactions: reading and creating\<close>

definition txStat :: "string \<Rightarrow> db \<Rightarrow> mapping_row option result" where
  "txStat filename d =
     (case txGetEntryInfo filename d of
        Inl e \<Rightarrow> if e = ErrNotExist then Inr None else Inl e
      | Inr (_, entry) \<Rightarrow> Inr entry)"

text \<open>The record returned to the caller has the generated entry identifier but no row number.\<close>

definition txCreate ::
  "(nat \<Rightarrow> nat) \<Rightarrow> int \<Rightarrow> string \<Rightarrow> int \<Rightarrow> string \<Rightarrow> db \<Rightarrow> (mapping_row \<times> db) result" where
  "txCreate idfn now filename fsize refdata d =
     (let filename = TrimSuffixSlash filename
      in case splitFilename filename of (dir, name, isRoot) \<Rightarrow>
           if isRoot then Inl ErrEntryMustNotBeRoot
           else
             bind_result (txOnSelectDir idfn now dir True d) (\<lambda>(parentID, d).
             if txIsEntryExist parentID name d then Inl ErrExist
             else
               let entry = new_entry name refdata KindFile fsize defaultEntryFileMode now
               in bind_result (txCreateEntry idfn parentID entry d) (\<lambda>(entryID, d).
                  bind_result (touchParent filename now (recordChange filename ChangeCreated now d)) (\<lambda>d.
                  Inr (entry\<lparr>mr_parent := parentID, mr_entry_id := entryID\<rparr>, d)))))"

definition txMkdir :: "(nat \<Rightarrow> nat) \<Rightarrow> int \<Rightarrow> string \<Rightarrow> db \<Rightarrow> (mapping_row \<times> db) result" where
  "txMkdir idfn now dirname d =
     (let dirname = TrimSuffixSlash dirname
      in case splitFilename dirname of (parent, name, isRoot) \<Rightarrow>
           if isRoot then Inl ErrEntryMustNotBeRoot
           else
             case findDir parent d of
               Inl e \<Rightarrow> Inl (if e = ErrNotExist then ErrParentNotFound else e)
             | Inr parentID \<Rightarrow>
                 if txIsEntryExist parentID name d then Inl ErrExist
                 else
                   bind_result (txCreateDir idfn now parentID name d) (\<lambda>(entryID, d).
                   case txSearchEntry parentID name d of
                     None \<Rightarrow> Inl ErrReadCopied
                   | Some entry \<Rightarrow>
                       bind_result (touchParent dirname now (recordChange dirname ChangeCreated now d)) (\<lambda>d.
                       Inr (entry\<lparr>mr_entry_id := entryID\<rparr>, d))))"

text \<open>\<open>Replace\<close> returns the entry as it was before the replacement.\<close>

definition txReplace :: "string \<Rightarrow> int \<Rightarrow> string \<Rightarrow> int \<Rightarrow> int \<Rightarrow> db \<Rightarrow> (mapping_row \<times> db) result" where
  "txReplace filename fsize refdata mtime now d =
     bind_result (txGetEntryInfo filename d) (\<lambda>(_, found).
     case found of
       None \<Rightarrow> Inl ErrNotExist
     | Some entry \<Rightarrow>
         if mr_kind entry \<noteq> KindFile then Inl ErrEntryNotFile
         else
           let d = d\<lparr>mappings := map (\<lambda>m. if mr_entry_id m = mr_entry_id entry
                 then m\<lparr>mr_ref_data := refdata, mr_size := fsize, mr_mtime := mtime\<rparr> else m) (mappings d)\<rparr>
           in bind_result (touchParent filename mtime (recordChange filename ChangeUpdated now d)) (\<lambda>d.
              Inr (entry, d)))"

definition txTouch :: "string \<Rightarrow> int \<Rightarrow> int \<Rightarrow> db \<Rightarrow> db result" where
  "txTouch filename mtime now d =
     bind_result (txGetEntryInfo filename d) (\<lambda>(_, found).
     case found of
       None \<Rightarrow> Inl ErrNotExist
     | Some entry \<Rightarrow> Inr (recordChange filename ChangeUpdated now (touchEntryID (mr_entry_id entry) mtime d)))"

section \<open>Transactions: subtrees\<close>

primrec collectAndRemove ::
  "nat \<Rightarrow> int \<Rightarrow> string \<Rightarrow> mapping_row \<Rightarrow> mapping_row list \<times> db \<Rightarrow> (mapping_row list \<times> db) result" where
  "collectAndRemove 0 now entryPath entry s = Inl ErrRecursionLimit"
| "collectAndRemove (Suc depth) now entryPath entry s =
     bind_result
       (if mr_kind entry = KindDir
        then fold_result (\<lambda>child. collectAndRemove depth now (Join [entryPath, mr_name child]) child)
               (txListAllDir (mr_entry_id entry) (snd s)) s
        else Inr s)
       (\<lambda>(removed, d).
          Inr (removed @ [entry],
               txRemove (mr_parent entry) (mr_name entry) (recordChange entryPath ChangeDeleted now d)))"

definition txRemoveTree :: "int \<Rightarrow> string \<Rightarrow> db \<Rightarrow> (mapping_row list \<times> db) result" where
  "txRemoveTree now filename d =
     bind_result (txGetEntryInfo filename d) (\<lambda>(_, found).
     case found of
       None \<Rightarrow> Inr ([], d)
     | Some entry \<Rightarrow>
         bind_result (collectAndRemove (length (mappings d) + 1) now (Clean filename) entry ([], d))
           (\<lambda>(removed, d).
              bind_result (touchParent filename now d) (\<lambda>d. Inr (removed, d))))"

primrec collectEntries ::
  "nat \<Rightarrow> db \<Rightarrow> mapping_row \<Rightarrow> mapping_row list \<Rightarrow> mapping_row list result" where
  "collectEntries 0 d entry entries = Inl ErrRecursionLimit"
| "collectEntries (Suc depth) d entry entries =
     bind_result
       (if mr_kind entry = KindDir
        then fold_result (collectEntries depth d) (txListAllDir (mr_entry_id entry) d) entries
        else Inr entries)
       (\<lambda>entries. Inr (entries @ [entry]))"

primrec recordTreeWalk :: "nat \<Rightarrow> change_kind \<Rightarrow> int \<Rightarrow> string \<Rightarrow> mapping_row \<Rightarrow> db \<Rightarrow> db result" where
  "recordTreeWalk 0 kind now entryPath current d = Inl ErrRecursionLimit"
| "recordTreeWalk (Suc depth) kind now entryPath current d =
     (let d = recordChange entryPath kind now d
      in if mr_kind current \<noteq> KindDir then Inr d
         else fold_result (\<lambda>child. recordTreeWalk depth kind now (Join [entryPath, mr_name child]) child)
                (txListAllDir (mr_entry_id current) d) d)"

definition recordTreeChanges :: "string \<Rightarrow> change_kind \<Rightarrow> int \<Rightarrow> db \<Rightarrow> db result" where
  "recordTreeChanges root kind now d =
     bind_result (txGetEntryInfo root d) (\<lambda>(_, found).
     case found of
       None \<Rightarrow> Inl ErrNotExist
     | Some entry \<Rightarrow> recordTreeWalk (length (mappings d) + 1) kind now (Clean root) entry d)"

primrec txDoIterAndCopy ::
  "nat \<Rightarrow> (nat \<Rightarrow> nat) \<Rightarrow> int \<Rightarrow> mapping_row \<Rightarrow> nat \<Rightarrow> string \<Rightarrow> string \<Rightarrow> bool \<Rightarrow> db \<Rightarrow> db result" where
  "txDoIterAndCopy 0 idfn now srcinfo dstparent destination newname recursive d = Inl ErrRecursionLimit"
| "txDoIterAndCopy (Suc depth) idfn now srcinfo dstparent destination newname recursive d =
     bind_result
       (txCreateEntry idfn dstparent
          (new_entry newname (mr_ref_data srcinfo) (mr_kind srcinfo) (mr_size srcinfo) (mr_mode srcinfo) now) d)
       (\<lambda>(dstentid, d).
          let d = recordChange destination ChangeCreated now d
          in if mr_kind srcinfo = KindFile \<or> \<not> recursive then Inr d
             else fold_result
                    (\<lambda>item. txDoIterAndCopy depth idfn now item dstentid
                       (Join [destination, mr_name item]) (mr_name item) True)
                    (txListAllDir (mr_entry_id srcinfo) d) d)"

definition txDoCopyDepth ::
  "(nat \<Rightarrow> nat) \<Rightarrow> int \<Rightarrow> string \<Rightarrow> string \<Rightarrow> bool \<Rightarrow> bool \<Rightarrow> db \<Rightarrow> db result" where
  "txDoCopyDepth idfn now src dst overwrite recursive d =
     bind_result (precheckMoveCopy src dst) (\<lambda>proceed.
     if \<not> proceed then Inr d
     else
       bind_result (txGetEntryInfo src d) (\<lambda>(_, sfound).
       case sfound of
         None \<Rightarrow> Inl ErrSourceNotFound
       | Some sinfo \<Rightarrow>
           (case splitFilename dst of (_, dname, isRoot) \<Rightarrow>
              if isRoot then Inl ErrDestinationMustNotBeRoot
              else
                bind_result (txGetEntryInfo dst d) (\<lambda>(dstparentid, dfound).
                bind_result
                  (case dfound of
                     None \<Rightarrow> Inr d
                   | Some dinfo \<Rightarrow>
                       if \<not> overwrite then Inl ErrDestinationExists
                       else bind_result
                              (collectAndRemove (length (mappings d) + 1) now (Clean dst) dinfo ([], d))
                              (\<lambda>(removed, d). Inr d))
                  (\<lambda>d.
                     bind_result
                       (txDoIterAndCopy (length (mappings d) + 1) idfn now sinfo dstparentid (Clean dst) dname recursive d)
                       (\<lambda>d. touchParent dst now d))))))"

primrec collectCopyPairs ::
  "nat \<Rightarrow> db \<Rightarrow> bool \<Rightarrow> mapping_row \<Rightarrow> mapping_row \<Rightarrow> (mapping_row \<times> mapping_row) list
     \<Rightarrow> (mapping_row \<times> mapping_row) list result" where
  "collectCopyPairs 0 d recursive src dst pairs = Inl ErrRecursionLimit"
| "collectCopyPairs (Suc depth) d recursive src dst pairs =
     (let pairs = pairs @ [(src, dst)]
      in if mr_kind src = KindFile \<or> \<not> recursive then Inr pairs
         else fold_result
                (\<lambda>child pairs.
                   case txSearchEntry (mr_entry_id dst) (mr_name child) d of
                     None \<Rightarrow> Inl ErrReadCopied
                   | Some dchild \<Rightarrow> collectCopyPairs depth d True child dchild pairs)
                (txListAllDir (mr_entry_id src) d) pairs)"

text \<open>Errors of a lookup other than a missing directory are returned; a missing one is ignored.\<close>

definition entry_if_any :: "string \<Rightarrow> db \<Rightarrow> mapping_row option result" where
  "entry_if_any location d = txStat location d"

definition txCopyDepth ::
  "(nat \<Rightarrow> nat) \<Rightarrow> int \<Rightarrow> string \<Rightarrow> string \<Rightarrow> bool \<Rightarrow> bool \<Rightarrow> db
     \<Rightarrow> (((mapping_row \<times> mapping_row) list \<times> mapping_row list) \<times> db) result" where
  "txCopyDepth idfn now source destination overwrite recursive d =
     bind_result (precheckMoveCopy source destination) (\<lambda>proceed.
     if \<not> proceed then Inr (([], []), d)
     else
       bind_result (entry_if_any destination d) (\<lambda>dfound.
       bind_result
         (case dfound of
            None \<Rightarrow> Inr []
          | Some dinfo \<Rightarrow> collectEntries (length (mappings d) + 1) d dinfo [])
         (\<lambda>overwritten.
       bind_result (txDoCopyDepth idfn now source destination overwrite recursive d) (\<lambda>d.
       bind_result (txGetEntryInfo source d) (\<lambda>(_, sfound).
       bind_result (txGetEntryInfo destination d) (\<lambda>(_, cfound).
       case (sfound, cfound) of
         (Some sentry, Some centry) \<Rightarrow>
           bind_result (collectCopyPairs (length (mappings d) + 1) d recursive sentry centry []) (\<lambda>pairs.
             Inr ((pairs, overwritten), d))
       | _ \<Rightarrow> Inl ErrReadCopied))))))"

definition txCopy ::
  "(nat \<Rightarrow> nat) \<Rightarrow> int \<Rightarrow> string \<Rightarrow> string \<Rightarrow> bool \<Rightarrow> db
     \<Rightarrow> (((mapping_row \<times> mapping_row) list \<times> mapping_row list) \<times> db) result" where
  "txCopy idfn now source destination overwrite d =
     txCopyDepth idfn now source destination overwrite True d"

definition txDoMove :: "int \<Rightarrow> string \<Rightarrow> string \<Rightarrow> bool \<Rightarrow> db \<Rightarrow> db result" where
  "txDoMove now src dst overwrite d =
     bind_result (precheckMoveCopy src dst) (\<lambda>proceed.
     if \<not> proceed then Inr d
     else
       bind_result (txGetEntryInfo src d) (\<lambda>(_, sfound).
       case sfound of
         None \<Rightarrow> Inl ErrSourceNotFound
       | Some sinfo \<Rightarrow>
           bind_result (txGetEntryInfo dst d) (\<lambda>(parentid, dfound).
           case splitFilename dst of (_, dname, isRoot) \<Rightarrow>
             if isRoot then Inl ErrEntryMustNotBeRoot
             else
               case dfound of
                 None \<Rightarrow> txChangeParent (mr_entry_id sinfo) parentid dname d
               | Some dinfo \<Rightarrow>
                   if \<not> overwrite then Inl ErrDestinationExists
                   else
                     bind_result
                       (collectAndRemove (length (mappings d) + 1) now (Clean dst) dinfo ([], d))
                       (\<lambda>(removed, d). txChangeParent (mr_entry_id sinfo) parentid dname d))))"

definition txMove :: "int \<Rightarrow> string \<Rightarrow> string \<Rightarrow> bool \<Rightarrow> db \<Rightarrow> (mapping_row list \<times> db) result" where
  "txMove now source destination overwrite d =
     bind_result (precheckMoveCopy source destination) (\<lambda>proceed.
     if \<not> proceed then Inr ([], d)
     else
       bind_result (entry_if_any destination d) (\<lambda>dfound.
       bind_result
         (case dfound of
            None \<Rightarrow> Inr []
          | Some dinfo \<Rightarrow> collectEntries (length (mappings d) + 1) d dinfo [])
         (\<lambda>overwritten.
       bind_result (recordTreeChanges source ChangeDeleted now d) (\<lambda>d.
       bind_result (txDoMove now source destination overwrite d) (\<lambda>d.
       bind_result (recordTreeChanges destination ChangeCreated now d) (\<lambda>d.
       bind_result (touchParent source now d) (\<lambda>d.
       bind_result (touchParent destination now d) (\<lambda>d.
       Inr (overwritten, d)))))))))"

section \<open>The directory interface\<close>

text \<open>
  \<open>Create\<close>, \<open>Remove\<close>, \<open>Move\<close> and \<open>Copy\<close> of \<open>dbDirectory\<close> run the
  transactional method of the same name and drop its list of entries.
\<close>

definition dirMkdir :: "(nat \<Rightarrow> nat) \<Rightarrow> int \<Rightarrow> string \<Rightarrow> db \<Rightarrow> db result" where
  "dirMkdir idfn now dir d =
     (case splitFilename dir of (pdir, name, isRoot) \<Rightarrow>
        if isRoot then bind_result (txCreateRoot idfn now d) (\<lambda>(_, d). Inr d)
        else
          bind_result (txOnSelectDir idfn now pdir True d) (\<lambda>(parentid, d).
          if txIsEntryExist parentid name d then Inr d
          else
            bind_result (txCreateDir idfn now parentid name d) (\<lambda>(_, d).
            Inr (touchEntryID parentid now (recordChange dir ChangeCreated now d)))))"

definition dirCreate :: "(nat \<Rightarrow> nat) \<Rightarrow> int \<Rightarrow> string \<Rightarrow> int \<Rightarrow> string \<Rightarrow> db \<Rightarrow> db result" where
  "dirCreate idfn now filename fsize refdata d =
     bind_result (txCreate idfn now filename fsize refdata d) (\<lambda>(_, d). Inr d)"

definition dirRemove :: "int \<Rightarrow> string \<Rightarrow> db \<Rightarrow> db result" where
  "dirRemove now filename d = bind_result (txRemoveTree now filename d) (\<lambda>(_, d). Inr d)"

definition dirMove :: "int \<Rightarrow> string \<Rightarrow> string \<Rightarrow> bool \<Rightarrow> db \<Rightarrow> db result" where
  "dirMove now src dst overwrite d = bind_result (txMove now src dst overwrite d) (\<lambda>(_, d). Inr d)"

definition dirCopy :: "(nat \<Rightarrow> nat) \<Rightarrow> int \<Rightarrow> string \<Rightarrow> string \<Rightarrow> bool \<Rightarrow> db \<Rightarrow> db result" where
  "dirCopy idfn now src dst overwrite d = bind_result (txCopy idfn now src dst overwrite d) (\<lambda>(_, d). Inr d)"

definition dirStat :: "string \<Rightarrow> db \<Rightarrow> mapping_row result" where
  "dirStat filename d =
     (case splitFilename filename of (dir, name, isRoot) \<Rightarrow>
        if isRoot then (case txGetRoot d of None \<Rightarrow> Inl ErrNotExist | Some ent \<Rightarrow> Inr ent)
        else
          bind_result (findDir dir d) (\<lambda>parentid.
          case txSearchEntry parentid name d of None \<Rightarrow> Inl ErrNotExist | Some ent \<Rightarrow> Inr ent))"

definition dirList :: "string \<Rightarrow> db \<Rightarrow> mapping_row list result" where
  "dirList dir d = bind_result (findDir dir d) (\<lambda>parentid. Inr (txListAllDir parentid d))"

record PageCursor =
  pc_IsDir :: bool
  pc_Name :: string
  pc_EntryID :: nat

record DirectoryPage =
  dp_ParentEntryID :: nat
  dp_Entries :: "mapping_row list"
  dp_HasMore :: bool

definition page_key :: "mapping_row \<Rightarrow> nat \<times> string \<times> nat" where
  "page_key m = (mr_kind m, mr_name m, mr_entry_id m)"

definition txListDirPage :: "nat \<Rightarrow> PageCursor option \<Rightarrow> nat \<Rightarrow> db \<Rightarrow> mapping_row list" where
  "txListDirPage parentID cursor limit d =
     take limit (sort_key page_key
       (filter (\<lambda>m. mr_parent m = parentID \<and>
          (case cursor of
             None \<Rightarrow> True
           | Some c \<Rightarrow>
               let kind = (if pc_IsDir c then KindDir else KindFile)
               in mr_kind m > kind \<or> (mr_kind m = kind \<and> mr_name m > pc_Name c) \<or>
                  (mr_kind m = kind \<and> mr_name m = pc_Name c \<and> mr_entry_id m > pc_EntryID c)))
          (mappings d)))"

definition dirListPage :: "string \<Rightarrow> PageCursor option \<Rightarrow> nat \<Rightarrow> db \<Rightarrow> DirectoryPage result" where
  "dirListPage dir cursor limit d =
     (if limit = 0 \<or> limit > 500 then Inl ErrInvalidPageLimit
      else if (case cursor of None \<Rightarrow> False | Some c \<Rightarrow> pc_Name c = '''' \<or> pc_EntryID c = 0)
      then Inl ErrInvalidPageCursor
      else
        bind_result (findDir dir d) (\<lambda>parentID.
        let entries = txListDirPage parentID cursor (limit + 1) d
        in Inr \<lparr>dp_ParentEntryID = parentID, dp_Entries = take limit entries,
                dp_HasMore = (length entries > limit)\<rparr>))"

definition dirIterate ::
  "string \<Rightarrow> nat \<Rightarrow> ('s \<Rightarrow> mapping_row list \<Rightarrow> ('s \<times> bool) result) \<Rightarrow> db \<Rightarrow> 's \<Rightarrow> 's result" where
  "dirIterate dir batch cb d s =
     (if batch = 0 then Inl ErrInvalidScanBatch
      else
        bind_result (findDir dir d) (\<lambda>parentID.
          scan_rows mr_entry_id batch (filter (\<lambda>m. mr_parent m = parentID) (mappings d)) cb 0 s))"

definition dirScan ::
  "nat \<Rightarrow> ('s \<Rightarrow> mapping_row list \<Rightarrow> ('s \<times> bool) result) \<Rightarrow> db \<Rightarrow> 's \<Rightarrow> 's result" where
  "dirScan batch cb d s =
     (if batch = 0 \<or> batch > 1000000 then Inl ErrInvalidScanBatch
      else scan_rows mr_id batch (mappings d) cb 0 s)"

end
