(* ===== verification/Directory_Tree.thy ===== *)
theory Directory_Tree
  imports Directory "HOL-Library.Sublist"
begin

text \<open>
  What the directory operations mean. The rows of the mapping table form a tree; every row has
  exactly one path from the root, and resolving a path finds exactly the row with that path.
  On this view each operation of \<open>Directory\<close> is characterised by what it does to the map
  from paths to entries.
\<close>

section \<open>Paths of rows\<close>

inductive row_path :: "mapping_row list \<Rightarrow> mapping_row \<Rightarrow> string list \<Rightarrow> bool" for ms where
  root: "m \<in> set ms \<Longrightarrow> mr_parent m = 0 \<Longrightarrow> row_path ms m [mr_name m]"
| child: "row_path ms p xs \<Longrightarrow> mr_kind p = KindDir \<Longrightarrow> m \<in> set ms \<Longrightarrow> mr_parent m = mr_entry_id p
    \<Longrightarrow> row_path ms m (xs @ [mr_name m])"

inductive_cases row_pathE: "row_path ms m xs"

definition tree_ok :: "mapping_row list \<Rightarrow> bool" where
  "tree_ok ms \<longleftrightarrow>
     unique_by (\<lambda>m. (mr_parent m, mr_name m)) ms \<and> unique_by mr_entry_id ms \<and>
     (\<forall>m\<in>set ms. mr_entry_id m \<noteq> 0) \<and>
     (\<forall>m\<in>set ms. mr_parent m = 0 \<longrightarrow> mr_name m = ''/'' \<and> mr_kind m = KindDir) \<and>
     (\<forall>m\<in>set ms. mr_kind m = KindDir \<or> mr_kind m = KindFile) \<and>
     (\<forall>m\<in>set ms. \<exists>xs. row_path ms m xs)"

lemma tree_okD:
  assumes "tree_ok ms"
  shows "unique_by (\<lambda>m. (mr_parent m, mr_name m)) ms" and "unique_by mr_entry_id ms"
    and "m \<in> set ms \<Longrightarrow> mr_entry_id m \<noteq> 0"
    and "m \<in> set ms \<Longrightarrow> mr_parent m = 0 \<Longrightarrow> mr_name m = ''/'' \<and> mr_kind m = KindDir"
    and "m \<in> set ms \<Longrightarrow> mr_kind m = KindDir \<or> mr_kind m = KindFile"
    and "m \<in> set ms \<Longrightarrow> \<exists>xs. row_path ms m xs"
  using assms by (auto simp: tree_ok_def)

lemma row_path_in: "row_path ms m xs \<Longrightarrow> m \<in> set ms"
  by (erule row_path.cases) auto

lemma row_path_nonempty: "row_path ms m xs \<Longrightarrow> xs \<noteq> []"
  by (erule row_path.cases) auto

lemma row_path_snoc:
  assumes "row_path ms m (xs @ [c])"
  shows "m \<in> set ms \<and> mr_name m = c \<and>
    (if xs = [] then mr_parent m = 0
     else \<exists>p. row_path ms p xs \<and> mr_kind p = KindDir \<and> mr_parent m = mr_entry_id p)"
  using assms by (cases rule: row_path.cases) (auto dest: row_path_nonempty)

lemma same_parent_name:
  assumes "tree_ok ms" and "m \<in> set ms" "m' \<in> set ms" and "mr_parent m = mr_parent m'" "mr_name m = mr_name m'"
  shows "m = m'"
  using unique_by_eq [OF tree_okD(1) [OF assms(1)] assms(2,3)] assms(4,5) by simp

lemma same_entry_id:
  assumes "tree_ok ms" and "m \<in> set ms" "m' \<in> set ms" and "mr_entry_id m = mr_entry_id m'"
  shows "m = m'"
  by (rule unique_by_eq [OF tree_okD(2) [OF assms(1)] assms(2-4)])

text \<open>A path leads to one row, and a row has one path.\<close>

lemma row_path_inj:
  assumes ok: "tree_ok ms"
  shows "row_path ms m xs \<Longrightarrow> row_path ms m' xs \<Longrightarrow> m = m'"
proof (induction xs arbitrary: m m' rule: rev_induct)
  case Nil
  then show ?case using row_path_nonempty by blast
next
  case (snoc c xs)
  show ?case
  proof (rule same_parent_name [OF ok])
    show "m \<in> set ms" "m' \<in> set ms" using snoc.prems by (auto dest: row_path_in)
    show "mr_name m = mr_name m'" using snoc.prems by (auto dest: row_path_snoc)
    show "mr_parent m = mr_parent m'"
    proof (cases "xs = []")
      case True
      then show ?thesis using row_path_snoc [OF snoc.prems(1)] row_path_snoc [OF snoc.prems(2)] by simp
    next
      case False
      then obtain p p' where "row_path ms p xs" "mr_parent m = mr_entry_id p"
          "row_path ms p' xs" "mr_parent m' = mr_entry_id p'"
        using row_path_snoc [OF snoc.prems(1)] row_path_snoc [OF snoc.prems(2)] by auto
      then show ?thesis using snoc.IH by metis
    qed
  qed
qed

lemma row_path_unique:
  assumes ok: "tree_ok ms"
  shows "row_path ms m xs \<Longrightarrow> row_path ms m ys \<Longrightarrow> xs = ys"
proof (induction arbitrary: ys rule: row_path.induct)
  case (root m)
  from root(3,1,2) show ?case
    by (cases rule: row_path.cases) (use tree_okD(3) [OF ok] row_path_in in metis)+
next
  case (child p xs m)
  from child.prems child.hyps show ?case
  proof (cases rule: row_path.cases)
    case root
    then show ?thesis using child.hyps tree_okD(3) [OF ok] row_path_in by metis
  next
    case (child p' xs')
    then have "p' = p"
      using same_entry_id [OF ok] row_path_in child.hyps by metis
    then show ?thesis using child child.IH by simp
  qed
qed

lemma row_path_prefix:
  assumes "row_path ms m (xs @ ys)" and "xs \<noteq> []"
  shows "\<exists>p. row_path ms p xs \<and> (ys \<noteq> [] \<longrightarrow> mr_kind p = KindDir)"
  using assms(1)
proof (induction ys arbitrary: m rule: rev_induct)
  case Nil
  then show ?case by auto
next
  case (snoc y ys)
  then obtain p where p: "row_path ms p (xs @ ys)" "mr_kind p = KindDir"
    using row_path_snoc [of ms m "xs @ ys" y] assms(2) by auto
  show ?case
  proof (cases "ys = []")
    case True
    then show ?thesis using p by auto
  next
    case False
    then show ?thesis using snoc.IH [OF p(1)] by auto
  qed
qed

text \<open>Only the identity columns and the kind matter.\<close>

definition same_place :: "mapping_row \<Rightarrow> mapping_row \<Rightarrow> bool" where
  "same_place m m' \<longleftrightarrow> mr_entry_id m' = mr_entry_id m \<and> mr_parent m' = mr_parent m \<and>
     mr_name m' = mr_name m \<and> mr_kind m' = mr_kind m"

lemma row_path_map_intro:
  assumes "\<And>m. same_place m (f m)"
  shows "row_path ms m xs \<Longrightarrow> row_path (map f ms) (f m) xs"
proof (induction rule: row_path.induct)
  case (root m)
  then show ?case
    using row_path.root [of "f m" "map f ms"] assms [of m] by (simp add: same_place_def)
next
  case (child p xs m)
  then show ?case
    using row_path.child [of "map f ms" "f p" xs "f m"] assms [of m] assms [of p]
    by (simp add: same_place_def)
qed

lemma row_path_map_elim:
  assumes "\<And>m. same_place m (f m)"
  shows "row_path (map f ms) m' xs \<Longrightarrow> \<exists>m. m' = f m \<and> row_path ms m xs"
proof (induction rule: row_path.induct)
  case (root m')
  then obtain m where "m \<in> set ms" "m' = f m" by auto
  then show ?case
    using row_path.root [of m ms] assms [of m] root by (auto simp: same_place_def)
next
  case (child p' xs m')
  then obtain m p where "m \<in> set ms" "m' = f m" "p' = f p" "row_path ms p xs" by auto
  then show ?case
    using row_path.child [of ms p xs m] assms [of m] assms [of p] child by (auto simp: same_place_def)
qed

lemma tree_ok_map:
  assumes "\<And>m. same_place m (f m)" and "tree_ok ms"
  shows "tree_ok (map f ms)"
proof -
  have "unique_by (\<lambda>m. (mr_parent m, mr_name m)) (map f ms)" "unique_by mr_entry_id (map f ms)"
    using assms by (auto simp: unique_by_map same_place_def tree_ok_def)
  moreover have "\<exists>xs. row_path (map f ms) (f m) xs" if "m \<in> set ms" for m
    using row_path_map_intro [of f, OF assms(1)] tree_okD(6) [OF assms(2) that] by blast
  ultimately show ?thesis
    using assms by (auto simp: tree_ok_def same_place_def)
qed

section \<open>Resolution finds the row with the path\<close>

lemma txSearchEntry_Some:
  assumes "tree_ok (mappings d)"
  shows "txSearchEntry pid name d = Some m \<longleftrightarrow> m \<in> set (mappings d) \<and> mr_parent m = pid \<and> mr_name m = name"
proof
  assume "txSearchEntry pid name d = Some m"
  then show "m \<in> set (mappings d) \<and> mr_parent m = pid \<and> mr_name m = name"
    by (auto simp: txSearchEntry_def find_Some_iff)
next
  assume m: "m \<in> set (mappings d) \<and> mr_parent m = pid \<and> mr_name m = name"
  then obtain m' where m': "txSearchEntry pid name d = Some m'"
    by (cases "txSearchEntry pid name d") (auto simp: txSearchEntry_def find_None_iff)
  then have "m' \<in> set (mappings d) \<and> mr_parent m' = pid \<and> mr_name m' = name"
    by (auto simp: txSearchEntry_def find_Some_iff)
  then show "txSearchEntry pid name d = Some m"
    using same_parent_name [OF assms, of m m'] m m' by simp
qed

lemma txSearchEntry_None:
  "txSearchEntry pid name d = None \<longleftrightarrow> \<not> (\<exists>m\<in>set (mappings d). mr_parent m = pid \<and> mr_name m = name)"
  by (auto simp: txSearchEntry_def find_None_iff)

lemma findLoop_append:
  "findLoop (xs @ ys) pid d = bind_result (findLoop xs pid d) (\<lambda>q. findLoop ys q d)"
  by (induction xs arbitrary: pid) (auto split: option.splits)

lemma selectLoop_find:
  "selectLoop idfn now False seen items pid d = bind_result (findLoop items pid d) (\<lambda>p. Inr (p, d))"
  by (induction items arbitrary: seen pid)
     (auto simp: txSelectDirComponent_def split: option.splits)

lemma txOnSelectDir_find:
  "txOnSelectDir idfn now dir False d = bind_result (findDir dir d) (\<lambda>p. Inr (p, d))"
  by (simp add: txOnSelectDir_def findDir_def bind_result_def selectLoop_find split: sum.splits)

lemma findLoop_one:
  "findLoop [c] q d = Inr r \<longleftrightarrow>
     (\<exists>m. txSearchEntry q c d = Some m \<and> mr_kind m = KindDir \<and> r = mr_entry_id m)"
  by (auto split: option.splits)

lemma findLoop_path:
  assumes ok: "tree_ok (mappings d)" and "xs \<noteq> []"
  shows "findLoop xs 0 d = Inr q \<longleftrightarrow>
    (\<exists>p. row_path (mappings d) p xs \<and> mr_kind p = KindDir \<and> q = mr_entry_id p)"
  using assms(2)
proof (induction xs arbitrary: q rule: rev_induct)
  case (snoc c xs)
  show ?case
  proof (cases "xs = []")
    case True
    have "row_path (mappings d) p [c] \<longleftrightarrow> txSearchEntry 0 c d = Some p" for p
      using row_path_snoc [of "mappings d" p "[]" c] row_path.root [of p "mappings d"]
      by (auto simp: txSearchEntry_Some [OF ok])
    then show ?thesis using True by (auto split: option.splits if_splits)
  next
    case False
    have "findLoop (xs @ [c]) 0 d = Inr q \<longleftrightarrow>
        (\<exists>p m. row_path (mappings d) p xs \<and> mr_kind p = KindDir \<and>
           txSearchEntry (mr_entry_id p) c d = Some m \<and> mr_kind m = KindDir \<and> q = mr_entry_id m)"
      using snoc.IH [OF False] by (auto simp: findLoop_append bind_result_Inr_iff findLoop_one simp del: findLoop.simps)
    also have "\<dots> \<longleftrightarrow> (\<exists>m. row_path (mappings d) m (xs @ [c]) \<and> mr_kind m = KindDir \<and> q = mr_entry_id m)"
      using row_path_snoc [of "mappings d" _ xs c] row_path.child [of "mappings d" _ xs] False
      by (auto simp: txSearchEntry_Some [OF ok]) blast+
    finally show ?thesis .
  qed
qed simp

text \<open>The entry at a path given as its components, the first of which is the root's name.\<close>

definition lookup :: "db \<Rightarrow> string list \<Rightarrow> mapping_row option" where
  "lookup d xs =
     (if xs = [] then None
      else case findLoop (butlast xs) 0 d of
             Inl _ \<Rightarrow> None
           | Inr q \<Rightarrow> txSearchEntry q (last xs) d)"

lemma lookup_path:
  assumes ok: "tree_ok (mappings d)"
  shows "lookup d xs = Some m \<longleftrightarrow> row_path (mappings d) m xs"
proof (cases xs rule: rev_cases)
  case Nil
  then show ?thesis using row_path_nonempty by (auto simp: lookup_def)
next
  case (snoc ys c)
  show ?thesis
  proof (cases "ys = []")
    case True
    then show ?thesis
      using snoc row_path_snoc [of "mappings d" m "[]" c] row_path.root [of m "mappings d"]
      by (auto simp: lookup_def txSearchEntry_Some [OF ok])
  next
    case False
    have "lookup d xs = Some m \<longleftrightarrow>
        (\<exists>q. findLoop ys 0 d = Inr q \<and> txSearchEntry q c d = Some m)"
      using snoc by (auto simp: lookup_def split: sum.splits)
    then show ?thesis
      using snoc False row_path_snoc [of "mappings d" m ys c] row_path.child [of "mappings d" _ ys m]
      by (auto simp: findLoop_path [OF ok False] txSearchEntry_Some [OF ok])
  qed
qed

lemma lookup_None:
  assumes ok: "tree_ok (mappings d)"
  shows "lookup d xs = None \<longleftrightarrow> \<not> (\<exists>m. row_path (mappings d) m xs)"
  using lookup_path [OF ok] by (metis option.exhaust option.distinct(1))

lemma lookup_eqI:
  assumes "tree_ok (mappings d)" and "tree_ok (mappings d')"
    and "\<And>m. row_path (mappings d') m xs \<longleftrightarrow> row_path (mappings d) m xs"
  shows "lookup d' xs = lookup d xs"
proof (cases "lookup d xs")
  case None
  then have "\<not> (\<exists>m. row_path (mappings d) m xs)" using lookup_None [OF assms(1)] by simp
  then have "lookup d' xs = None" unfolding lookup_None [OF assms(2)] assms(3) .
  then show ?thesis using None by simp
next
  case (Some m)
  then have "row_path (mappings d') m xs" using lookup_path [OF assms(1)] assms(3) by blast
  then have "lookup d' xs = Some m" using lookup_path [OF assms(2)] by blast
  then show ?thesis using Some by simp
qed

section \<open>Path strings\<close>

lemma TrimSuffixSlash_abs_path:
  "\<forall>c\<in>set (cs @ [c]). normal c \<Longrightarrow> TrimSuffixSlash (abs_path (cs @ [c])) = abs_path (cs @ [c])"
proof -
  assume "\<forall>c\<in>set (cs @ [c]). normal c"
  then have "c \<noteq> []" "last c \<noteq> CHR ''/''" using normalD by auto
  then have "last (abs_path (cs @ [c])) \<noteq> CHR ''/''" by (simp add: abs_path_snoc)
  then show ?thesis by (simp add: TrimSuffixSlash_def)
qed

lemma splitFilename_root: "Clean p = abs_path [] \<Longrightarrow> splitFilename p = ('''', ''/'', True)"
  by (simp add: splitFilename_def abs_path_def)

lemma splitFilename_abs:
  assumes "Clean p = abs_path (cs @ [c])" and n: "\<forall>c\<in>set (cs @ [c]). normal c"
  shows "splitFilename p = (abs_path cs, c, False)"
proof -
  have "abs_path (cs @ [c]) \<noteq> ''/''" using abs_path_eq_root [OF n] by simp
  then show ?thesis
    using assms Dir_abs_path [OF n] Base_abs_path [of c cs] n
    by (simp add: splitFilename_def TrimSuffixSlash_abs_path Let_def)
qed

lemma rebuildDirItems_abs_path:
  assumes "\<forall>c\<in>set cs. normal c"
  shows "rebuildDirItems (abs_path cs) = Inr (''/'' # cs)"
proof -
  have "c \<noteq> ''''" "c \<noteq> ''.''" "c \<noteq> ''..''" if "c \<in> set cs" for c
    using that assms by (auto simp: normal_def)
  then have "filter (\<lambda>item. item \<noteq> '''' \<and> item \<noteq> ''.'') cs = cs" and "''..'' \<notin> set cs"
    by (auto intro: filter_True)
  then show ?thesis
    by (cases "cs = []") (simp_all add: rebuildDirItems_def split_abs_path [OF assms], simp add: abs_path_def)
qed

lemma txGetEntryInfo_root: "Clean p = abs_path [] \<Longrightarrow> txGetEntryInfo p d = Inr (0, lookup d [''/''])"
  by (simp add: txGetEntryInfo_def splitFilename_root txGetRoot_def lookup_def)

lemma txGetEntryInfo_abs:
  assumes "Clean p = abs_path (cs @ [c])" and n: "\<forall>c\<in>set (cs @ [c]). normal c"
  shows "txGetEntryInfo p d =
    bind_result (findLoop (''/'' # cs) 0 d) (\<lambda>q. Inr (q, txSearchEntry q c d))"
proof -
  have "findDir (abs_path cs) d = findLoop (''/'' # cs) 0 d"
    using n by (simp add: findDir_def rebuildDirItems_abs_path del: findLoop.simps)
  then show ?thesis
    by (simp add: txGetEntryInfo_def splitFilename_abs [OF assms] del: findLoop.simps)
qed

text \<open>On an absolute path every lookup function answers from the map of paths.\<close>

definition absolute :: "string \<Rightarrow> bool" where
  "absolute p \<longleftrightarrow> p \<noteq> '''' \<and> hd p = CHR ''/''"

definition items :: "string \<Rightarrow> string list" where
  "items p = ''/'' # components p"

lemma Clean_components: "absolute p \<Longrightarrow> Clean p = abs_path (components p)"
  by (simp add: absolute_def Clean_absolute)

lemma txGetEntryInfo_lookup:
  assumes "absolute p"
  shows "txGetEntryInfo p d = Inr (q, e) \<Longrightarrow> e = lookup d (items p)"
    and "txGetEntryInfo p d = Inl x \<Longrightarrow> lookup d (items p) = None"
proof -
  note clean = Clean_components [OF assms]
  have "(\<forall>q e. txGetEntryInfo p d = Inr (q, e) \<longrightarrow> e = lookup d (items p)) \<and>
        (\<forall>x. txGetEntryInfo p d = Inl x \<longrightarrow> lookup d (items p) = None)"
  proof (cases "components p" rule: rev_cases)
    case Nil
    then show ?thesis using txGetEntryInfo_root [of p d] clean by (simp add: items_def)
  next
    case (snoc cs c)
    have n: "\<forall>c\<in>set (cs @ [c]). normal c" using components_normal [of p] snoc by simp
    have "butlast (items p) = ''/'' # cs" "last (items p) = c" "items p \<noteq> []"
      by (simp_all add: items_def snoc)
    then show ?thesis
      using txGetEntryInfo_abs [OF _ n, of p d] clean snoc
      by (auto simp: lookup_def bind_result_Inr_iff bind_result_Inl_iff split: sum.splits simp del: findLoop.simps)
  qed
  then show "txGetEntryInfo p d = Inr (q, e) \<Longrightarrow> e = lookup d (items p)"
    and "txGetEntryInfo p d = Inl x \<Longrightarrow> lookup d (items p) = None" by blast+
qed

section \<open>The map of entries\<close>

text \<open>Entries by path, without the modification time that every change below a directory stamps.\<close>

definition bare :: "mapping_row \<Rightarrow> mapping_row" where
  "bare m = m\<lparr>mr_mtime := 0\<rparr>"

definition entries :: "db \<Rightarrow> string list \<Rightarrow> mapping_row option" where
  "entries d xs = map_option bare (lookup d xs)"

lemma bare_simps [simp]:
  "mr_kind (bare m) = mr_kind m" "mr_entry_id (bare m) = mr_entry_id m" "mr_parent (bare m) = mr_parent m"
  "mr_name (bare m) = mr_name m" "mr_size (bare m) = mr_size m" "mr_ref_data (bare m) = mr_ref_data m"
  by (simp_all add: bare_def)

lemma bare_eqD:
  assumes "bare m = bare m'"
  shows "mr_kind m = mr_kind m'" "mr_entry_id m = mr_entry_id m'" "mr_parent m = mr_parent m'"
    "mr_name m = mr_name m'" "mr_size m = mr_size m'" "mr_ref_data m = mr_ref_data m'"
  using arg_cong [OF assms, of mr_kind] arg_cong [OF assms, of mr_entry_id]
    arg_cong [OF assms, of mr_parent] arg_cong [OF assms, of mr_name] arg_cong [OF assms, of mr_size]
    arg_cong [OF assms, of mr_ref_data]
  by simp_all

lemma findLoop_mappings: "mappings d' = mappings d \<Longrightarrow> findLoop xs pid d' = findLoop xs pid d"
  by (induction xs arbitrary: pid) (auto simp: txSearchEntry_def split: option.splits)

lemma lookup_mappings: "mappings d' = mappings d \<Longrightarrow> lookup d' xs = lookup d xs"
  using findLoop_mappings [of d' d "butlast xs" 0]
  by (cases "findLoop (butlast xs) 0 d") (simp_all add: lookup_def txSearchEntry_def)

lemma entries_mappings: "mappings d' = mappings d \<Longrightarrow> entries d' = entries d"
  by (rule ext) (simp add: entries_def lookup_mappings [of d' d])

lemma lookup_map:
  assumes "tree_ok (mappings d)" and "\<And>m. same_place m (f m)" and "mappings d' = map f (mappings d)"
  shows "lookup d' xs = map_option f (lookup d xs)"
proof -
  have ok: "tree_ok (mappings d')" using tree_ok_map [of f] assms by simp
  show ?thesis
  proof (cases "lookup d xs")
    case None
    then have "\<not> (\<exists>m. row_path (mappings d) m xs)" using lookup_None [OF assms(1)] by simp
    then have "\<not> (\<exists>m. row_path (map f (mappings d)) m xs)"
      using row_path_map_elim [of f "mappings d" _ xs, OF assms(2)] by blast
    then have "lookup d' xs = None" using lookup_None [OF ok, of xs] assms(3) by simp
    then show ?thesis using None by simp
  next
    case (Some m)
    then have "row_path (mappings d) m xs" using lookup_path [OF assms(1)] by blast
    then have "row_path (mappings d') (f m) xs"
      unfolding assms(3) by (rule row_path_map_intro [of f, OF assms(2)])
    then have "lookup d' xs = Some (f m)" using lookup_path [OF ok] by blast
    then show ?thesis using Some by simp
  qed
qed

lemma touchEntryID_tree:
  assumes "tree_ok (mappings d)"
  shows "tree_ok (mappings (touchEntryID e t d))" and "entries (touchEntryID e t d) = entries d"
proof -
  let ?f = "\<lambda>m. if mr_entry_id m = e then m\<lparr>mr_mtime := t\<rparr> else m"
  have sp: "same_place m (?f m)" for m by (simp add: same_place_def)
  then show "tree_ok (mappings (touchEntryID e t d))"
    using tree_ok_map [of ?f] assms by (simp add: touchEntryID_def)
  have "lookup (touchEntryID e t d) xs = map_option ?f (lookup d xs)" for xs
    by (rule lookup_map [OF assms sp]) (simp add: touchEntryID_def)
  then show "entries (touchEntryID e t d) = entries d"
    by (auto simp: entries_def bare_def option.map_comp fun_eq_iff comp_def intro!: option.map_cong)
qed

lemma touchParent_tree:
  assumes "tree_ok (mappings d)" and "touchParent p t d = Inr d'"
  shows "tree_ok (mappings d')" and "entries d' = entries d"
  using assms touchEntryID_tree [OF assms(1)]
  by (auto simp: touchParent_def split: sum.splits if_splits option.splits prod.splits)

lemma recordChange_mappings [simp]: "mappings (recordChange p k now d) = mappings d"
  by (simp add: recordChange_def)

section \<open>Adding an entry\<close>

definition hangs_at :: "mapping_row list \<Rightarrow> nat \<Rightarrow> string list \<Rightarrow> bool" where
  "hangs_at ms pid P \<longleftrightarrow>
     (pid = 0 \<and> P = []) \<or> (\<exists>p. row_path ms p P \<and> mr_kind p = KindDir \<and> mr_entry_id p = pid)"

lemma hangs_at_0: "tree_ok ms \<Longrightarrow> hangs_at ms 0 P \<Longrightarrow> P = []"
  using tree_okD(3) row_path_in by (fastforce simp: hangs_at_def)

lemma row_path_add:
  assumes ok: "tree_ok ms" and fresh: "mr_entry_id new \<notin> mr_entry_id ` set ms" "mr_entry_id new \<noteq> 0"
    and hang: "hangs_at ms (mr_parent new) P"
  shows "row_path (ms @ [new]) m xs \<longleftrightarrow> row_path ms m xs \<or> (m = new \<and> xs = P @ [mr_name new])"
proof
  assume "row_path (ms @ [new]) m xs"
  then show "row_path ms m xs \<or> (m = new \<and> xs = P @ [mr_name new])"
  proof (induction rule: row_path.induct)
    case (root m)
    show ?case
    proof (cases "m \<in> set ms")
      case True
      then show ?thesis using root row_path.root by blast
    next
      case False
      then have "m = new" using root by simp
      then have "P = []"
        using hang root hangs_at_0 [OF ok] by simp
      then show ?thesis using \<open>m = new\<close> by simp
    qed
  next
    case (child p xs m)
    have m_ms: "mr_parent m \<noteq> mr_entry_id new" if m: "m \<in> set ms"
    proof -
      obtain ys where "row_path ms m ys" using tree_okD(6) [OF ok m] by auto
      then show ?thesis
      proof (cases rule: row_path.cases)
        case root
        then show ?thesis using fresh by simp
      next
        case (child p xs)
        then show ?thesis using fresh(1) row_path_in [OF child(2)] by (metis imageI)
      qed
    qed
    have "mr_parent new \<noteq> mr_entry_id new"
    proof
      assume *: "mr_parent new = mr_entry_id new"
      then obtain p where "row_path ms p P" "mr_entry_id p = mr_entry_id new"
        using hang fresh(2) by (auto simp: hangs_at_def)
      then show False using fresh(1) row_path_in by (metis imageI)
    qed
    then have "p \<noteq> new" using child.hyps m_ms by auto
    then have p: "row_path ms p xs" using child.IH by simp
    show ?case
    proof (cases "m \<in> set ms")
      case True
      then show ?thesis using row_path.child [OF p child.hyps(2)] child by blast
    next
      case False
      then have m: "m = new" using child by simp
      moreover have "mr_parent new \<noteq> 0"
        using child.hyps m tree_okD(3) [OF ok row_path_in [OF p]] by simp
      then obtain p' where "row_path ms p' P" "mr_entry_id p' = mr_entry_id p"
        using hang child.hyps m by (auto simp: hangs_at_def)
      then have "xs = P"
        using same_entry_id [OF ok] row_path_in row_path_unique [OF ok] p by metis
      ultimately show ?thesis by simp
    qed
  qed
next
  have grow: "row_path ms m xs \<Longrightarrow> row_path (ms @ [new]) m xs" for m xs
    by (induction rule: row_path.induct) (auto intro: row_path.intros)
  assume "row_path ms m xs \<or> (m = new \<and> xs = P @ [mr_name new])"
  then show "row_path (ms @ [new]) m xs"
  proof
    assume *: "m = new \<and> xs = P @ [mr_name new]"
    show ?thesis
    proof (cases "mr_parent new = 0 \<and> P = []")
      case True
      then show ?thesis using * row_path.root [of new "ms @ [new]"] by simp
    next
      case False
      then obtain p where "row_path ms p P" "mr_kind p = KindDir" "mr_entry_id p = mr_parent new"
        using hang by (auto simp: hangs_at_def)
      then show ?thesis using * row_path.child [OF grow, of p P new] by simp
    qed
  qed (rule grow)
qed

lemma tree_ok_add:
  assumes ok: "tree_ok ms" and fresh: "mr_entry_id new \<notin> mr_entry_id ` set ms" "mr_entry_id new \<noteq> 0"
    and hang: "hangs_at ms (mr_parent new) P"
    and free: "\<not> (\<exists>m\<in>set ms. mr_parent m = mr_parent new \<and> mr_name m = mr_name new)"
    and kind: "mr_kind new = KindDir \<or> mr_kind new = KindFile"
    and root: "mr_parent new = 0 \<longrightarrow> mr_name new = ''/'' \<and> mr_kind new = KindDir"
  shows "tree_ok (ms @ [new])"
proof -
  have "\<exists>xs. row_path (ms @ [new]) m xs" if "m \<in> set (ms @ [new])" for m
    using that tree_okD(6) [OF ok] row_path_add [OF ok fresh hang] by (cases "m = new") auto
  moreover have "unique_by mr_entry_id (ms @ [new])"
    using tree_okD(2) [OF ok] fresh by (auto simp: unique_by_def)
  moreover have "unique_by (\<lambda>m. (mr_parent m, mr_name m)) (ms @ [new])"
    using tree_okD(1) [OF ok] free by (auto simp: unique_by_def)
  ultimately show ?thesis
    using ok fresh(2) kind root by (auto simp: tree_ok_def)
qed

lemma lookup_add:
  assumes ok: "tree_ok (mappings d)"
    and fresh: "mr_entry_id new \<notin> mr_entry_id ` set (mappings d)" "mr_entry_id new \<noteq> 0"
    and hang: "hangs_at (mappings d) (mr_parent new) P" and ok': "tree_ok (mappings d @ [new])"
    and d': "mappings d' = mappings d @ [new]"
  shows "lookup d' = (lookup d)(P @ [mr_name new] \<mapsto> new)"
proof
  fix xs
  have ok'': "tree_ok (mappings d')" using ok' d' by simp
  have new: "row_path (mappings d') m xs \<longleftrightarrow>
      row_path (mappings d) m xs \<or> (m = new \<and> xs = P @ [mr_name new])" for m
    unfolding d' by (rule row_path_add [OF ok fresh hang])
  show "lookup d' xs = ((lookup d)(P @ [mr_name new] \<mapsto> new)) xs"
  proof (cases "xs = P @ [mr_name new]")
    case True
    then show ?thesis using new [of new] lookup_path [OF ok''] by simp
  next
    case False
    then have "row_path (mappings d') m xs \<longleftrightarrow> row_path (mappings d) m xs" for m using new by simp
    then have "lookup d' xs = lookup d xs"
      by (intro lookup_eqI [OF ok ok'']) simp
    then show ?thesis using False by simp
  qed
qed

section \<open>Creating\<close>

text \<open>The generator never repeats an identifier and never returns 0.\<close>

definition good_ids :: "(nat \<Rightarrow> nat) \<Rightarrow> bool" where
  "good_ids idfn \<longleftrightarrow> inj idfn \<and> (\<forall>n. idfn n \<noteq> 0)"

definition dir_ok :: "(nat \<Rightarrow> nat) \<Rightarrow> db \<Rightarrow> bool" where
  "dir_ok idfn d \<longleftrightarrow>
     tree_ok (mappings d) \<and> (\<forall>m\<in>set (mappings d). \<exists>n<id_seq d. mr_entry_id m = idfn n)"

lemma dir_okD: "dir_ok idfn d \<Longrightarrow> tree_ok (mappings d)"
  by (simp add: dir_ok_def)

lemma dir_ok_fresh:
  assumes "good_ids idfn" and "dir_ok idfn d"
  shows "idfn (id_seq d) \<notin> mr_entry_id ` set (mappings d)"
proof
  assume "idfn (id_seq d) \<in> mr_entry_id ` set (mappings d)"
  then obtain n where "n < id_seq d" "idfn (id_seq d) = idfn n"
    using assms(2) by (auto simp: dir_ok_def)
  then show False using assms(1) by (auto simp: good_ids_def dest: injD)
qed

lemma lookup_taken:
  assumes ok: "tree_ok (mappings d)" and hang: "hangs_at (mappings d) pid P"
    and free: "\<not> (\<exists>m\<in>set (mappings d). mr_parent m = pid \<and> mr_name m = c)"
  shows "lookup d (P @ [c]) = None"
proof -
  have "\<not> row_path (mappings d) m (P @ [c])" for m
  proof
    assume "row_path (mappings d) m (P @ [c])"
    from row_path_snoc [OF this] have m: "m \<in> set (mappings d)" "mr_name m = c"
      and parent: "if P = [] then mr_parent m = 0
        else \<exists>p. row_path (mappings d) p P \<and> mr_kind p = KindDir \<and> mr_parent m = mr_entry_id p" by auto
    have "mr_parent m = pid"
    proof (cases "P = []")
      case True
      then have "pid = 0" using hang row_path_nonempty by (auto simp: hangs_at_def)
      then show ?thesis using parent True by simp
    next
      case False
      then show ?thesis using parent hang row_path_inj [OF ok] by (auto simp: hangs_at_def)
    qed
    then show False using m free by blast
  qed
  then show ?thesis using lookup_None [OF ok] by blast
qed

lemma txCreateEntry_tree:
  assumes ids: "good_ids idfn" and ok: "dir_ok idfn d" and hang: "hangs_at (mappings d) pid P"
    and kind: "mr_kind ent = KindDir \<or> mr_kind ent = KindFile"
    and root: "pid = 0 \<longrightarrow> mr_name ent = ''/'' \<and> mr_kind ent = KindDir"
    and create: "txCreateEntry idfn pid ent d = Inr (eid, d')"
  shows "dir_ok idfn d'" and "eid = idfn (id_seq d)" and "lookup d (P @ [mr_name ent]) = None"
    and "lookup d' = (lookup d)(P @ [mr_name ent] \<mapsto>
           ent\<lparr>mr_id := Suc (mapping_seq d), mr_entry_id := eid, mr_parent := pid\<rparr>)"
    and "hangs_at (mappings d') pid P"
proof -
  let ?row = "ent\<lparr>mr_id := Suc (mapping_seq d), mr_entry_id := eid, mr_parent := pid\<rparr>"
  from create have eid: "eid = idfn (id_seq d)"
    and d': "d' = d\<lparr>mappings := mappings d @ [?row], mapping_seq := Suc (mapping_seq d), id_seq := Suc (id_seq d)\<rparr>"
    and free: "\<not> (\<exists>m\<in>set (mappings d). mr_parent m = pid \<and> mr_name m = mr_name ent)"
    by (auto simp: txCreateEntry_def Let_def split: if_splits)
  note tree = dir_okD [OF ok]
  have fresh: "mr_entry_id ?row \<notin> mr_entry_id ` set (mappings d)" "mr_entry_id ?row \<noteq> 0"
    using dir_ok_fresh [OF ids ok] ids eid by (auto simp: good_ids_def)
  have hang': "hangs_at (mappings d) (mr_parent ?row) P" using hang by simp
  have ok': "tree_ok (mappings d @ [?row])"
    using tree_ok_add [OF tree fresh hang'] free kind root by simp
  show "eid = idfn (id_seq d)" by (rule eid)
  show "dir_ok idfn d'"
    using ok ok' by (auto simp: d' dir_ok_def eid less_Suc_eq)
  show "lookup d (P @ [mr_name ent]) = None" by (rule lookup_taken [OF tree hang free])
  show "lookup d' = (lookup d)(P @ [mr_name ent] \<mapsto> ?row)"
    using lookup_add [OF tree fresh hang' ok', of d'] by (simp add: d')
  have "row_path (mappings d') p P" if "row_path (mappings d) p P" for p
    using that row_path_add [OF tree fresh hang'] by (simp add: d')
  then show "hangs_at (mappings d') pid P" using hang by (auto simp: hangs_at_def)
qed

text \<open>Nothing but new directories on the way to a path.\<close>

definition grows :: "db \<Rightarrow> db \<Rightarrow> string list \<Rightarrow> bool" where
  "grows d d' path \<longleftrightarrow>
     (\<forall>xs e. entries d xs = Some e \<longrightarrow> entries d' xs = Some e) \<and>
     (\<forall>xs e. entries d xs = None \<longrightarrow> entries d' xs = Some e \<longrightarrow> prefix xs path \<and> mr_kind e = KindDir)"

lemma grows_refl: "grows d d path"
  by (simp add: grows_def)

lemma grows_trans:
  assumes "grows d e p" and "grows e f q" and "prefix p q"
  shows "grows d f q"
proof -
  have "prefix xs q \<and> mr_kind x = KindDir" if "entries d xs = None" "entries f xs = Some x" for xs x
  proof (cases "entries e xs")
    case None
    then show ?thesis using assms(2) that by (auto simp: grows_def)
  next
    case (Some y)
    then have "prefix xs p \<and> mr_kind y = KindDir" "x = y"
      using assms(1,2) that by (auto simp: grows_def)
    then show ?thesis using assms(3) by auto
  qed
  then show ?thesis using assms(1,2) by (auto simp: grows_def)
qed

lemma hangs_at_mappings:
  assumes "tree_ok (mappings d)" and "hangs_at (mappings d) pid P"
  shows "hangs_at (mappings (touchEntryID e t d)) pid P"
proof -
  let ?f = "\<lambda>m. if mr_entry_id m = e then m\<lparr>mr_mtime := t\<rparr> else m"
  have sp: "same_place m (?f m)" for m by (simp add: same_place_def)
  have "row_path (mappings (touchEntryID e t d)) (?f p) P" if "row_path (mappings d) p P" for p
    using row_path_map_intro [of ?f, OF sp that] by (simp add: touchEntryID_def)
  then show ?thesis using assms(2) unfolding hangs_at_def by (metis sp same_place_def)
qed

lemma dir_ok_touch: "dir_ok idfn d \<Longrightarrow> dir_ok idfn (touchEntryID e t d)"
  using touchEntryID_tree(1) [of d e t] by (auto simp: dir_ok_def touchEntryID_def)

lemma dir_ok_record [simp]: "dir_ok idfn (recordChange p k now d) = dir_ok idfn d"
  by (simp add: dir_ok_def recordChange_def)

lemma entries_record [simp]: "entries (recordChange p k now d) = entries d"
  by (rule entries_mappings) simp

text \<open>One path component.\<close>

lemma component_tree:
  assumes ids: "good_ids idfn" and ok: "dir_ok idfn d" and hang: "hangs_at (mappings d) pid P"
    and root: "pid = 0 \<longrightarrow> item = ''/''"
    and select: "txSelectDirComponent idfn now pid item path True d = Inr ((eid, kind), d')"
    and dir: "kind = KindDir"
  shows "dir_ok idfn d' \<and> hangs_at (mappings d') eid (P @ [item]) \<and> eid \<noteq> 0 \<and> grows d d' (P @ [item])"
proof (cases "txSearchEntry pid item d")
  case (Some m)
  then have m: "m \<in> set (mappings d)" "mr_parent m = pid" "mr_name m = item"
    using txSearchEntry_Some [OF dir_okD [OF ok]] by blast+
  have d': "d' = d" "eid = mr_entry_id m" "mr_kind m = KindDir"
    using select dir Some by (auto simp: txSelectDirComponent_def)
  have "row_path (mappings d) m (P @ [item])"
    using hang m row_path.root [of m "mappings d"] row_path.child [of "mappings d" _ P m]
    by (auto simp: hangs_at_def)
  then show ?thesis
    using d' ok tree_okD(3) [OF dir_okD [OF ok] m(1)] by (auto simp: hangs_at_def grows_refl)
next
  case None
  let ?ent = "new_entry item '''' KindDir 0 defaultEntryFileMode now"
  from None select obtain e where create: "txCreateEntry idfn pid ?ent d = Inr (eid, e)"
    and d': "d' = (if pid \<noteq> 0 then touchEntryID pid now (recordChange path ChangeCreated now e)
                   else recordChange path ChangeCreated now e)"
    by (auto simp: txSelectDirComponent_def txCreateDir_def bind_result_Inr_iff Let_def)
  have name: "mr_name ?ent = item" "mr_kind ?ent = KindDir" by (simp_all add: new_entry_def)
  note new = txCreateEntry_tree [OF ids ok hang _ _ create, unfolded name, simplified, OF root]
  let ?row = "?ent\<lparr>mr_id := Suc (mapping_seq d), mr_entry_id := eid, mr_parent := pid\<rparr>"
  have e_ok: "tree_ok (mappings e)" using dir_okD [OF new(1)] .
  have "row_path (mappings e) ?row (P @ [item])"
    using lookup_path [OF e_ok, of "P @ [item]" ?row] new(4) by simp
  then have "hangs_at (mappings e) eid (P @ [item])"
    by (auto simp: hangs_at_def new_entry_def)
  then have "hangs_at (mappings d') eid (P @ [item])"
    using hangs_at_mappings [of "recordChange path ChangeCreated now e"] e_ok by (simp add: d')
  moreover have "dir_ok idfn d'"
    using new(1) dir_ok_touch by (simp add: d')
  moreover have "entries d' = entries e"
    using touchEntryID_tree(2) [of "recordChange path ChangeCreated now e"] e_ok by (simp add: d')
  then have "grows d d' (P @ [item])"
    using new(3,4) by (auto simp: grows_def entries_def new_entry_def)
  moreover have "eid \<noteq> 0" using new(2) ids by (simp add: good_ids_def)
  ultimately show ?thesis by blast
qed

lemma selectLoop_tree:
  assumes ids: "good_ids idfn"
  shows "dir_ok idfn d \<Longrightarrow> hangs_at (mappings d) pid seen \<Longrightarrow>
    (pid = 0 \<longrightarrow> xs \<noteq> [] \<longrightarrow> hd xs = ''/'') \<Longrightarrow>
    selectLoop idfn now True seen xs pid d = Inr (q, d') \<Longrightarrow>
    dir_ok idfn d' \<and> hangs_at (mappings d') q (seen @ xs) \<and> grows d d' (seen @ xs)"
proof (induction xs arbitrary: seen pid d)
  case Nil
  then show ?case by (simp add: grows_refl)
next
  case (Cons item xs)
  from Cons.prems(4) obtain eid kind e where
    select: "txSelectDirComponent idfn now pid item (Join (seen @ [item])) True d = Inr ((eid, kind), e)"
    and kind: "kind = KindDir" and rest: "selectLoop idfn now True (seen @ [item]) xs eid e = Inr (q, d')"
    by (auto simp: bind_result_Inr_iff split: if_splits)
  have one: "dir_ok idfn e" "hangs_at (mappings e) eid (seen @ [item])" "eid \<noteq> 0" "grows d e (seen @ [item])"
    using component_tree [OF ids Cons.prems(1,2) _ select kind] Cons.prems(3) by simp_all
  from Cons.IH [OF one(1,2) _ rest] one(3)
  have "dir_ok idfn d'" "hangs_at (mappings d') q (seen @ item # xs)" "grows e d' (seen @ item # xs)" by simp_all
  moreover have "prefix (seen @ [item]) (seen @ item # xs)" by simp
  ultimately show ?case using grows_trans [OF one(4)] by blast
qed

lemma split_on_snoc_sep: "split_on c (xs @ [c]) = split_on c xs @ [[]]"
  by (induction xs) (auto split: list.splits)

lemma components_TrimSuffixSlash:
  assumes "absolute p" and "components p \<noteq> []"
  shows "absolute (TrimSuffixSlash p) \<and> components (TrimSuffixSlash p) = components p"
proof (cases "last p = CHR ''/''")
  case True
  have "p \<noteq> []" using assms(1) by (simp add: absolute_def)
  then obtain q where q: "p = q @ [CHR ''/'']" using True by (metis append_butlast_last_id)
  have "q \<noteq> []"
  proof
    assume "q = []"
    then have "components p = []" using q by (simp add: components_def clean_elems_def clean_step_def)
    then show False using assms(2) by simp
  qed
  moreover have "components p = components q"
    by (simp add: q components_def split_on_snoc_sep clean_elems_def) (simp add: clean_step_def)
  ultimately show ?thesis
    using assms(1) by (simp add: q TrimSuffixSlash_def absolute_def)
next
  case False
  then show ?thesis using assms by (simp add: TrimSuffixSlash_def)
qed

lemma txOnSelectDir_tree:
  assumes "good_ids idfn" and "dir_ok idfn d" and "\<forall>c\<in>set cs. normal c"
    and "txOnSelectDir idfn now (abs_path cs) True d = Inr (q, d')"
  shows "dir_ok idfn d' \<and> hangs_at (mappings d') q (''/'' # cs) \<and> grows d d' (''/'' # cs) \<and> q \<noteq> 0"
proof -
  have "selectLoop idfn now True [] (''/'' # cs) 0 d = Inr (q, d')"
    using assms(3,4) by (simp add: txOnSelectDir_def rebuildDirItems_abs_path del: selectLoop.simps)
  moreover have "hangs_at (mappings d) 0 []" by (simp add: hangs_at_def)
  ultimately have *: "dir_ok idfn d' \<and> hangs_at (mappings d') q (''/'' # cs) \<and> grows d d' (''/'' # cs)"
    using selectLoop_tree [OF assms(1,2), of 0 "[]" "''/'' # cs"] by simp
  then have "q \<noteq> 0" using hangs_at_0 [OF dir_okD, of idfn d'] by (metis list.discI)
  with * show ?thesis by simp
qed

lemma entries_lookup: "entries d xs = None \<longleftrightarrow> lookup d xs = None"
  by (simp add: entries_def)

lemma dir_ok_touchParent: "dir_ok idfn d \<Longrightarrow> touchParent p t d = Inr d' \<Longrightarrow> dir_ok idfn d'"
  by (auto simp: touchParent_def dir_ok_touch split: sum.splits if_splits option.splits prod.splits)

lemma txCreate_tree:
  assumes ids: "good_ids idfn" and ok: "dir_ok idfn d" and p: "absolute p" "components p \<noteq> []"
    and create: "txCreate idfn now p fsize refdata d = Inr (e, d')"
  shows "dir_ok idfn d'" and "lookup d (items p) = None"
    and "\<exists>m. lookup d' (items p) = Some m \<and> mr_kind m = KindFile \<and> mr_size m = fsize \<and>
             mr_ref_data m = refdata \<and> mr_entry_id m = mr_entry_id e"
    and "entries d xs = Some x \<Longrightarrow> entries d' xs = Some x"
    and "entries d xs = None \<Longrightarrow> entries d' xs = Some x \<Longrightarrow>
           xs = items p \<or> (strict_prefix xs (items p) \<and> mr_kind x = KindDir)"
proof -
  let ?p = "TrimSuffixSlash p"
  obtain cs c where cs: "components p = cs @ [c]" using p(2) by (metis append_butlast_last_id)
  have n: "\<forall>c\<in>set (cs @ [c]). normal c" using components_normal [of p] cs by simp
  have "Clean ?p = abs_path (cs @ [c])"
    using components_TrimSuffixSlash [OF p] Clean_components cs by simp
  note split = splitFilename_abs [OF this n]
  have path: "items p = (''/'' # cs) @ [c]" by (simp add: items_def cs)
  let ?ent = "new_entry c refdata KindFile fsize defaultEntryFileMode now"
  from create obtain pid d1 eid d2 where select: "txOnSelectDir idfn now (abs_path cs) True d = Inr (pid, d1)"
    and new: "txCreateEntry idfn pid ?ent d1 = Inr (eid, d2)"
    and touch: "touchParent ?p now (recordChange ?p ChangeCreated now d2) = Inr d'"
    and e: "e = ?ent\<lparr>mr_parent := pid, mr_entry_id := eid\<rparr>"
    by (auto simp: txCreate_def Let_def split bind_result_Inr_iff split: if_splits)
  have "\<forall>c\<in>set cs. normal c" using n by simp
  note sel = txOnSelectDir_tree [OF ids ok this select]
  have name: "mr_name ?ent = c" "mr_kind ?ent = KindFile" by (simp_all add: new_entry_def)
  have sel': "dir_ok idfn d1" "hangs_at (mappings d1) pid (''/'' # cs)" "grows d d1 (''/'' # cs)" "pid \<noteq> 0"
    using sel by auto
  have "mr_kind ?ent = KindDir \<or> mr_kind ?ent = KindFile"
    and "pid = 0 \<longrightarrow> mr_name ?ent = ''/'' \<and> mr_kind ?ent = KindDir"
    using name sel'(4) by simp_all
  note made = txCreateEntry_tree [OF ids sel'(1,2) this new, unfolded name]
  let ?row = "?ent\<lparr>mr_id := Suc (mapping_seq d1), mr_entry_id := eid, mr_parent := pid\<rparr>"
  have d2: "dir_ok idfn d2" "lookup d2 = (lookup d1)(items p \<mapsto> ?row)" "lookup d1 (items p) = None"
    using made path by simp_all
  have touched: "entries d' = entries d2"
    using touchParent_tree(2) [OF _ touch] dir_okD [OF d2(1)] by simp
  show "dir_ok idfn d'" using dir_ok_touchParent [OF _ touch] d2(1) by simp
  have gone: "entries d (items p) = None"
  proof (cases "entries d (items p)")
    case (Some x)
    then have "entries d1 (items p) = Some x" using sel'(3) by (simp add: grows_def)
    then show ?thesis using d2(3) by (simp add: entries_def)
  qed simp
  then show "lookup d (items p) = None" by (simp add: entries_lookup)
  have "entries d' (items p) = Some (bare ?row)" unfolding touched by (simp add: entries_def d2)
  then obtain m where "lookup d' (items p) = Some m" and m: "bare m = bare ?row"
    by (auto simp: entries_def)
  then show "\<exists>m. lookup d' (items p) = Some m \<and> mr_kind m = KindFile \<and> mr_size m = fsize \<and>
      mr_ref_data m = refdata \<and> mr_entry_id m = mr_entry_id e"
    using bare_eqD [OF m] by (simp add: new_entry_def e)
  show "entries d' xs = Some x" if "entries d xs = Some x"
  proof -
    have "xs \<noteq> items p" using that gone by auto
    then show ?thesis using that sel'(3) unfolding touched by (simp add: entries_def d2 grows_def)
  qed
  show "xs = items p \<or> (strict_prefix xs (items p) \<and> mr_kind x = KindDir)"
    if "entries d xs = None" "entries d' xs = Some x"
  proof (cases "xs = items p")
    case False
    then have "entries d1 xs = Some x" using that(2) unfolding touched by (simp add: entries_def d2)
    then have "prefix xs (''/'' # cs)" "mr_kind x = KindDir"
      using that(1) sel'(3) by (auto simp: grows_def)
    then show ?thesis
      using path False prefix_prefix [of xs "''/'' # cs" "[c]"] by (simp add: strict_prefix_def)
  qed simp
qed

lemma dirStat_lookup:
  assumes "absolute p"
  shows "dirStat p d = Inr m \<longleftrightarrow> lookup d (items p) = Some m"
proof -
  have "dirStat p d = bind_result (txGetEntryInfo p d) (\<lambda>(_, e). case e of None \<Rightarrow> Inl ErrNotExist | Some m \<Rightarrow> Inr m)"
    by (simp add: dirStat_def txGetEntryInfo_def bind_result_def split: prod.split sum.split)
  then show ?thesis
    using txGetEntryInfo_lookup [OF assms, of d]
    by (cases "txGetEntryInfo p d") (auto split: option.splits)
qed

end
