(* ===== verification/Directory_Subtree.thy ===== *)
theory Directory_Subtree
  imports Directory_Tree
begin

text \<open>
  Operations on whole subtrees: removing one and moving one. Both are characterised on the map
  of paths; the recursion depth the model carries is shown to be enough.
\<close>

section \<open>Listing all children\<close>

lemma listAllLoop_drop: "listAllLoop p offset d rs = rs @ drop offset (children_of p d)"
proof (induction p offset d rs rule: listAllLoop.induct)
  case (1 p offset d rs)
  show ?case
  proof (cases "length (txListDir p offset 128 d) < 128")
    case True
    then have "txListDir p offset 128 d = drop offset (children_of p d)"
      by (simp add: txListDir_def)
    with True show ?thesis by (subst listAllLoop.simps) simp
  next
    case False
    have "txListDir p offset 128 d @ drop (offset + 128) (children_of p d) = drop offset (children_of p d)"
      by (metis add.commute append_take_drop_id drop_drop txListDir_def)
    then show ?thesis
      using "1.IH" [OF refl False] False by (subst listAllLoop.simps) simp
  qed
qed

lemma txListAllDir_children: "txListAllDir p d = children_of p d"
  by (simp add: txListAllDir_def listAllLoop_drop)

lemma set_children_of: "set (children_of p d) = {m \<in> set (mappings d). mr_parent m = p}"
  by (auto simp: children_of_def)

lemma distinct_children_names:
  assumes "tree_ok (mappings d)"
  shows "distinct (map mr_name (children_of p d))"
proof -
  have "distinct (mappings d)"
    using tree_okD(2) [OF assms] by (simp add: unique_by_def distinct_map)
  moreover have "inj_on mr_name (set (children_of p d))"
    using same_parent_name [OF assms] by (auto simp: inj_on_def set_children_of)
  ultimately show ?thesis
    by (simp add: distinct_map children_of_def)
qed

section \<open>Subtrees\<close>

definition in_subtree :: "mapping_row list \<Rightarrow> string list \<Rightarrow> mapping_row \<Rightarrow> bool" where
  "in_subtree ms xs m \<longleftrightarrow> (\<exists>ys. row_path ms m (xs @ ys))"

lemma row_path_under:
  assumes "tree_ok ms" and "row_path ms m zs"
  shows "in_subtree ms xs m \<longleftrightarrow> prefix xs zs"
proof
  assume "in_subtree ms xs m"
  then obtain ys where "row_path ms m (xs @ ys)" by (auto simp: in_subtree_def)
  then have "zs = xs @ ys" by (rule row_path_unique [OF assms])
  then show "prefix xs zs" by simp
next
  assume "prefix xs zs"
  then show "in_subtree ms xs m" using assms(2) by (auto simp: in_subtree_def prefix_def)
qed

lemma row_path_filter:
  assumes ok: "tree_ok ms" and keep: "\<forall>m zs. row_path ms m zs \<longrightarrow> (keep m \<longleftrightarrow> \<not> (\<exists>xs\<in>X. prefix xs zs))"
  shows "row_path (filter keep ms) m zs \<longleftrightarrow> row_path ms m zs \<and> \<not> (\<exists>xs\<in>X. prefix xs zs)"
proof
  assume "row_path (filter keep ms) m zs"
  then have "row_path ms m zs \<and> keep m"
  proof (induction rule: row_path.induct)
    case (root m)
    then show ?case using row_path.root [of m ms] by simp
  next
    case (child p xs m)
    then show ?case using row_path.child [of ms p xs m] by simp
  qed
  then show "row_path ms m zs \<and> \<not> (\<exists>xs\<in>X. prefix xs zs)" using keep by blast
next
  assume "row_path ms m zs \<and> \<not> (\<exists>xs\<in>X. prefix xs zs)"
  then have "row_path ms m zs" and "\<not> (\<exists>xs\<in>X. prefix xs zs)" by auto
  then show "row_path (filter keep ms) m zs"
  proof (induction rule: row_path.induct)
    case (root m)
    then show ?case
      using keep row_path.root [OF root(1,2)] row_path.root [of m "filter keep ms"] by simp
  next
    case (child p zs m)
    have "row_path ms m (zs @ [mr_name m])" using row_path.child [OF child.hyps(1-4)] .
    then have "keep m" using keep child.prems by blast
    moreover have "row_path (filter keep ms) p zs" using child.IH child.prems by auto
    ultimately show ?case using row_path.child [of "filter keep ms" p zs m] child.hyps by simp
  qed
qed

lemma tree_ok_filter:
  assumes ok: "tree_ok ms" and keep: "\<forall>m zs. row_path ms m zs \<longrightarrow> (keep m \<longleftrightarrow> \<not> (\<exists>xs\<in>X. prefix xs zs))"
  shows "tree_ok (filter keep ms)"
proof -
  have "\<exists>zs. row_path (filter keep ms) m zs" if "m \<in> set (filter keep ms)" for m
  proof -
    have "m \<in> set ms" "keep m" using that by auto
    then obtain zs where "row_path ms m zs" using tree_okD(6) [OF ok] by blast
    moreover from this have "\<not> (\<exists>xs\<in>X. prefix xs zs)" using keep \<open>keep m\<close> by blast
    ultimately show ?thesis using row_path_filter [OF ok keep] by blast
  qed
  then show ?thesis
    using ok by (auto simp: tree_ok_def unique_by_filter)
qed

lemma keep_not_under:
  assumes "tree_ok ms"
  shows "\<forall>m zs. row_path ms m zs \<longrightarrow> (\<not> in_subtree ms xs m \<longleftrightarrow> \<not> (\<exists>ys\<in>{xs}. prefix ys zs))"
  using row_path_under [OF assms] by simp

text \<open>The longest path bounds the depth of every recursion, and it is at most the number of rows.\<close>

lemma row_path_length:
  assumes ok: "tree_ok ms" and "row_path ms m zs"
  shows "length zs \<le> length ms"
proof -
  have "\<exists>S. S \<subseteq> set ms \<and> card S = length zs \<and> (\<forall>x\<in>S. \<exists>ys. row_path ms x ys \<and> length ys \<le> length zs)"
    using assms(2)
  proof (induction rule: row_path.induct)
    case (root m)
    then show ?case by (intro exI [of _ "{m}"]) (auto intro!: exI [of _ "[mr_name m]"] row_path.root)
  next
    case (child p zs m)
    then obtain S where S: "S \<subseteq> set ms" "card S = length zs"
      "\<forall>x\<in>S. \<exists>ys. row_path ms x ys \<and> length ys \<le> length zs" by blast
    have path: "row_path ms m (zs @ [mr_name m])" using row_path.child [OF child.hyps(1-4)] .
    have "m \<notin> S"
    proof
      assume "m \<in> S"
      then obtain ys where ys: "row_path ms m ys" "length ys \<le> length zs" using S(3) by blast
      then have "ys = zs @ [mr_name m]" using row_path_unique [OF ok _ path] by blast
      then show False using ys(2) by simp
    qed
    moreover have "finite S" using S(1) finite_subset by blast
    ultimately have "card (insert m S) = length (zs @ [mr_name m])" using S(2) by simp
    moreover have "\<exists>ys. row_path ms x ys \<and> length ys \<le> length (zs @ [mr_name m])" if "x \<in> insert m S" for x
      using that path S(3) by (metis insertE le_SucI length_append_singleton order_refl)
    ultimately show ?case using S(1) child.hyps(3) by (intro exI [of _ "insert m S"]) simp
  qed
  then obtain S where "S \<subseteq> set ms" "card S = length zs" by blast
  then have "length zs \<le> card (set ms)" by (metis card_mono finite_set)
  then show ?thesis using card_length le_trans by blast
qed

lemma child_path:
  assumes ok: "tree_ok (mappings d)" and e: "row_path (mappings d) e xs" "mr_kind e = KindDir"
  shows "c \<in> set (children_of (mr_entry_id e) d) \<longleftrightarrow> row_path (mappings d) c (xs @ [mr_name c])"
proof
  assume "c \<in> set (children_of (mr_entry_id e) d)"
  then show "row_path (mappings d) c (xs @ [mr_name c])"
    using row_path.child [OF e, of c] by (simp add: set_children_of)
next
  assume "row_path (mappings d) c (xs @ [mr_name c])"
  then obtain p where "row_path (mappings d) p xs" "mr_parent c = mr_entry_id p" "c \<in> set (mappings d)"
    using row_path_snoc [of "mappings d" c xs "mr_name c"] row_path_nonempty [OF e(1)] by auto
  then show "c \<in> set (children_of (mr_entry_id e) d)"
    using row_path_inj [OF ok e(1)] by (simp add: set_children_of)
qed

text \<open>What lies under an entry: the entry itself and what lies under its children.\<close>

lemma under_children:
  assumes ok: "tree_ok (mappings d)" and e: "row_path (mappings d) e xs" and m: "m \<in> set (mappings d)"
  shows "in_subtree (mappings d) xs m \<longleftrightarrow> m = e \<or>
    (mr_kind e = KindDir \<and> (\<exists>c\<in>set (children_of (mr_entry_id e) d). in_subtree (mappings d) (xs @ [mr_name c]) m))"
proof
  assume "in_subtree (mappings d) xs m"
  then obtain ys where ys: "row_path (mappings d) m (xs @ ys)" by (auto simp: in_subtree_def)
  show "m = e \<or> (mr_kind e = KindDir \<and>
    (\<exists>c\<in>set (children_of (mr_entry_id e) d). in_subtree (mappings d) (xs @ [mr_name c]) m))"
  proof (cases ys)
    case Nil
    then show ?thesis using ys row_path_inj [OF ok e] by simp
  next
    case (Cons y ys')
    have "mr_kind e = KindDir"
      using row_path_prefix [OF ys row_path_nonempty [OF e]] row_path_inj [OF ok e] Cons by auto
    moreover obtain c where c: "row_path (mappings d) c (xs @ [y])"
      using row_path_prefix [of "mappings d" m "xs @ [y]" ys'] ys Cons by auto
    then have "mr_name c = y" using row_path_snoc by blast
    moreover have "in_subtree (mappings d) (xs @ [y]) m" using ys Cons by (auto simp: in_subtree_def)
    ultimately show ?thesis using child_path [OF ok e, of c] c by blast
  qed
next
  assume "m = e \<or> (mr_kind e = KindDir \<and>
    (\<exists>c\<in>set (children_of (mr_entry_id e) d). in_subtree (mappings d) (xs @ [mr_name c]) m))"
  then show "in_subtree (mappings d) xs m"
  proof
    assume "m = e"
    then show ?thesis using e by (auto simp: in_subtree_def intro!: exI [of _ "[]"])
  next
    assume "mr_kind e = KindDir \<and> (\<exists>c\<in>set (children_of (mr_entry_id e) d). in_subtree (mappings d) (xs @ [mr_name c]) m)"
    then show ?thesis by (auto simp: in_subtree_def)
  qed
qed

section \<open>Removing a subtree\<close>

text \<open>Directory operations touch the mapping table, the change log and their counters only.\<close>

definition dir_frame :: "db \<Rightarrow> db \<Rightarrow> bool" where
  "dir_frame d d' \<longleftrightarrow>
     d' = d\<lparr>mappings := mappings d', changes := changes d', mapping_seq := mapping_seq d',
            change_seq := change_seq d', id_seq := id_seq d'\<rparr>"

lemma dir_frame_refl: "dir_frame d d"
  by (simp add: dir_frame_def)

lemma dir_frame_trans: "dir_frame d e \<Longrightarrow> dir_frame e f \<Longrightarrow> dir_frame d f"
  unfolding dir_frame_def by (cases d, cases e, cases f) simp

lemma dir_frame_steps:
  "dir_frame d (recordChange p k now d)" "dir_frame d (touchEntryID e t d)" "dir_frame d (txRemove q n d)"
  by (simp_all add: dir_frame_def recordChange_def touchEntryID_def txRemove_def)

text \<open>
  \<open>subtree_removed\<close> relates the state before and after: the rows under the path are gone,
  they are what was collected, and nothing else changed.
\<close>

definition subtree_removed ::
  "string list set \<Rightarrow> mapping_row list \<times> db \<Rightarrow> mapping_row list \<times> db \<Rightarrow> bool" where
  "subtree_removed X s t \<longleftrightarrow>
     mappings (snd t) = filter (\<lambda>m. \<not> (\<exists>xs\<in>X. in_subtree (mappings (snd s)) xs m)) (mappings (snd s)) \<and>
     set (fst t) = set (fst s) \<union> {m \<in> set (mappings (snd s)). \<exists>xs\<in>X. in_subtree (mappings (snd s)) xs m} \<and>
     dir_frame (snd s) (snd t) \<and> id_seq (snd t) = id_seq (snd s)"

lemma subtree_removed_tree:
  assumes ok: "tree_ok (mappings (snd s))" and rem: "subtree_removed X s t"
  shows "tree_ok (mappings (snd t))"
    and "row_path (mappings (snd t)) m zs \<longleftrightarrow>
           row_path (mappings (snd s)) m zs \<and> \<not> (\<exists>xs\<in>X. prefix xs zs)"
proof -
  have keep: "\<forall>m zs. row_path (mappings (snd s)) m zs \<longrightarrow>
      ((\<not> (\<exists>xs\<in>X. in_subtree (mappings (snd s)) xs m)) \<longleftrightarrow> \<not> (\<exists>xs\<in>X. prefix xs zs))"
    using row_path_under [OF ok] by blast
  have t: "mappings (snd t) = filter (\<lambda>m. \<not> (\<exists>xs\<in>X. in_subtree (mappings (snd s)) xs m)) (mappings (snd s))"
    using rem by (simp add: subtree_removed_def)
  show "tree_ok (mappings (snd t))" unfolding t by (rule tree_ok_filter [OF ok keep])
  show "row_path (mappings (snd t)) m zs \<longleftrightarrow>
      row_path (mappings (snd s)) m zs \<and> \<not> (\<exists>xs\<in>X. prefix xs zs)"
    unfolding t by (rule row_path_filter [OF ok keep])
qed

lemma subtree_removed_in_subtree:
  assumes ok: "tree_ok (mappings (snd s))" and rem: "subtree_removed X s t"
    and apart: "\<And>xs. xs \<in> X \<Longrightarrow> \<not> prefix xs ys \<and> \<not> prefix ys xs" and m: "m \<in> set (mappings (snd s))"
  shows "in_subtree (mappings (snd t)) ys m \<longleftrightarrow> in_subtree (mappings (snd s)) ys m"
proof -
  have "\<not> (\<exists>xs\<in>X. prefix xs (ys @ zs))" for zs
    using apart by (fastforce simp: prefix_append)
  then show ?thesis by (simp add: in_subtree_def subtree_removed_tree(2) [OF ok rem])
qed

lemma subtree_removed_comp:
  assumes ok: "tree_ok (mappings (snd s))" and st: "subtree_removed X s t" and tu: "subtree_removed Y t u"
    and apart: "\<And>xs ys. xs \<in> X \<Longrightarrow> ys \<in> Y \<Longrightarrow> \<not> prefix xs ys \<and> \<not> prefix ys xs"
  shows "subtree_removed (X \<union> Y) s u"
proof -
  have sub: "in_subtree (mappings (snd t)) ys m \<longleftrightarrow> in_subtree (mappings (snd s)) ys m"
    if "ys \<in> Y" "m \<in> set (mappings (snd s))" for ys m
    using subtree_removed_in_subtree [OF ok st _ that(2)] apart that(1) by blast
  have t: "mappings (snd t) = filter (\<lambda>m. \<not> (\<exists>xs\<in>X. in_subtree (mappings (snd s)) xs m)) (mappings (snd s))"
    "set (fst t) = set (fst s) \<union> {m \<in> set (mappings (snd s)). \<exists>xs\<in>X. in_subtree (mappings (snd s)) xs m}"
    using st by (simp_all add: subtree_removed_def)
  have u: "mappings (snd u) = filter (\<lambda>m. \<not> (\<exists>ys\<in>Y. in_subtree (mappings (snd t)) ys m)) (mappings (snd t))"
    "set (fst u) = set (fst t) \<union> {m \<in> set (mappings (snd t)). \<exists>ys\<in>Y. in_subtree (mappings (snd t)) ys m}"
    using tu by (simp_all add: subtree_removed_def)
  have disj: "\<not> (\<exists>xs\<in>X. in_subtree (mappings (snd s)) xs m)"
    if ys: "ys \<in> Y" "m \<in> set (mappings (snd s))" "in_subtree (mappings (snd s)) ys m" for ys m
  proof
    assume "\<exists>xs\<in>X. in_subtree (mappings (snd s)) xs m"
    then obtain xs where xs: "xs \<in> X" "in_subtree (mappings (snd s)) xs m" by blast
    obtain zs where "row_path (mappings (snd s)) m zs" using tree_okD(6) [OF ok ys(2)] by blast
    then have "prefix xs zs" "prefix ys zs" using row_path_under [OF ok] xs ys(3) by blast+
    then show False using prefix_same_cases apart [OF xs(1) ys(1)] by blast
  qed
  have "mappings (snd u) = filter (\<lambda>m. \<not> (\<exists>xs\<in>X \<union> Y. in_subtree (mappings (snd s)) xs m)) (mappings (snd s))"
  proof -
    have mem: "m \<in> set (mappings (snd s))" if "m \<in> set (mappings (snd t))" for m
      using that t(1) by simp
    have "mappings (snd u) = filter (\<lambda>m. \<not> (\<exists>ys\<in>Y. in_subtree (mappings (snd s)) ys m)) (mappings (snd t))"
      unfolding u(1) by (rule filter_cong [OF refl]) (use sub mem in blast)
    also have "\<dots> = filter (\<lambda>m. \<not> (\<exists>xs\<in>X. in_subtree (mappings (snd s)) xs m) \<and>
        \<not> (\<exists>ys\<in>Y. in_subtree (mappings (snd s)) ys m)) (mappings (snd s))"
      unfolding t(1) filter_filter by (rule refl)
    also have "\<dots> = filter (\<lambda>m. \<not> (\<exists>xs\<in>X \<union> Y. in_subtree (mappings (snd s)) xs m)) (mappings (snd s))"
      by (rule filter_cong [OF refl]) blast
    finally show ?thesis .
  qed
  moreover have "set (fst u) = set (fst s) \<union> {m \<in> set (mappings (snd s)). \<exists>xs\<in>X \<union> Y. in_subtree (mappings (snd s)) xs m}"
  proof -
    have mem: "m \<in> set (mappings (snd t)) \<longleftrightarrow>
        m \<in> set (mappings (snd s)) \<and> \<not> (\<exists>xs\<in>X. in_subtree (mappings (snd s)) xs m)" for m
      unfolding t(1) by simp
    have "{m \<in> set (mappings (snd t)). \<exists>ys\<in>Y. in_subtree (mappings (snd t)) ys m}
        = {m \<in> set (mappings (snd s)). \<exists>ys\<in>Y. in_subtree (mappings (snd s)) ys m}"
      unfolding mem using sub disj by blast
    then show ?thesis unfolding u(2) t(2) by blast
  qed
  moreover have "dir_frame (snd s) (snd u)" "id_seq (snd u) = id_seq (snd s)"
    using st tu dir_frame_trans by (auto simp: subtree_removed_def)
  ultimately show ?thesis by (simp add: subtree_removed_def)
qed

lemma subtree_removed_empty: "subtree_removed {} s s"
  by (simp add: subtree_removed_def dir_frame_refl)

lemma sibling_apart: "b \<noteq> c \<Longrightarrow> \<not> prefix (xs @ [b]) (xs @ [c]) \<and> \<not> prefix (xs @ [c]) (xs @ [b])"
  by simp

lemma subtree_removed_entry:
  assumes ok: "tree_ok (mappings (snd s))" and e: "row_path (mappings (snd s)) e xs"
    and X: "X = (if mr_kind e = KindDir
                 then (\<lambda>c. xs @ [mr_name c]) ` set (children_of (mr_entry_id e) (snd s)) else {})"
    and st: "subtree_removed X s t"
  shows "subtree_removed {xs} s
    (fst t @ [e], txRemove (mr_parent e) (mr_name e) (recordChange p k now (snd t)))"
proof -
  let ?ms = "mappings (snd s)"
  have split: "in_subtree ?ms xs m \<longleftrightarrow> m = e \<or> (\<exists>ys\<in>X. in_subtree ?ms ys m)" if "m \<in> set ?ms" for m
    using under_children [OF ok e that] by (auto simp: X)
  have is_e: "mr_parent m = mr_parent e \<and> mr_name m = mr_name e \<longleftrightarrow> m = e" if "m \<in> set ?ms" for m
    using same_parent_name [OF ok that row_path_in [OF e]] by blast
  have t: "mappings (snd t) = filter (\<lambda>m. \<not> (\<exists>ys\<in>X. in_subtree ?ms ys m)) ?ms"
    "set (fst t) = set (fst s) \<union> {m \<in> set ?ms. \<exists>ys\<in>X. in_subtree ?ms ys m}"
    "dir_frame (snd s) (snd t)" "id_seq (snd t) = id_seq (snd s)"
    using st by (simp_all add: subtree_removed_def)
  have "filter (\<lambda>m. \<not> (mr_parent m = mr_parent e \<and> mr_name m = mr_name e)) (mappings (snd t))
      = filter (\<lambda>m. \<not> (\<exists>ys\<in>{xs}. in_subtree ?ms ys m)) ?ms"
    unfolding t(1) filter_filter by (rule filter_cong [OF refl]) (use split is_e in blast)
  moreover have "set (fst t @ [e]) = set (fst s) \<union> {m \<in> set ?ms. \<exists>ys\<in>{xs}. in_subtree ?ms ys m}"
    using t(2) split row_path_in [OF e] by auto
  moreover have "dir_frame (snd s) (txRemove (mr_parent e) (mr_name e) (recordChange p k now (snd t)))"
    using dir_frame_trans [OF dir_frame_trans [OF t(3) dir_frame_steps(1)] dir_frame_steps(3)] .
  ultimately show ?thesis
    using t(4) by (simp add: subtree_removed_def txRemove_def recordChange_def)
qed

lemma subtree_removed_bound:
  assumes "tree_ok (mappings (snd s))" and "subtree_removed X s t"
    and "\<And>m zs. row_path (mappings (snd s)) m zs \<Longrightarrow> length zs \<le> N"
  shows "row_path (mappings (snd t)) m zs \<Longrightarrow> length zs \<le> N"
  using subtree_removed_tree(2) [OF assms(1,2)] assms(3) by blast

lemma remove_children:
  assumes step: "\<And>p e xs s. tree_ok (mappings (snd s)) \<Longrightarrow> row_path (mappings (snd s)) e xs \<Longrightarrow>
      (\<And>m zs. row_path (mappings (snd s)) m zs \<Longrightarrow> length zs \<le> N) \<Longrightarrow> N < depth + length xs \<Longrightarrow>
      \<exists>t. collectAndRemove depth now p e s = Inr t \<and> subtree_removed {xs} s t"
    and "tree_ok (mappings (snd s))" and "\<And>m zs. row_path (mappings (snd s)) m zs \<Longrightarrow> length zs \<le> N"
    and "N < depth + Suc (length xs)" and "distinct (map mr_name cs)"
    and "\<And>c. c \<in> set cs \<Longrightarrow> row_path (mappings (snd s)) c (xs @ [mr_name c])"
  shows "\<exists>t. fold_result (\<lambda>child. collectAndRemove depth now (f child) child) cs s = Inr t \<and>
             subtree_removed ((\<lambda>c. xs @ [mr_name c]) ` set cs) s t"
  using assms(2-)
proof (induction cs arbitrary: s)
  case Nil
  then show ?case using subtree_removed_empty by simp
next
  case (Cons c cs)
  obtain t where t: "collectAndRemove depth now (f c) c s = Inr t" "subtree_removed {xs @ [mr_name c]} s t"
    using step [of s c "xs @ [mr_name c]" "f c"] Cons.prems by auto
  have rest: "row_path (mappings (snd t)) c' (xs @ [mr_name c'])" if "c' \<in> set cs" for c'
  proof -
    have "mr_name c \<noteq> mr_name c'" using that Cons.prems(4) by auto
    then show ?thesis
      using subtree_removed_tree(2) [OF Cons.prems(1) t(2)] Cons.prems(5) [of c'] that by simp
  qed
  have "\<exists>u. fold_result (\<lambda>child. collectAndRemove depth now (f child) child) cs t = Inr u \<and>
      subtree_removed ((\<lambda>c. xs @ [mr_name c]) ` set cs) t u"
  proof (rule Cons.IH)
    show "tree_ok (mappings (snd t))" by (rule subtree_removed_tree(1) [OF Cons.prems(1) t(2)])
    show "length zs \<le> N" if "row_path (mappings (snd t)) m zs" for m zs
      using subtree_removed_bound [OF Cons.prems(1) t(2)] Cons.prems(2) that by blast
  qed (use Cons.prems rest in auto)
  then obtain u where u: "fold_result (\<lambda>child. collectAndRemove depth now (f child) child) cs t = Inr u"
    "subtree_removed ((\<lambda>c. xs @ [mr_name c]) ` set cs) t u" by blast
  have "subtree_removed ({xs @ [mr_name c]} \<union> (\<lambda>c. xs @ [mr_name c]) ` set cs) s u"
    by (rule subtree_removed_comp [OF Cons.prems(1) t(2) u(2)])
       (use Cons.prems(4) in \<open>force simp: image_iff\<close>)
  then show ?case using t(1) u(1) by simp
qed

lemma collectAndRemove_removes:
  assumes "tree_ok (mappings (snd s))" and "row_path (mappings (snd s)) e xs"
    and "\<And>m zs. row_path (mappings (snd s)) m zs \<Longrightarrow> length zs \<le> N" and "N < depth + length xs"
  shows "\<exists>t. collectAndRemove depth now p e s = Inr t \<and> subtree_removed {xs} s t"
  using assms
proof (induction depth arbitrary: p e xs s)
  case 0
  then have "length xs \<le> N" by blast
  then show ?case using "0.prems"(4) by simp
next
  case (Suc depth)
  let ?X = "if mr_kind e = KindDir
            then (\<lambda>c. xs @ [mr_name c]) ` set (children_of (mr_entry_id e) (snd s)) else {}"
  have "\<exists>t. (if mr_kind e = KindDir
      then fold_result (\<lambda>child. collectAndRemove depth now (Join [p, mr_name child]) child)
             (txListAllDir (mr_entry_id e) (snd s)) s
      else Inr s) = Inr t \<and> subtree_removed ?X s t"
  proof (cases "mr_kind e = KindDir")
    case True
    have "\<exists>t. fold_result (\<lambda>child. collectAndRemove depth now (Join [p, mr_name child]) child)
        (children_of (mr_entry_id e) (snd s)) s = Inr t \<and>
        subtree_removed ((\<lambda>c. xs @ [mr_name c]) ` set (children_of (mr_entry_id e) (snd s))) s t"
    proof (rule remove_children [where N = N])
      show "tree_ok (mappings (snd s))" by (rule Suc.prems(1))
      show "distinct (map mr_name (children_of (mr_entry_id e) (snd s)))"
        by (rule distinct_children_names [OF Suc.prems(1)])
      show "row_path (mappings (snd s)) c (xs @ [mr_name c])"
        if "c \<in> set (children_of (mr_entry_id e) (snd s))" for c
        using child_path [OF Suc.prems(1,2) True] that by blast
    qed (use Suc.IH Suc.prems(3,4) in auto)
    then show ?thesis using True by (simp add: txListAllDir_children)
  next
    case False
    then show ?thesis using subtree_removed_empty by simp
  qed
  then obtain t where t: "(if mr_kind e = KindDir
      then fold_result (\<lambda>child. collectAndRemove depth now (Join [p, mr_name child]) child)
             (txListAllDir (mr_entry_id e) (snd s)) s
      else Inr s) = Inr t" "subtree_removed ?X s t" by blast
  show ?case
    using t(1) subtree_removed_entry [OF Suc.prems(1,2) refl t(2), of p ChangeDeleted now]
    by (simp add: case_prod_unfold)
qed

lemma collectAndRemove_whole:
  assumes ok: "tree_ok (mappings d)" and e: "row_path (mappings d) e xs"
  shows "\<exists>t. collectAndRemove (length (mappings d) + 1) now p e (removed, d) = Inr t \<and>
             subtree_removed {xs} (removed, d) t"
proof (rule collectAndRemove_removes [where N = "length (mappings d)"])
  show "length zs \<le> length (mappings d)" if "row_path (mappings (snd (removed, d))) m zs" for m zs
    using row_path_length ok that by simp
qed (use assms in auto)

lemma txGetEntryInfo_found:
  assumes "absolute p" and "lookup d (items p) = Some e"
  shows "\<exists>q. txGetEntryInfo p d = Inr (q, Some e)"
proof (cases "txGetEntryInfo p d")
  case (Inl x)
  then show ?thesis using txGetEntryInfo_lookup(2) [OF assms(1)] assms(2) by simp
next
  case (Inr qe)
  then show ?thesis
    using txGetEntryInfo_lookup(1) [OF assms(1), of d "fst qe" "snd qe"] assms(2) by (cases qe) auto
qed

lemma absolute_abs_path [simp]: "absolute (abs_path cs)"
  by (simp add: absolute_def abs_path_def)

lemma Dir_root: "Dir (abs_path []) = abs_path []"
  by (simp add: Dir_def abs_path_def Clean_def clean_elems_def clean_step_def)

text \<open>Stamping the parent succeeds as soon as the parent is there.\<close>

lemma touchParent_total:
  assumes p: "absolute p" and parent: "components p \<noteq> [] \<Longrightarrow> lookup d (butlast (items p)) \<noteq> None"
  shows "\<exists>d'. touchParent p t d = Inr d'"
proof (cases "components p" rule: rev_cases)
  case Nil
  then have "txGetEntryInfo (Dir (Clean p)) d = Inr (0, lookup d [''/''])"
    using Clean_components [OF p] txGetEntryInfo_root [of "abs_path []" d] Clean_abs_path [of "[]"]
    by (simp add: Dir_root)
  then show ?thesis by (simp add: touchParent_def split: option.split)
next
  case (snoc cs c)
  have n: "\<forall>c\<in>set (cs @ [c]). normal c" using components_normal [of p] snoc by simp
  have dir: "Dir (Clean p) = abs_path cs" using Clean_components [OF p] snoc Dir_abs_path [OF n] by simp
  have "items (abs_path cs) = butlast (items p)" using n snoc by (simp add: items_def butlast_append)
  then obtain e where "lookup d (items (abs_path cs)) = Some e" using parent snoc by auto
  then obtain q where "txGetEntryInfo (abs_path cs) d = Inr (q, Some e)"
    using txGetEntryInfo_found [of "abs_path cs" d] by auto
  then show ?thesis by (simp add: touchParent_def dir)
qed

lemma dir_ok_removed:
  assumes "dir_ok idfn d" and "subtree_removed X (l, d) t"
  shows "dir_ok idfn (snd t)"
  using assms subtree_removed_tree(1) [of "(l, d)" X t] by (auto simp: dir_ok_def subtree_removed_def)

lemma dir_frame_touchParent: "touchParent p t d = Inr d' \<Longrightarrow> dir_frame d d'"
  by (auto simp: touchParent_def dir_frame_refl dir_frame_steps split: sum.splits if_splits option.splits prod.splits)

lemma lookup_removed:
  assumes ok: "tree_ok (mappings d)" and rem: "subtree_removed {xs} (l, d) t"
  shows "lookup (snd t) zs = (if prefix xs zs then None else lookup d zs)"
proof -
  have ok': "tree_ok (mappings (snd t))" using subtree_removed_tree(1) [OF _ rem] ok by simp
  have path: "row_path (mappings (snd t)) m zs \<longleftrightarrow> row_path (mappings d) m zs \<and> \<not> prefix xs zs" for m
    using subtree_removed_tree(2) [OF _ rem, of m zs] ok by simp
  show ?thesis
  proof (cases "prefix xs zs")
    case True
    then show ?thesis using path lookup_None [OF ok'] by simp
  next
    case False
    then have "lookup (snd t) zs = lookup d zs" using path by (intro lookup_eqI [OF ok ok']) simp
    then show ?thesis using False by simp
  qed
qed

lemma txRemoveTree_tree:
  assumes ok: "dir_ok idfn d" and p: "absolute p" and e: "lookup d (items p) = Some e"
  shows "\<exists>removed d'. txRemoveTree now p d = Inr (removed, d') \<and> dir_ok idfn d' \<and> dir_frame d d' \<and>
    set removed = {m \<in> set (mappings d). in_subtree (mappings d) (items p) m} \<and>
    (\<forall>zs. entries d' zs = (if prefix (items p) zs then None else entries d zs))"
proof -
  note tree = dir_okD [OF ok]
  obtain q where info: "txGetEntryInfo p d = Inr (q, Some e)"
    using txGetEntryInfo_found [OF p e] by blast
  have path: "row_path (mappings d) e (items p)" using lookup_path [OF tree] e by blast
  obtain t where t: "collectAndRemove (length (mappings d) + 1) now (Clean p) e ([], d) = Inr t"
    and rem: "subtree_removed {items p} ([], d) t"
    using collectAndRemove_whole [OF tree path] by blast
  have ok_t: "dir_ok idfn (snd t)" by (rule dir_ok_removed [OF ok rem])
  have "lookup (snd t) (butlast (items p)) \<noteq> None" if "components p \<noteq> []"
  proof -
    have bl: "butlast (items p) \<noteq> []" "butlast (items p) @ [last (items p)] = items p"
      using that by (simp_all add: items_def)
    then obtain e' where "row_path (mappings d) e' (butlast (items p))"
      using row_path_prefix [of "mappings d" e "butlast (items p)" "[last (items p)]"] path by auto
    moreover have "\<not> prefix (items p) (butlast (items p))"
      using bl(2) by (metis length_append_singleton lessI not_le prefix_length_le)
    ultimately show ?thesis using lookup_removed [OF tree rem] lookup_None [OF tree] by auto
  qed
  then obtain d' where d': "touchParent p now (snd t) = Inr d'"
    using touchParent_total [OF p] by blast
  have "entries d' = entries (snd t)" using touchParent_tree(2) [OF dir_okD [OF ok_t] d'] .
  then have "\<forall>zs. entries d' zs = (if prefix (items p) zs then None else entries d zs)"
    using lookup_removed [OF tree rem] by (simp add: entries_def)
  moreover have "dir_frame d d'"
    using rem dir_frame_trans dir_frame_touchParent [OF d'] by (auto simp: subtree_removed_def)
  moreover have "set (fst t) = {m \<in> set (mappings d). in_subtree (mappings d) (items p) m}"
    using rem by (simp add: subtree_removed_def)
  moreover have "txRemoveTree now p d = Inr (fst t, d')"
    using info t d' by (simp add: txRemoveTree_def case_prod_unfold)
  ultimately show ?thesis using dir_ok_touchParent [OF ok_t d'] by blast
qed

end
