(* ===== verification/Directory_Move.thy ===== *)
theory Directory_Move
  imports Directory_Subtree
begin

text \<open>
  Moving a subtree (\<open>txMove\<close> of \<^verbatim>\<open>directory/db_directory.go\<close>).  A move changes the parent
  and the name of one row; here its effect on the map from paths to entries is derived: the
  whole subtree appears below the destination, is gone from the source, and every other path
  leads where it led before.
\<close>

section \<open>Moving a subtree\<close>

definition reparent :: "nat \<Rightarrow> nat \<Rightarrow> string \<Rightarrow> mapping_row \<Rightarrow> mapping_row" where
  "reparent eid pid c m = (if mr_entry_id m = eid then m\<lparr>mr_parent := pid, mr_name := c\<rparr> else m)"

lemma reparent_simps [simp]:
  "mr_entry_id (reparent eid pid c m) = mr_entry_id m" "mr_kind (reparent eid pid c m) = mr_kind m"
  "mr_size (reparent eid pid c m) = mr_size m" "mr_ref_data (reparent eid pid c m) = mr_ref_data m"
  "mr_mode (reparent eid pid c m) = mr_mode m" "mr_ctime (reparent eid pid c m) = mr_ctime m"
  by (simp_all add: reparent_def)

text \<open>Where a path leads after the subtree at \<open>xs\<close> has been hung below \<open>ys\<close>.\<close>

definition shift :: "string list \<Rightarrow> string list \<Rightarrow> string list \<Rightarrow> string list" where
  "shift xs ys zs = (if prefix xs zs then ys @ drop (length xs) zs else zs)"

lemma reparent_paths:
  assumes ok: "tree_ok ms" and e: "row_path ms e xs" and p: "row_path ms p P" "mr_kind p = KindDir"
    and apart: "\<not> prefix xs P"
  shows "row_path ms m zs \<Longrightarrow>
    row_path (map (reparent (mr_entry_id e) (mr_entry_id p) c) ms)
      (reparent (mr_entry_id e) (mr_entry_id p) c m) (shift xs (P @ [c]) zs)"
proof -
  let ?f = "reparent (mr_entry_id e) (mr_entry_id p) c"
  have out: "row_path ms m zs \<Longrightarrow> \<not> prefix xs zs \<Longrightarrow> row_path (map ?f ms) (?f m) zs" for m zs
  proof (induction rule: row_path.induct)
    case (root m)
    then have "m \<noteq> e" using row_path.root [OF root(1,2)] row_path_unique [OF ok e] by auto
    then have "?f m = m" using same_entry_id [OF ok root(1) row_path_in [OF e]] by (auto simp: reparent_def)
    then show ?case using root row_path.root [of m "map ?f ms"] by (metis imageI list.set_map)
  next
    case (child q zs m)
    have path: "row_path ms m (zs @ [mr_name m])" using row_path.child [OF child.hyps(1-4)] .
    have "m \<noteq> e" using path row_path_unique [OF ok e] child.prems by auto
    then have fm: "?f m = m" using same_entry_id [OF ok child.hyps(3) row_path_in [OF e]] by (auto simp: reparent_def)
    have in': "m \<in> set (map ?f ms)" using child.hyps(3) fm by (metis imageI list.set_map)
    have "row_path (map ?f ms) (?f q) zs" using child.IH child.prems by auto
    then show ?case
      using row_path.child [of "map ?f ms" "?f q" zs m] child.hyps fm in' by simp
  qed
  have p': "row_path (map ?f ms) (?f p) P" by (rule out [OF p(1) apart])
  have "mr_parent (?f e) = mr_entry_id p" "mr_name (?f e) = c" by (simp_all add: reparent_def)
  then have e': "row_path (map ?f ms) (?f e) (P @ [c])"
    using row_path.child [OF p', of "?f e"] p(2) row_path_in [OF e] by simp
  have "row_path (map ?f ms) (?f m) ((P @ [c]) @ ys)" if "row_path ms m (xs @ ys)" for m ys
    using that
  proof (induction ys arbitrary: m rule: rev_induct)
    case Nil
    then show ?case using row_path_inj [OF ok e] e' by simp
  next
    case (snoc y ys)
    have ne: "xs @ ys \<noteq> []" using row_path_nonempty [OF e] by simp
    from row_path_snoc [of ms m "xs @ ys" y] snoc.prems ne obtain q where
      m: "m \<in> set ms" "mr_name m = y" and q: "row_path ms q (xs @ ys)" "mr_kind q = KindDir" "mr_parent m = mr_entry_id q"
      by auto
    have "m \<noteq> e" using snoc.prems row_path_unique [OF ok e] by auto
    then have fm: "?f m = m" using same_entry_id [OF ok m(1) row_path_in [OF e]] by (auto simp: reparent_def)
    have "m \<in> set (map ?f ms)" using m(1) fm by (metis imageI list.set_map)
    then show ?case
      using row_path.child [OF snoc.IH [OF q(1)], of m] q m(2) fm by simp
  qed
  then show "row_path ms m zs \<Longrightarrow> row_path (map ?f ms) (?f m) (shift xs (P @ [c]) zs)"
    using out by (auto simp: shift_def prefix_def)
qed

lemma reparent_tree:
  assumes ok: "tree_ok ms" and e: "row_path ms e xs" and p: "row_path ms p P" "mr_kind p = KindDir"
    and apart: "\<not> prefix xs P"
    and free: "\<not> (\<exists>m\<in>set ms. mr_parent m = mr_entry_id p \<and> mr_name m = c)"
  shows "tree_ok (map (reparent (mr_entry_id e) (mr_entry_id p) c) ms)"
proof -
  let ?f = "reparent (mr_entry_id e) (mr_entry_id p) c"
  note paths = reparent_paths [OF ok e p apart, of _ _ c]
  have pid: "mr_entry_id p \<noteq> 0" using tree_okD(3) [OF ok row_path_in [OF p(1)]] .
  have "inj_on (\<lambda>m. (mr_parent (?f m), mr_name (?f m))) (set ms)"
  proof (rule inj_onI)
    fix m m' assume m: "m \<in> set ms" "m' \<in> set ms"
      and eq: "(mr_parent (?f m), mr_name (?f m)) = (mr_parent (?f m'), mr_name (?f m'))"
    show "m = m'"
      using same_parent_name [OF ok m] same_entry_id [OF ok m] eq free m
      by (cases "mr_entry_id m = mr_entry_id e"; cases "mr_entry_id m' = mr_entry_id e")
         (auto simp: reparent_def)
  qed
  moreover have "distinct ms" using tree_okD(2) [OF ok] by (simp add: unique_by_def distinct_map)
  ultimately have "unique_by (\<lambda>m. (mr_parent m, mr_name m)) (map ?f ms)"
    by (simp add: unique_by_def distinct_map comp_inj_on_iff inj_on_def comp_def)
  moreover have "unique_by mr_entry_id (map ?f ms)"
    using tree_okD(2) [OF ok] by (subst unique_by_map) auto
  moreover have "\<exists>zs. row_path (map ?f ms) m zs" if "m \<in> set (map ?f ms)" for m
    using that tree_okD(6) [OF ok] paths by fastforce
  moreover have "mr_name m = ''/'' \<and> mr_kind m = KindDir" if m: "m \<in> set (map ?f ms)" "mr_parent m = 0" for m
  proof -
    obtain n where n: "n \<in> set ms" "m = ?f n" using m(1) by auto
    then have "?f n = n" using m(2) pid by (auto simp: reparent_def split: if_splits)
    then show ?thesis using n m(2) tree_okD(4) [OF ok, of n] by simp
  qed
  ultimately show ?thesis
    using tree_okD(3,5) [OF ok] by (auto simp: tree_ok_def)
qed

text \<open>What a move does to the map of paths.\<close>

definition payload :: "mapping_row \<Rightarrow> nat \<times> nat \<times> string \<times> int \<times> nat \<times> int" where
  "payload m = (mr_entry_id m, mr_kind m, mr_ref_data m, mr_size m, mr_mode m, mr_ctime m)"

definition contents :: "db \<Rightarrow> string list \<Rightarrow> (nat \<times> nat \<times> string \<times> int \<times> nat \<times> int) option" where
  "contents d zs = map_option payload (lookup d zs)"

lemma contents_entries: "entries d' zs = entries d zs' \<Longrightarrow> contents d' zs = contents d zs'"
proof -
  have "payload m = payload (bare m)" for m by (simp add: payload_def bare_def)
  then have "contents d zs = map_option payload (entries d zs)" for d zs
    by (simp add: contents_def entries_def option.map_comp comp_def)
  then show "entries d' zs = entries d zs' \<Longrightarrow> contents d' zs = contents d zs'" by simp
qed

lemma contents_reparent:
  assumes ok: "tree_ok (mappings d)" and e: "row_path (mappings d) e xs"
    and p: "row_path (mappings d) p P" "mr_kind p = KindDir" and apart: "\<not> prefix xs P"
    and free: "\<not> (\<exists>m\<in>set (mappings d). mr_parent m = mr_entry_id p \<and> mr_name m = c)"
    and d': "mappings d' = map (reparent (mr_entry_id e) (mr_entry_id p) c) (mappings d)"
  shows "contents d' zs =
    (if prefix (P @ [c]) zs then contents d (xs @ drop (length (P @ [c])) zs)
     else if prefix xs zs then None else contents d zs)"
proof -
  let ?f = "reparent (mr_entry_id e) (mr_entry_id p) c"
  note paths = reparent_paths [OF ok e p apart, of _ _ c, folded d']
  have ok': "tree_ok (mappings d')" using reparent_tree [OF ok e p apart free] d' by simp
  have origin: "\<exists>m ws. m' = ?f m \<and> row_path (mappings d) m ws \<and> zs = shift xs (P @ [c]) ws"
    if "row_path (mappings d') m' zs" for m' zs
  proof -
    from row_path_in [OF that] obtain m where m: "m' = ?f m" "m \<in> set (mappings d)" by (auto simp: d')
    then obtain ws where ws: "row_path (mappings d) m ws" using tree_okD(6) [OF ok] by blast
    have "zs = shift xs (P @ [c]) ws"
      using row_path_unique [OF ok' that] paths [OF ws] m(1) by simp
    then show ?thesis using m ws by blast
  qed
  have none: "\<not> row_path (mappings d) m ws" if pre: "prefix (P @ [c]) ws" for m ws
  proof
    assume "row_path (mappings d) m ws"
    then obtain q where q: "row_path (mappings d) q (P @ [c])"
      using row_path_prefix [of "mappings d" m "P @ [c]"] pre by (auto simp: prefix_def)
    then show False
      using row_path_snoc [OF q] row_path_inj [OF ok p(1)] row_path_nonempty [OF p(1)] free by auto
  qed
  have pl: "payload (?f m) = payload m" for m by (simp add: payload_def)
  have some: "contents d' (shift xs (P @ [c]) ws) = Some (payload m)" if "row_path (mappings d) m ws" for m ws
  proof -
    have "lookup d' (shift xs (P @ [c]) ws) = Some (?f m)" using paths [OF that] lookup_path [OF ok'] by blast
    then show ?thesis by (simp add: contents_def pl)
  qed
  show ?thesis
  proof (cases "prefix (P @ [c]) zs")
    case True
    let ?ws = "xs @ drop (length (P @ [c])) zs"
    have sh: "shift xs (P @ [c]) ?ws = zs" using True by (auto simp: shift_def prefix_def)
    show ?thesis
    proof (cases "lookup d ?ws")
      case (Some m)
      then have "row_path (mappings d) m ?ws" using lookup_path [OF ok] by blast
      from some [OF this] have "contents d' zs = Some (payload m)" by (simp only: sh)
      moreover have "contents d ?ws = Some (payload m)" by (simp only: contents_def Some option.map)
      ultimately show ?thesis using True by simp
    next
      case None
      have "\<not> row_path (mappings d') m' zs" for m'
      proof
        assume "row_path (mappings d') m' zs"
        then obtain m ws where ws: "row_path (mappings d) m ws" "zs = shift xs (P @ [c]) ws" using origin by blast
        then have "ws = ?ws"
          using none True by (auto simp: shift_def prefix_def split: if_splits)
        then show False using ws(1) None lookup_None [OF ok] by blast
      qed
      then show ?thesis using None True lookup_None [OF ok', of zs] by (simp add: contents_def)
    qed
  next
    case out: False
    show ?thesis
    proof (cases "prefix xs zs")
      case True
      have "\<not> row_path (mappings d') m' zs" for m'
      proof
        assume "row_path (mappings d') m' zs"
        then obtain m ws where "zs = shift xs (P @ [c]) ws" using origin by blast
        then show False using out True by (auto simp: shift_def split: if_splits)
      qed
      then show ?thesis using out True lookup_None [OF ok', of zs] by (simp add: contents_def)
    next
      case False
      show ?thesis
      proof (cases "lookup d zs")
        case (Some m)
        then have "row_path (mappings d) m zs" using lookup_path [OF ok] by blast
        then show ?thesis using some [of m zs] out False Some by (simp add: shift_def contents_def)
      next
        case None
        have "\<not> row_path (mappings d') m' zs" for m'
        proof
          assume "row_path (mappings d') m' zs"
          then obtain m ws where ws: "row_path (mappings d) m ws" "zs = shift xs (P @ [c]) ws" using origin by blast
          then have "ws = zs" using out by (auto simp: shift_def split: if_splits)
          then show False using ws(1) None lookup_None [OF ok] by blast
        qed
        then show ?thesis using None out False lookup_None [OF ok', of zs] by (simp add: contents_def)
      qed
    qed
  qed
qed

section \<open>Recording a subtree in the change log\<close>

text \<open>Recording only appends to the change log, and the depth bound is enough for every tree.\<close>

definition log_only :: "db \<Rightarrow> db \<Rightarrow> bool" where
  "log_only d d' \<longleftrightarrow> d' = d\<lparr>changes := changes d', change_seq := change_seq d'\<rparr>"

lemma log_only_refl: "log_only d d"
  by (simp add: log_only_def)

lemma log_only_trans: "log_only d e \<Longrightarrow> log_only e f \<Longrightarrow> log_only d f"
  unfolding log_only_def by (cases d, cases e, cases f) simp

lemma log_only_record: "log_only d (recordChange p k now d)"
  by (simp add: log_only_def recordChange_def)

lemma log_only_mappings: "log_only d d' \<Longrightarrow> mappings d' = mappings d"
  unfolding log_only_def by (cases d, cases d') simp

lemma children_of_mappings: "mappings d' = mappings d \<Longrightarrow> children_of p d' = children_of p d"
  by (simp add: children_of_def)

lemma recordTreeWalk_total:
  assumes "tree_ok (mappings d)" and "row_path (mappings d) e xs"
    and "\<And>m zs. row_path (mappings d) m zs \<Longrightarrow> length zs \<le> N" and "N < depth + length xs"
  shows "\<exists>d'. recordTreeWalk depth k now p e d = Inr d' \<and> log_only d d'"
  using assms
proof (induction depth arbitrary: p e xs d)
  case 0
  then have "length xs \<le> N" by blast
  then show ?case using "0.prems"(4) by simp
next
  case (Suc depth)
  let ?d = "recordChange p k now d"
  show ?case
  proof (cases "mr_kind e = KindDir")
    case False
    then show ?thesis using log_only_record by simp
  next
    case True
    have walk: "\<exists>d'. fold_result (\<lambda>child. recordTreeWalk depth k now (Join [p, mr_name child]) child) cs d1 = Inr d'
        \<and> log_only d1 d'"
      if "set cs \<subseteq> set (children_of (mr_entry_id e) d)" "mappings d1 = mappings d" for cs d1
      using that
    proof (induction cs arbitrary: d1)
      case Nil
      then show ?case by (simp add: log_only_refl)
    next
      case (Cons c cs)
      note d1 = Cons.prems(2)
      have c: "row_path (mappings d1) c (xs @ [mr_name c])"
        unfolding d1 using child_path [OF Suc.prems(1,2) True] Cons.prems(1) by simp
      have "tree_ok (mappings d1)" "\<And>m zs. row_path (mappings d1) m zs \<Longrightarrow> length zs \<le> N"
        unfolding d1 by (fact Suc.prems)+
      moreover have "N < depth + length (xs @ [mr_name c])" using Suc.prems(4) by simp
      ultimately obtain d2 where d2: "recordTreeWalk depth k now (Join [p, mr_name c]) c d1 = Inr d2" "log_only d1 d2"
        using Suc.IH [OF _ c] by blast
      have "mappings d2 = mappings d" using log_only_mappings [OF d2(2)] Cons.prems(2) by simp
      then obtain d3 where d3:
        "fold_result (\<lambda>child. recordTreeWalk depth k now (Join [p, mr_name child]) child) cs d2 = Inr d3" "log_only d2 d3"
        using Cons.IH [of d2] Cons.prems(1) by auto
      show ?case using d2(1) d3(1) log_only_trans [OF d2(2) d3(2)] by simp
    qed
    have "txListAllDir (mr_entry_id e) ?d = children_of (mr_entry_id e) d"
      using children_of_mappings [of ?d d] by (simp add: txListAllDir_children)
    moreover obtain d' where "fold_result (\<lambda>child. recordTreeWalk depth k now (Join [p, mr_name child]) child)
        (children_of (mr_entry_id e) d) ?d = Inr d'" "log_only ?d d'"
      using walk [of "children_of (mr_entry_id e) d" ?d] by auto
    ultimately show ?thesis
      using True log_only_trans [OF log_only_record] by (simp add: Let_def)
  qed
qed

lemma recordTreeChanges_total:
  assumes ok: "tree_ok (mappings d)" and "absolute p" and e: "lookup d (items p) = Some e"
  shows "\<exists>d'. recordTreeChanges p k now d = Inr d' \<and> log_only d d'"
proof -
  obtain q where "txGetEntryInfo p d = Inr (q, Some e)"
    using txGetEntryInfo_found assms(2,3) by blast
  moreover have "row_path (mappings d) e (items p)" using lookup_path [OF ok] e by blast
  then have "\<exists>d'. recordTreeWalk (length (mappings d) + 1) k now (Clean p) e d = Inr d' \<and> log_only d d'"
    using row_path_length [OF ok] by (intro recordTreeWalk_total [OF ok, where N = "length (mappings d)"]) auto
  ultimately show ?thesis by (simp add: recordTreeChanges_def)
qed

text \<open>The entries below a directory, in post-order.\<close>

lemma collectEntries_total:
  assumes ok: "tree_ok (mappings d)" and "row_path (mappings d) e xs"
    and len: "\<And>m zs. row_path (mappings d) m zs \<Longrightarrow> length zs \<le> N" and "N < depth + length xs"
  shows "\<exists>rs. collectEntries depth d e acc = Inr rs \<and>
    set rs = set acc \<union> {m \<in> set (mappings d). in_subtree (mappings d) xs m}"
  using assms(2,4)
proof (induction depth arbitrary: e xs acc)
  case 0
  then have "length xs \<le> N" using len by blast
  then show ?case using "0.prems" by simp
next
  case (Suc depth)
  note sub = under_children [OF ok Suc.prems(1)]
  show ?case
  proof (cases "mr_kind e = KindDir")
    case False
    then have "{m \<in> set (mappings d). in_subtree (mappings d) xs m} = {e}"
      using sub row_path_in [OF Suc.prems(1)] by auto
    then show ?thesis using False by auto
  next
    case True
    have walk: "\<exists>rs. fold_result (collectEntries depth d) cs acc = Inr rs \<and> set rs = set acc \<union>
        {m \<in> set (mappings d). \<exists>c\<in>set cs. in_subtree (mappings d) (xs @ [mr_name c]) m}"
      if "set cs \<subseteq> set (children_of (mr_entry_id e) d)" for cs acc
      using that
    proof (induction cs arbitrary: acc)
      case Nil
      then show ?case by simp
    next
      case (Cons c cs)
      have "row_path (mappings d) c (xs @ [mr_name c])"
        using child_path [OF ok Suc.prems(1) True] Cons.prems by simp
      then obtain rs where rs: "collectEntries depth d c acc = Inr rs"
        "set rs = set acc \<union> {m \<in> set (mappings d). in_subtree (mappings d) (xs @ [mr_name c]) m}"
        using Suc.IH [of c "xs @ [mr_name c]" acc] Suc.prems(2) by auto
      then show ?case using Cons.IH [of rs] Cons.prems by auto
    qed
    obtain rs where rs: "fold_result (collectEntries depth d) (children_of (mr_entry_id e) d) acc = Inr rs"
      "set rs = set acc \<union> {m \<in> set (mappings d).
         \<exists>c\<in>set (children_of (mr_entry_id e) d). in_subtree (mappings d) (xs @ [mr_name c]) m}"
      using walk by blast
    have "{m \<in> set (mappings d). in_subtree (mappings d) xs m} = insert e {m \<in> set (mappings d).
         \<exists>c\<in>set (children_of (mr_entry_id e) d). in_subtree (mappings d) (xs @ [mr_name c]) m}"
      using sub True row_path_in [OF Suc.prems(1)] by blast
    then show ?thesis using rs True by (auto simp: txListAllDir_children)
  qed
qed

lemma collectEntries_whole:
  assumes ok: "tree_ok (mappings d)" and e: "row_path (mappings d) e xs"
  shows "\<exists>rs. collectEntries (length (mappings d) + 1) d e [] = Inr rs \<and>
    set rs = {m \<in> set (mappings d). in_subtree (mappings d) xs m}"
  using collectEntries_total [OF ok e, where N = "length (mappings d)" and acc = "[]"
      and depth = "length (mappings d) + 1"] row_path_length [OF ok]
  by (simp del: collectEntries.simps)

section \<open>The move\<close>

text \<open>A path without \<open>..\<close> is its cleaned form, component by component.\<close>

definition plain :: "string \<Rightarrow> bool" where
  "plain p \<longleftrightarrow> absolute p \<and> ''..'' \<notin> set (split_on (CHR ''/'') p)"

lemma foldl_clean_plain:
  "''..'' \<notin> set cs \<Longrightarrow>
    foldl (clean_step True) kept cs = kept @ filter (\<lambda>item. item \<noteq> '''' \<and> item \<noteq> ''.'') cs"
proof (induction cs arbitrary: kept)
  case (Cons c cs)
  then have "c \<noteq> ''..''" by auto
  then have "clean_step True kept c = (if c = '''' \<or> c = ''.'' then kept else kept @ [c])"
    by (simp add: clean_step_def)
  then show ?case using Cons by simp
qed simp

lemma rebuildDirItems_plain: "plain p \<Longrightarrow> rebuildDirItems p = Inr (items p)"
  by (simp add: plain_def rebuildDirItems_def items_def components_def clean_elems_def foldl_clean_plain)

lemma isArrayHasSuffix_prefix: "isArrayHasSuffix xs ys \<longleftrightarrow> prefix ys xs"
  by (auto simp: isArrayHasSuffix_def prefix_def) (metis append_take_drop_id)

lemma precheckMoveCopy_plain:
  assumes "plain src" and "plain dst"
  shows "precheckMoveCopy src dst =
    (if items src = items dst then Inr False
     else if prefix (items src) (items dst) \<or> prefix (items dst) (items src)
     then Inl ErrDestinationInsideSource else Inr True)"
  by (simp add: precheckMoveCopy_def rebuildDirItems_plain [OF assms(1)] rebuildDirItems_plain [OF assms(2)]
      isArrayHasSuffix_prefix)

lemma txGetEntryInfo_parent:
  assumes ok: "tree_ok (mappings d)" and t: "absolute t" "components t \<noteq> []"
    and p: "row_path (mappings d) p (butlast (items t))" "mr_kind p = KindDir"
  shows "txGetEntryInfo t d = Inr (mr_entry_id p, lookup d (items t))"
proof -
  obtain cs c where cs: "components t = cs @ [c]" using t(2) by (cases "components t" rule: rev_cases) auto
  have n: "\<forall>c\<in>set (cs @ [c]). normal c" using components_normal [of t] cs by simp
  have bl: "butlast (items t) = ''/'' # cs" "last (items t) = c" "items t \<noteq> []"
    by (simp_all add: items_def cs)
  have "findLoop (''/'' # cs) 0 d = Inr (mr_entry_id p)"
    using findLoop_path [OF ok, of "''/'' # cs" "mr_entry_id p"] p bl by auto
  then show ?thesis
    using txGetEntryInfo_abs [OF _ n, of t d] Clean_components [OF t(1)] cs bl
    by (simp add: lookup_def del: findLoop.simps)
qed

lemma splitFilename_items:
  assumes t: "absolute t" "components t \<noteq> []"
  shows "\<exists>dir. splitFilename t = (dir, last (items t), False)"
proof -
  obtain cs c where cs: "components t = cs @ [c]" using t(2) by (cases "components t" rule: rev_cases) auto
  then have "\<forall>c\<in>set (cs @ [c]). normal c" using components_normal [of t] by simp
  from splitFilename_abs [OF _ this, of t] show ?thesis
    using Clean_components [OF t(1)] cs by (simp add: items_def)
qed

text \<open>The re-parenting step: the destination is free, the source is not above its new parent.\<close>

lemma txChangeParent_tree:
  assumes ok: "dir_ok idfn d" and e: "row_path (mappings d) e xs"
    and p: "row_path (mappings d) p P" "mr_kind p = KindDir" and apart: "\<not> prefix xs P"
    and free: "\<not> (\<exists>m. row_path (mappings d) m (P @ [c]))"
  shows "\<exists>d'. txChangeParent (mr_entry_id e) (mr_entry_id p) c d = Inr d' \<and> dir_ok idfn d' \<and> dir_frame d d' \<and>
    (\<forall>zs. contents d' zs =
       (if prefix (P @ [c]) zs then contents d (xs @ drop (length (P @ [c])) zs)
        else if prefix xs zs then None else contents d zs))"
proof -
  note tree = dir_okD [OF ok]
  let ?d = "d\<lparr>mappings := map (reparent (mr_entry_id e) (mr_entry_id p) c) (mappings d)\<rparr>"
  have free': "\<not> (\<exists>m\<in>set (mappings d). mr_parent m = mr_entry_id p \<and> mr_name m = c)"
    using free row_path.child [OF p] by auto
  have "txChangeParent (mr_entry_id e) (mr_entry_id p) c d = Inr ?d"
    using free' row_path_in [OF e] by (auto simp: txChangeParent_def reparent_def cong: map_cong)
  moreover have "dir_ok idfn ?d"
    using ok reparent_tree [OF tree e p apart free'] by (simp add: dir_ok_def)
  moreover have "dir_frame d ?d" by (simp add: dir_frame_def)
  moreover have "contents ?d zs =
       (if prefix (P @ [c]) zs then contents d (xs @ drop (length (P @ [c])) zs)
        else if prefix xs zs then None else contents d zs)" for zs
    by (rule contents_reparent [OF tree e p apart free']) simp
  ultimately show ?thesis by blast
qed

definition moved :: "string list \<Rightarrow> string list \<Rightarrow> db \<Rightarrow> db \<Rightarrow> bool" where
  "moved xs ys d d' \<longleftrightarrow> (\<forall>zs. contents d' zs =
     (if prefix ys zs then contents d (xs @ drop (length ys) zs)
      else if prefix xs zs then None else contents d zs))"

lemma moved_contents:
  "moved xs ys d1 d2 \<Longrightarrow> contents d1 = contents d \<Longrightarrow> contents d' = contents d2 \<Longrightarrow> moved xs ys d d'"
  by (simp add: moved_def)

lemma prefix_apart_append: "\<not> prefix xs ys \<Longrightarrow> \<not> prefix ys xs \<Longrightarrow> \<not> prefix ys (xs @ zs)"
  by (auto simp: prefix_append)

lemma txDoMove_tree:
  assumes ok: "dir_ok idfn d" and src: "plain src" and dst: "plain dst" and t: "components dst \<noteq> []"
    and apart: "\<not> prefix (items src) (items dst)" "\<not> prefix (items dst) (items src)"
    and e: "row_path (mappings d) e (items src)"
    and p: "row_path (mappings d) p (butlast (items dst))" "mr_kind p = KindDir"
    and over: "overwrite \<or> lookup d (items dst) = None"
  shows "\<exists>d'. txDoMove now src dst overwrite d = Inr d' \<and> dir_ok idfn d' \<and> dir_frame d d' \<and>
    moved (items src) (items dst) d d'"
proof -
  note tree = dir_okD [OF ok]
  have abs: "absolute src" "absolute dst" using src dst by (simp_all add: plain_def)
  have pre: "precheckMoveCopy src dst = Inr True"
    using precheckMoveCopy_plain [OF src dst] apart by auto
  have T: "butlast (items dst) @ [last (items dst)] = items dst" by (simp add: items_def)
  have apart': "\<not> prefix (items src) (butlast (items dst))"
    using apart(1) T by (metis prefix_order.trans prefixI)
  have not_parent: "\<not> prefix (items dst) (butlast (items dst))"
    using T by (metis length_append_singleton lessI not_le prefix_length_le)
  have "lookup d (items src) = Some e" using lookup_path [OF tree] e by blast
  then obtain q where sinfo: "txGetEntryInfo src d = Inr (q, Some e)"
    using txGetEntryInfo_found [OF abs(1)] by blast
  note dinfo = txGetEntryInfo_parent [OF tree abs(2) t p]
  obtain dir where split: "splitFilename dst = (dir, last (items dst), False)"
    using splitFilename_items [OF abs(2) t] by blast
  show ?thesis
  proof (cases "lookup d (items dst)")
    case None
    then have "\<not> (\<exists>m. row_path (mappings d) m (butlast (items dst) @ [last (items dst)]))"
      using lookup_None [OF tree] by (simp only: T) simp
    from txChangeParent_tree [OF ok e p apart' this] show ?thesis
      using pre sinfo dinfo split None unfolding T moved_def by (simp add: txDoMove_def)
  next
    case (Some m)
    then have "row_path (mappings d) m (items dst)" using lookup_path [OF tree] by blast
    then obtain r where r: "collectAndRemove (length (mappings d) + 1) now (Clean dst) m ([], d) = Inr r"
      and rem: "subtree_removed {items dst} ([], d) r"
      using collectAndRemove_whole [OF tree] by blast
    have ok_r: "dir_ok idfn (snd r)" by (rule dir_ok_removed [OF ok rem])
    have path: "row_path (mappings (snd r)) x zs \<longleftrightarrow> row_path (mappings d) x zs \<and> \<not> prefix (items dst) zs" for x zs
      using subtree_removed_tree(2) [OF _ rem, of x zs] tree by simp
    have free: "\<not> (\<exists>m. row_path (mappings (snd r)) m (butlast (items dst) @ [last (items dst)]))"
      using path by (simp only: T) simp
    have e_r: "row_path (mappings (snd r)) e (items src)" using path e apart(2) by simp
    have p_r: "row_path (mappings (snd r)) p (butlast (items dst))" using path p(1) not_parent by simp
    obtain d' where d': "txChangeParent (mr_entry_id e) (mr_entry_id p) (last (items dst)) (snd r) = Inr d'"
      "dir_ok idfn d'" "dir_frame (snd r) d'" "moved (items src) (items dst) (snd r) d'"
      using txChangeParent_tree [OF ok_r e_r p_r p(2) apart' free] unfolding T moved_def by blast
    have "contents (snd r) zs = (if prefix (items dst) zs then None else contents d zs)" for zs
      using lookup_removed [OF tree rem] by (simp add: contents_def)
    then have "moved (items src) (items dst) d d'"
      using d'(4) prefix_apart_append [OF apart] by (simp add: moved_def)
    moreover have "dir_frame d d'"
      using rem d'(3) dir_frame_trans by (auto simp: subtree_removed_def)
    moreover have "txDoMove now src dst overwrite d = Inr d'"
      using pre sinfo dinfo split Some over r d'(1) by (simp add: txDoMove_def case_prod_unfold)
    ultimately show ?thesis using d'(2) by blast
  qed
qed

lemma dir_frame_log: "log_only d d' \<Longrightarrow> dir_frame d d'"
  unfolding log_only_def dir_frame_def by (cases d, cases d') simp

lemma dir_ok_log: "log_only d d' \<Longrightarrow> dir_ok idfn d' = dir_ok idfn d"
  unfolding log_only_def dir_ok_def by (cases d, cases d') simp

lemma contents_mappings: "mappings d' = mappings d \<Longrightarrow> contents d' = contents d"
  by (rule ext) (simp add: contents_def lookup_mappings [of d' d])

lemma touchParent_any:
  assumes ok: "dir_ok idfn d" and p: "absolute p" and there: "components p \<noteq> [] \<Longrightarrow> lookup d (butlast (items p)) \<noteq> None"
  shows "\<exists>d'. touchParent p now d = Inr d' \<and> dir_ok idfn d' \<and> dir_frame d d' \<and> contents d' = contents d"
proof -
  obtain d' where d': "touchParent p now d = Inr d'" using touchParent_total [OF p there] by blast
  have "contents d' = contents d"
    using contents_entries touchParent_tree(2) [OF dir_okD [OF ok] d'] by (metis ext)
  then show ?thesis using d' dir_ok_touchParent [OF ok d'] dir_frame_touchParent [OF d'] by blast
qed

lemma lookup_contents: "lookup d zs = None \<longleftrightarrow> contents d zs = None"
  by (simp add: contents_def)

lemma overwritten_entries:
  assumes tree: "tree_ok (mappings d)"
  shows "\<exists>rs. (case lookup d (items dst) of None \<Rightarrow> Inr [] |
        Some dinfo \<Rightarrow> collectEntries (length (mappings d) + 1) d dinfo []) = Inr rs \<and>
      set rs = {m \<in> set (mappings d). in_subtree (mappings d) (items dst) m}"
proof (cases "lookup d (items dst)")
  case None
  have "\<not> in_subtree (mappings d) (items dst) m" for m
  proof
    assume "in_subtree (mappings d) (items dst) m"
    then obtain ys where "row_path (mappings d) m (items dst @ ys)" by (auto simp: in_subtree_def)
    from row_path_prefix [OF this] have "\<exists>m. row_path (mappings d) m (items dst)"
      by (simp add: items_def) blast
    then show False using None lookup_None [OF tree] by simp
  qed
  then show ?thesis using None by simp
next
  case (Some m)
  then have "row_path (mappings d) m (items dst)" using lookup_path [OF tree] by blast
  from collectEntries_whole [OF tree this] show ?thesis using Some by simp
qed

lemma txMove_tree:
  assumes ok: "dir_ok idfn d" and src: "plain src" and dst: "plain dst"
    and apart: "\<not> prefix (items src) (items dst)" "\<not> prefix (items dst) (items src)"
    and e: "lookup d (items src) = Some e"
    and p: "lookup d (butlast (items dst)) = Some p" "mr_kind p = KindDir"
    and over: "overwrite \<or> lookup d (items dst) = None"
  shows "\<exists>overwritten d'. txMove now src dst overwrite d = Inr (overwritten, d') \<and>
    dir_ok idfn d' \<and> dir_frame d d' \<and>
    set overwritten = {m \<in> set (mappings d). in_subtree (mappings d) (items dst) m} \<and>
    moved (items src) (items dst) d d'"
proof -
  note tree = dir_okD [OF ok]
  have abs: "absolute src" "absolute dst" using src dst by (simp_all add: plain_def)
  have pre: "precheckMoveCopy src dst = Inr True"
    using precheckMoveCopy_plain [OF src dst] apart by auto
  have nonroot: "components dst \<noteq> []" "components src \<noteq> []" using apart by (auto simp: items_def)
  have path_p: "row_path (mappings d) p (butlast (items dst))" using p(1) lookup_path [OF tree] by blast
  have path_e: "row_path (mappings d) e (items src)" using e lookup_path [OF tree] by blast
  note dinfo = txGetEntryInfo_parent [OF tree abs(2) nonroot(1) path_p p(2)]
  have stat: "entry_if_any dst d = Inr (lookup d (items dst))"
    by (simp add: entry_if_any_def txStat_def dinfo)
  obtain rs where rs: "(case lookup d (items dst) of None \<Rightarrow> Inr [] |
        Some dinfo \<Rightarrow> collectEntries (length (mappings d) + 1) d dinfo []) = Inr rs"
    "set rs = {m \<in> set (mappings d). in_subtree (mappings d) (items dst) m}"
    using overwritten_entries [OF tree] by blast
  obtain d1 where d1: "recordTreeChanges src ChangeDeleted now d = Inr d1" "log_only d d1"
    using recordTreeChanges_total [OF tree abs(1) e] by blast
  note same = log_only_mappings [OF d1(2)]
  have ok1: "dir_ok idfn d1" using ok dir_ok_log [OF d1(2)] by simp
  have "overwrite \<or> lookup d1 (items dst) = None" using over lookup_mappings [OF same] by simp
  then obtain d2 where d2: "txDoMove now src dst overwrite d1 = Inr d2" "dir_ok idfn d2" "dir_frame d1 d2"
    "moved (items src) (items dst) d1 d2"
    using txDoMove_tree [OF ok1 src dst nonroot(1) apart, unfolded same, OF path_e path_p p(2)] by blast
  have at_dst: "contents d2 (items dst) = contents d1 (items src)"
    using d2(4) by (simp add: moved_def)
  then obtain e2 where e2: "lookup d2 (items dst) = Some e2"
    using e lookup_mappings [OF same] by (auto simp: contents_def)
  obtain d3 where d3: "recordTreeChanges dst ChangeCreated now d2 = Inr d3" "log_only d2 d3"
    using recordTreeChanges_total [OF dir_okD [OF d2(2)] abs(2) e2] by blast
  have ok3: "dir_ok idfn d3" using d2(2) dir_ok_log [OF d3(2)] by simp
  have c3: "contents d3 = contents d2" by (rule contents_mappings [OF log_only_mappings [OF d3(2)]])
  have m3: "moved (items src) (items dst) d d3"
    using moved_contents [OF d2(4) contents_mappings [OF same] c3] .
  have above: "contents d3 zs = contents d zs" if "\<not> prefix (items dst) zs" "\<not> prefix (items src) zs" for zs
    using m3 that by (simp add: moved_def)
  have bl: "\<not> prefix xs (butlast xs)" if "xs \<noteq> []" for xs :: "string list"
    using that by (metis append_butlast_last_id length_append_singleton lessI not_le prefix_length_le)
  have par_dst: "lookup d3 (butlast (items dst)) \<noteq> None"
  proof -
    have "\<not> prefix (items src) (butlast (items dst))"
      using apart(1) prefix_order.trans [OF _ prefixeq_butlast] by blast
    moreover have "\<not> prefix (items dst) (butlast (items dst))" by (rule bl) (simp add: items_def)
    moreover have "contents d (butlast (items dst)) \<noteq> None" using p(1) by (simp add: contents_def)
    ultimately show ?thesis using above lookup_contents by metis
  qed
  have par_src: "lookup d3 (butlast (items src)) \<noteq> None"
  proof -
    have "\<not> prefix (items dst) (butlast (items src))"
      using apart(2) prefix_order.trans [OF _ prefixeq_butlast] by blast
    moreover have "\<not> prefix (items src) (butlast (items src))" by (rule bl) (simp add: items_def)
    moreover have "butlast (items src) \<noteq> []" "butlast (items src) @ [last (items src)] = items src"
      using nonroot(2) by (simp_all add: items_def)
    then have "\<exists>m. row_path (mappings d) m (butlast (items src))"
      using row_path_prefix [of "mappings d" e "butlast (items src)" "[last (items src)]"] path_e by metis
    then have "contents d (butlast (items src)) \<noteq> None"
      using lookup_None [OF tree] lookup_contents by blast
    ultimately show ?thesis using above lookup_contents by metis
  qed
  obtain d4 where d4: "touchParent src now d3 = Inr d4" "dir_ok idfn d4" "dir_frame d3 d4" "contents d4 = contents d3"
    using touchParent_any [OF ok3 abs(1)] par_src by blast
  obtain d5 where d5: "touchParent dst now d4 = Inr d5" "dir_ok idfn d5" "dir_frame d4 d5" "contents d5 = contents d4"
    using touchParent_any [OF d4(2) abs(2)] par_dst unfolding lookup_contents d4(4) by blast
  have "moved (items src) (items dst) d d5" using moved_contents [OF m3 refl] d4(4) d5(4) by simp
  moreover have "dir_frame d d5"
    by (rule dir_frame_trans [OF dir_frame_trans [OF dir_frame_trans [OF dir_frame_trans
          [OF dir_frame_log [OF d1(2)] d2(3)] dir_frame_log [OF d3(2)]] d4(3)] d5(3)])
  moreover have "txMove now src dst overwrite d = Inr (rs, d5)"
    using pre stat rs(1) d1(1) d2(1) d3(1) d4(1) d5(1) by (simp add: txMove_def)
  ultimately show ?thesis using d5(2) rs(2) by blast
qed

end
