(* ===== verification/Directory_Copy.thy ===== *)
theory Directory_Copy
  imports Directory_Move
begin

text \<open>
  Copying a subtree (\<open>txCopy\<close> of \<^verbatim>\<open>directory/db_directory.go\<close>). The walk creates one row per
  copied entry with an identifier of its own; here its effect on the map from paths to entries
  is derived, and that the list of copied pairs relates the two subtrees path by path.
\<close>

section \<open>The walk\<close>

definition info :: "mapping_row \<Rightarrow> nat \<times> string \<times> int \<times> nat" where
  "info m = (mr_kind m, mr_ref_data m, mr_size m, mr_mode m)"

definition info_at :: "db \<Rightarrow> string list \<Rightarrow> (nat \<times> string \<times> int \<times> nat) option" where
  "info_at d zs = map_option info (lookup d zs)"

lemma info_at_None: "info_at d zs = None \<longleftrightarrow> lookup d zs = None"
  by (simp add: info_at_def)

text \<open>The tree at \<open>xs\<close> has been copied to \<open>ys\<close>, and every other path is as before.\<close>

definition copied :: "string list \<Rightarrow> string list \<Rightarrow> db \<Rightarrow> db \<Rightarrow> bool" where
  "copied xs ys d d' \<longleftrightarrow>
     (\<forall>zs. \<not> prefix ys zs \<longrightarrow> lookup d' zs = lookup d zs) \<and>
     (\<forall>zs. info_at d' (ys @ zs) = info_at d (xs @ zs))"

lemma apart_snoc:
  "\<not> prefix xs ys \<Longrightarrow> \<not> prefix ys xs \<Longrightarrow> \<not> prefix (xs @ [n]) (ys @ [n]) \<and> \<not> prefix (ys @ [n]) (xs @ [n])"
  by (auto dest: append_prefixD)

lemma lookup_below:
  assumes ok: "tree_ok (mappings d)" and m: "lookup d (xs @ y # ys) = Some m" and e: "lookup d xs = Some e"
  shows "mr_kind e = KindDir"
proof -
  have "row_path (mappings d) m (xs @ y # ys)" using m lookup_path [OF ok] by blast
  moreover have e': "row_path (mappings d) e xs" using e lookup_path [OF ok] by blast
  ultimately obtain q where q: "row_path (mappings d) q xs" "mr_kind q = KindDir"
    using row_path_prefix [of "mappings d" m xs "y # ys"] row_path_nonempty [OF e'] by blast
  then show ?thesis using row_path_inj [OF ok e' q(1)] by simp
qed

lemma dir_frame_create: "txCreateEntry idfn pid ent d = Inr (eid, d') \<Longrightarrow> dir_frame d d'"
  by (auto simp: txCreateEntry_def Let_def dir_frame_def split: if_splits)

lemma txSearch_free:
  assumes ok: "tree_ok (mappings d)" and hang: "hangs_at (mappings d) pid P" and "pid \<noteq> 0"
    and free: "lookup d (P @ [c]) = None"
  shows "\<not> (\<exists>m\<in>set (mappings d). mr_parent m = pid \<and> mr_name m = c)"
proof
  assume "\<exists>m\<in>set (mappings d). mr_parent m = pid \<and> mr_name m = c"
  then obtain m where m: "m \<in> set (mappings d)" "mr_parent m = pid" "mr_name m = c" by blast
  then have "row_path (mappings d) m (P @ [c])"
    using hang \<open>pid \<noteq> 0\<close> row_path.child [of "mappings d" _ P m] by (auto simp: hangs_at_def)
  then show False using free lookup_None [OF ok] by blast
qed

text \<open>The new row for one entry.\<close>

lemma copy_entry:
  assumes ids: "good_ids idfn" and ok: "dir_ok idfn d" and e: "e \<in> set (mappings d)"
    and hang: "hangs_at (mappings d) pid P" "pid \<noteq> 0" and free: "lookup d (P @ [c]) = None"
  obtains eid d1 row where
    "txCreateEntry idfn pid (new_entry c (mr_ref_data e) (mr_kind e) (mr_size e) (mr_mode e) now) d = Inr (eid, d1)"
    and "dir_ok idfn d1" and "dir_frame d d1" and "lookup d1 = (lookup d)(P @ [c] \<mapsto> row)" and "info row = info e"
    and "mr_entry_id row = eid" and "eid \<noteq> 0"
proof -
  let ?ent = "new_entry c (mr_ref_data e) (mr_kind e) (mr_size e) (mr_mode e) now"
  have name: "mr_name ?ent = c" "mr_kind ?ent = mr_kind e" by (simp_all add: new_entry_def)
  have "\<not> (\<exists>m\<in>set (mappings d). (mr_parent m = pid \<and> mr_name m = mr_name ?ent) \<or> mr_entry_id m = idfn (id_seq d))"
    using txSearch_free [OF dir_okD [OF ok] hang free] dir_ok_fresh [OF ids ok] name(1) by (metis imageI)
  then obtain eid d1 where new: "txCreateEntry idfn pid ?ent d = Inr (eid, d1)"
    by (simp add: txCreateEntry_def Let_def)
  have kind: "mr_kind ?ent = KindDir \<or> mr_kind ?ent = KindFile"
    using tree_okD(5) [OF dir_okD [OF ok] e] name by simp
  have root: "pid = 0 \<longrightarrow> mr_name ?ent = ''/'' \<and> mr_kind ?ent = KindDir" using hang(2) by simp
  note made = txCreateEntry_tree [OF ids ok hang(1) kind root new, unfolded name(1)]
  show thesis
  proof (rule that [OF new made(1) dir_frame_create [OF new] made(4)])
    show "eid \<noteq> 0" using made(2) ids by (simp add: good_ids_def)
  qed (simp_all add: info_def new_entry_def)
qed

lemma hangs_at_lookup:
  assumes "tree_ok (mappings d)" and "lookup d T = Some r" and "mr_kind r = KindDir"
  shows "hangs_at (mappings d) (mr_entry_id r) T"
  using assms lookup_path [OF assms(1)] by (auto simp: hangs_at_def)

text \<open>The children, one after the other, given that each subtree copies.\<close>

lemma copy_children:
  assumes ids: "good_ids idfn" and apart: "\<not> prefix xs T" "\<not> prefix T xs"
    and step: "\<And>e xs' P c p d pid. dir_ok idfn d \<Longrightarrow> row_path (mappings d) e xs' \<Longrightarrow>
      hangs_at (mappings d) pid P \<Longrightarrow> pid \<noteq> 0 \<Longrightarrow> lookup d (P @ [c]) = None \<Longrightarrow>
      \<not> prefix xs' (P @ [c]) \<Longrightarrow> \<not> prefix (P @ [c]) xs' \<Longrightarrow>
      (\<And>zs. lookup d (xs' @ zs) \<noteq> None \<Longrightarrow> length (xs' @ zs) \<le> N) \<Longrightarrow> N < depth + length xs' \<Longrightarrow>
      \<exists>d'. txDoIterAndCopy depth idfn now e pid p c True d = Inr d' \<and> dir_ok idfn d' \<and> dir_frame d d' \<and>
           copied xs' (P @ [c]) d d'"
    and "N < depth + Suc (length xs)"
  shows "dir_ok idfn d \<Longrightarrow> lookup d T = Some r \<Longrightarrow> mr_kind r = KindDir \<Longrightarrow> distinct (map mr_name cs) \<Longrightarrow>
    (\<And>c. c \<in> set cs \<Longrightarrow> lookup d (xs @ [mr_name c]) = Some c) \<Longrightarrow>
    (\<And>c. c \<in> set cs \<Longrightarrow> lookup d (T @ [mr_name c]) = None) \<Longrightarrow>
    (\<And>zs. lookup d (xs @ zs) \<noteq> None \<Longrightarrow> length (xs @ zs) \<le> N) \<Longrightarrow>
    \<exists>d'. fold_result (\<lambda>item. txDoIterAndCopy depth idfn now item (mr_entry_id r) (f item) (mr_name item) True) cs d = Inr d' \<and>
      dir_ok idfn d' \<and> dir_frame d d' \<and>
      (\<forall>zs. \<not> prefix T zs \<longrightarrow> lookup d' zs = lookup d zs) \<and> lookup d' T = lookup d T \<and>
      (\<forall>n zs. info_at d' (T @ n # zs) =
         (if n \<in> mr_name ` set cs then info_at d (xs @ n # zs) else info_at d (T @ n # zs)))"
proof (induction cs arbitrary: d)
  case Nil
  then show ?case by (simp add: dir_frame_refl)
next
  case (Cons c cs)
  let ?n = "mr_name c"
  note tree = dir_okD [OF Cons.prems(1)]
  have here: "\<not> prefix T (xs @ zs)" for zs using prefix_apart_append [OF apart] .
  have "row_path (mappings d) c (xs @ [?n])" using Cons.prems(5) [of c] lookup_path [OF tree] by simp
  moreover have "hangs_at (mappings d) (mr_entry_id r) T" by (rule hangs_at_lookup [OF tree Cons.prems(2,3)])
  moreover have "mr_entry_id r \<noteq> 0"
    using tree_okD(3) [OF tree] Cons.prems(2) lookup_path [OF tree] row_path_in by blast
  moreover have "lookup d (T @ [?n]) = None" using Cons.prems(6) by simp
  moreover have "\<not> prefix (xs @ [?n]) (T @ [?n])" "\<not> prefix (T @ [?n]) (xs @ [?n])"
    using apart_snoc [OF apart] by auto
  moreover have "\<And>zs. lookup d ((xs @ [?n]) @ zs) \<noteq> None \<Longrightarrow> length ((xs @ [?n]) @ zs) \<le> N"
    using Cons.prems(7) [of "?n # _"] by simp
  moreover have "N < depth + length (xs @ [?n])" using assms(5) by simp
  ultimately obtain d1 where d1: "txDoIterAndCopy depth idfn now c (mr_entry_id r) (f c) ?n True d = Inr d1"
    "dir_ok idfn d1" "dir_frame d d1" and cp: "copied (xs @ [?n]) (T @ [?n]) d d1"
    using step [OF Cons.prems(1)] by blast
  have keep: "lookup d1 zs = lookup d zs" if "\<not> prefix (T @ [?n]) zs" for zs
    using cp that by (simp add: copied_def)
  have keep_xs: "lookup d1 (xs @ zs) = lookup d (xs @ zs)" for zs
    using keep here append_prefixD by blast
  have keep_T: "lookup d1 T = lookup d T"
    by (rule keep) (auto dest: prefix_length_le)
  have keep_T': "lookup d1 (T @ n # zs) = lookup d (T @ n # zs)" if "n \<noteq> ?n" for n zs
    by (rule keep) (use that in simp)
  have new: "info_at d1 (T @ ?n # zs) = info_at d (xs @ ?n # zs)" for zs
    using cp by (simp add: copied_def)
  have "\<exists>d'. fold_result (\<lambda>item. txDoIterAndCopy depth idfn now item (mr_entry_id r) (f item) (mr_name item) True) cs d1 = Inr d' \<and>
      dir_ok idfn d' \<and> dir_frame d1 d' \<and>
      (\<forall>zs. \<not> prefix T zs \<longrightarrow> lookup d' zs = lookup d1 zs) \<and> lookup d' T = lookup d1 T \<and>
      (\<forall>n zs. info_at d' (T @ n # zs) =
         (if n \<in> mr_name ` set cs then info_at d1 (xs @ n # zs) else info_at d1 (T @ n # zs)))"
  proof (rule Cons.IH [OF d1(2)])
    show "lookup d1 T = Some r" using keep_T Cons.prems(2) by simp
    show "mr_kind r = KindDir" by (rule Cons.prems(3))
    show "distinct (map mr_name cs)" using Cons.prems(4) by simp
    show "lookup d1 (xs @ [mr_name x]) = Some x" if "x \<in> set cs" for x
      using Cons.prems(5) [of x] that keep_xs by simp
    show "lookup d1 (T @ [mr_name x]) = None" if x: "x \<in> set cs" for x
    proof -
      have "mr_name x \<in> mr_name ` set cs" using x by simp
      then have "mr_name x \<noteq> ?n" using Cons.prems(4) by auto
      then show ?thesis using keep_T' [of "mr_name x" "[]"] Cons.prems(6) [of x] x by simp
    qed
    show "length (xs @ zs) \<le> N" if "lookup d1 (xs @ zs) \<noteq> None" for zs
      using Cons.prems(7) [of zs] that keep_xs by simp
  qed
  then obtain d' where d': "fold_result (\<lambda>item. txDoIterAndCopy depth idfn now item (mr_entry_id r) (f item) (mr_name item) True) cs d1 = Inr d'"
    "dir_ok idfn d'" "dir_frame d1 d'" and out: "\<forall>zs. \<not> prefix T zs \<longrightarrow> lookup d' zs = lookup d1 zs"
    and top: "lookup d' T = lookup d1 T"
    and below: "\<forall>n zs. info_at d' (T @ n # zs) =
         (if n \<in> mr_name ` set cs then info_at d1 (xs @ n # zs) else info_at d1 (T @ n # zs))" by blast
  have fresh: "?n \<notin> mr_name ` set cs" using Cons.prems(4) by auto
  have infos: "info_at d' (T @ n # zs) =
         (if n \<in> mr_name ` set (c # cs) then info_at d (xs @ n # zs) else info_at d (T @ n # zs))" for n zs
  proof (cases "n = ?n")
    case True
    then show ?thesis using below fresh new by simp
  next
    case False
    then show ?thesis using below keep_xs [of "n # zs"] keep_T' [OF False, of zs] by (simp add: info_at_def)
  qed
  have outs: "lookup d' zs = lookup d zs" if "\<not> prefix T zs" for zs
    using out keep that append_prefixD by metis
  have folded: "fold_result (\<lambda>item. txDoIterAndCopy depth idfn now item (mr_entry_id r) (f item) (mr_name item) True) (c # cs) d = Inr d'"
    using d1(1) d'(1) by simp
  have tops: "lookup d' T = lookup d T" using top keep_T by simp
  show ?case
    by (intro exI [of _ d'] conjI allI impI) (fact folded d'(2) dir_frame_trans [OF d1(3) d'(3)] outs tops infos)+
qed

lemma children_lookup:
  assumes ok: "tree_ok (mappings d)" and e: "lookup d xs = Some e" "mr_kind e = KindDir"
  shows "c \<in> set (txListAllDir (mr_entry_id e) d) \<longleftrightarrow> lookup d (xs @ [mr_name c]) = Some c"
proof -
  have "row_path (mappings d) e xs" using e(1) lookup_path [OF ok] by blast
  from child_path [OF ok this e(2)] show ?thesis by (simp add: txListAllDir_children lookup_path [OF ok])
qed

lemma name_of_path:
  assumes "tree_ok (mappings d)" and "lookup d (xs @ [n]) = Some c"
  shows "mr_name c = n"
  using assms lookup_path [OF assms(1)] row_path_snoc [of "mappings d" c xs n] by blast

lemma lookup_prefix:
  assumes ok: "tree_ok (mappings d)" and "lookup d (xs @ ys) \<noteq> None" and "xs \<noteq> []"
  shows "lookup d xs \<noteq> None"
proof -
  obtain m where "row_path (mappings d) m (xs @ ys)" using assms(2) lookup_path [OF ok] by auto
  then show ?thesis using row_path_prefix [of "mappings d" m xs ys] assms(3) lookup_None [OF ok, of xs] by blast
qed

lemma copy_walk:
  assumes ids: "good_ids idfn"
  shows "dir_ok idfn d \<Longrightarrow> row_path (mappings d) e xs \<Longrightarrow> hangs_at (mappings d) pid P \<Longrightarrow> pid \<noteq> 0 \<Longrightarrow>
    lookup d (P @ [c]) = None \<Longrightarrow> \<not> prefix xs (P @ [c]) \<Longrightarrow> \<not> prefix (P @ [c]) xs \<Longrightarrow>
    (\<And>zs. lookup d (xs @ zs) \<noteq> None \<Longrightarrow> length (xs @ zs) \<le> N) \<Longrightarrow> N < depth + length xs \<Longrightarrow>
    \<exists>d'. txDoIterAndCopy depth idfn now e pid p c True d = Inr d' \<and> dir_ok idfn d' \<and> dir_frame d d' \<and>
         copied xs (P @ [c]) d d'"
proof (induction depth arbitrary: d e xs pid P c p)
  case 0
  have "lookup d (xs @ []) \<noteq> None" using "0.prems"(1,2) lookup_None [OF dir_okD] by auto
  from "0.prems"(8) [OF this] show ?case using "0.prems"(9) by simp
next
  case (Suc depth)
  let ?T = "P @ [c]"
  note tree = dir_okD [OF Suc.prems(1)] and apart = Suc.prems(6,7)
  have e: "lookup d xs = Some e" using Suc.prems(2) lookup_path [OF tree] by blast
  obtain eid d0 row where create:
    "txCreateEntry idfn pid (new_entry c (mr_ref_data e) (mr_kind e) (mr_size e) (mr_mode e) now) d = Inr (eid, d0)"
    and ok0: "dir_ok idfn d0" and fr0: "dir_frame d d0" and l0: "lookup d0 = (lookup d)(?T \<mapsto> row)"
    and row: "info row = info e" "mr_entry_id row = eid" "eid \<noteq> 0"
    by (rule copy_entry [OF ids Suc.prems(1) row_path_in [OF Suc.prems(2)] Suc.prems(3,4,5)])
  define d1 where "d1 = recordChange p ChangeCreated now d0"
  have ok1: "dir_ok idfn d1" using ok0 by (simp add: d1_def)
  have fr1: "dir_frame d d1"
    unfolding d1_def by (rule dir_frame_trans [OF fr0 dir_frame_steps(1)])
  have l1: "lookup d1 zs = (if zs = ?T then Some row else lookup d zs)" for zs
    using lookup_mappings [of d1 d0 zs] l0 by (simp add: d1_def)
  have kind: "mr_kind row = mr_kind e" using row(1) by (simp add: info_def)
  have below: "lookup d (?T @ n # zs) = None" for n zs
    using lookup_prefix [OF tree, of ?T "n # zs"] Suc.prems(5) by blast
  have in_xs: "lookup d1 (xs @ zs) = lookup d (xs @ zs)" for zs
    using l1 prefix_apart_append [OF apart, of zs] by auto
  have top: "info_at d1 ?T = info_at d xs" using l1 e row(1) by (simp add: info_at_def)
  show ?case
  proof (cases "mr_kind e = KindFile")
    case True
    have "lookup d (xs @ n # zs) = None" for n zs
      using lookup_below [OF tree _ e, of n zs] True by fastforce
    then have "info_at d1 (?T @ zs) = info_at d (xs @ zs)" for zs
      using top l1 [of "?T @ zs"] below by (cases zs) (auto simp: info_at_def)
    moreover have "lookup d1 zs = lookup d zs" if "\<not> prefix ?T zs" for zs
      using l1 that by auto
    ultimately have "copied xs ?T d d1" by (simp add: copied_def)
    moreover have "txDoIterAndCopy (Suc depth) idfn now e pid p c True d = Inr d1"
      using create True by (simp add: d1_def)
    ultimately show ?thesis using ok1 fr1 by blast
  next
    case False
    then have dir: "mr_kind e = KindDir"
      using tree_okD(5) [OF tree row_path_in [OF Suc.prems(2)]] by blast
    let ?cs = "txListAllDir (mr_entry_id e) d1"
    have e1: "lookup d1 xs = Some e" using in_xs [of "[]"] e by simp
    note cs = children_lookup [OF dir_okD [OF ok1] e1 dir]
    have "\<exists>d'. fold_result (\<lambda>item. txDoIterAndCopy depth idfn now item (mr_entry_id row) (Join [p, mr_name item])
          (mr_name item) True) ?cs d1 = Inr d' \<and> dir_ok idfn d' \<and> dir_frame d1 d' \<and>
        (\<forall>zs. \<not> prefix ?T zs \<longrightarrow> lookup d' zs = lookup d1 zs) \<and> lookup d' ?T = lookup d1 ?T \<and>
        (\<forall>n zs. info_at d' (?T @ n # zs) =
           (if n \<in> mr_name ` set ?cs then info_at d1 (xs @ n # zs) else info_at d1 (?T @ n # zs)))"
    proof (rule copy_children [OF ids apart])
      show "\<exists>d'. txDoIterAndCopy depth idfn now x pid' p' n True t = Inr d' \<and> dir_ok idfn d' \<and> dir_frame t d' \<and>
           copied ws (Q @ [n]) t d'"
        if "dir_ok idfn t" "row_path (mappings t) x ws" "hangs_at (mappings t) pid' Q" "pid' \<noteq> 0"
          "lookup t (Q @ [n]) = None" "\<not> prefix ws (Q @ [n])" "\<not> prefix (Q @ [n]) ws"
          "\<And>zs. lookup t (ws @ zs) \<noteq> None \<Longrightarrow> length (ws @ zs) \<le> N" "N < depth + length ws"
        for x ws Q n p' t pid'
        by (rule Suc.IH [OF that])
      show "N < depth + Suc (length xs)" using Suc.prems(9) by simp
      show "lookup d1 ?T = Some row" using l1 by simp
      show "mr_kind row = KindDir" using kind dir by simp
      show "distinct (map mr_name ?cs)"
        using distinct_children_names [OF dir_okD [OF ok1]] by (simp add: txListAllDir_children)
      show "lookup d1 (xs @ [mr_name x]) = Some x" if "x \<in> set ?cs" for x using cs that by blast
      show "lookup d1 (?T @ [mr_name x]) = None" for x using l1 [of "?T @ [mr_name x]"] below [of "mr_name x" "[]"] by simp
      show "length (xs @ zs) \<le> N" if "lookup d1 (xs @ zs) \<noteq> None" for zs
        using Suc.prems(8) [of zs] that in_xs by simp
    qed (fact ok1)
    then obtain d' where d': "fold_result (\<lambda>item. txDoIterAndCopy depth idfn now item (mr_entry_id row)
          (Join [p, mr_name item]) (mr_name item) True) ?cs d1 = Inr d'" "dir_ok idfn d'" "dir_frame d1 d'"
      and out: "\<forall>zs. \<not> prefix ?T zs \<longrightarrow> lookup d' zs = lookup d1 zs" and top': "lookup d' ?T = lookup d1 ?T"
      and down: "\<forall>n zs. info_at d' (?T @ n # zs) =
           (if n \<in> mr_name ` set ?cs then info_at d1 (xs @ n # zs) else info_at d1 (?T @ n # zs))" by blast
    have "info_at d' (?T @ zs) = info_at d (xs @ zs)" for zs
    proof (cases zs)
      case Nil
      then show ?thesis using top top' by (simp add: info_at_def)
    next
      case (Cons n ws)
      show ?thesis
      proof (cases "n \<in> mr_name ` set ?cs")
        case True
        then show ?thesis using down Cons in_xs [of zs] by (simp add: info_at_def)
      next
        case no: False
        have "lookup d1 (xs @ n # ws) = None"
        proof (rule ccontr)
          assume "lookup d1 (xs @ n # ws) \<noteq> None"
          then obtain x where x: "lookup d1 (xs @ [n]) = Some x"
            using lookup_prefix [OF dir_okD [OF ok1], of "xs @ [n]" ws] by auto
          then have "x \<in> set ?cs" using cs name_of_path [OF dir_okD [OF ok1] x] by simp
          then show False using no name_of_path [OF dir_okD [OF ok1] x] by blast
        qed
        moreover have "lookup d1 (?T @ n # ws) = None" using l1 [of "?T @ n # ws"] below by simp
        ultimately show ?thesis using down no Cons in_xs [of zs] by (simp add: info_at_def)
      qed
    qed
    moreover have "lookup d' zs = lookup d zs" if "\<not> prefix ?T zs" for zs
      using out l1 that by auto
    ultimately have "copied xs ?T d d'" by (simp add: copied_def)
    moreover have "txDoIterAndCopy (Suc depth) idfn now e pid p c True d = Inr d'"
      using create False d'(1) row(2) by (simp add: d1_def)
    ultimately show ?thesis using d'(2) dir_frame_trans [OF fr1 d'(3)] by blast
  qed
qed

section \<open>The copied pairs\<close>

lemma search_at:
  assumes ok: "tree_ok (mappings d)" and b: "lookup d (T @ [n]) = Some b" and e: "lookup d T = Some e"
  shows "txSearchEntry (mr_entry_id e) n d = Some b"
proof -
  have e': "row_path (mappings d) e T" using e lookup_path [OF ok] by blast
  have b': "row_path (mappings d) b (T @ [n])" using b lookup_path [OF ok] by blast
  from row_path_snoc [OF b'] row_path_nonempty [OF e'] obtain q where
    m: "b \<in> set (mappings d)" "mr_name b = n" and q: "row_path (mappings d) q T" "mr_parent b = mr_entry_id q" by auto
  have "q = e" by (rule row_path_inj [OF ok q(1) e'])
  then show ?thesis using m q(2) txSearchEntry_Some [OF ok] by blast
qed

lemma pairs_children:
  assumes ok: "tree_ok (mappings d)"
    and step: "\<And>src dst acc xs T. lookup d xs = Some src \<Longrightarrow> lookup d T = Some dst \<Longrightarrow>
      (\<And>zs. info_at d (T @ zs) = info_at d (xs @ zs)) \<Longrightarrow> N < depth + length xs \<Longrightarrow>
      \<exists>ps. collectCopyPairs depth d True src dst acc = Inr ps \<and>
        set ps = set acc \<union> {(a, b). \<exists>zs. lookup d (xs @ zs) = Some a \<and> lookup d (T @ zs) = Some b}"
    and dst: "lookup d T = Some dst" "mr_kind dst = KindDir"
    and same: "\<And>zs. info_at d (T @ zs) = info_at d (xs @ zs)" and "N < depth + Suc (length xs)"
  shows "(\<And>c. c \<in> set cs \<Longrightarrow> lookup d (xs @ [mr_name c]) = Some c) \<Longrightarrow>
    \<exists>ps. fold_result (\<lambda>child pairs. case txSearchEntry (mr_entry_id dst) (mr_name child) d of
                     None \<Rightarrow> Inl ErrReadCopied
                   | Some dchild \<Rightarrow> collectCopyPairs depth d True child dchild pairs) cs acc = Inr ps \<and>
      set ps = set acc \<union> {(a, b). \<exists>n zs. n \<in> mr_name ` set cs \<and>
        lookup d (xs @ n # zs) = Some a \<and> lookup d (T @ n # zs) = Some b}"
proof (induction cs arbitrary: acc)
  case Nil
  then show ?case by simp
next
  case (Cons c cs)
  let ?n = "mr_name c"
  have c: "lookup d (xs @ [?n]) = Some c" using Cons.prems by simp
  obtain b where b: "lookup d (T @ [?n]) = Some b" using same [of "[?n]"] c by (auto simp: info_at_def)
  note search = search_at [OF ok b dst(1)]
  obtain ps where ps: "collectCopyPairs depth d True c b acc = Inr ps"
    "set ps = set acc \<union> {(a, b). \<exists>zs. lookup d (xs @ ?n # zs) = Some a \<and> lookup d (T @ ?n # zs) = Some b}"
    using step [OF c b, of acc] same [of "?n # _"] assms(6) by auto
  obtain qs where qs: "fold_result (\<lambda>child pairs. case txSearchEntry (mr_entry_id dst) (mr_name child) d of
                     None \<Rightarrow> Inl ErrReadCopied
                   | Some dchild \<Rightarrow> collectCopyPairs depth d True child dchild pairs) cs ps = Inr qs"
    "set qs = set ps \<union> {(a, b). \<exists>n zs. n \<in> mr_name ` set cs \<and>
        lookup d (xs @ n # zs) = Some a \<and> lookup d (T @ n # zs) = Some b}"
    using Cons.IH [of ps] Cons.prems by auto
  have "set qs = set acc \<union> {(a, b). \<exists>n zs. n \<in> mr_name ` set (c # cs) \<and>
        lookup d (xs @ n # zs) = Some a \<and> lookup d (T @ n # zs) = Some b}"
    unfolding qs(2) ps(2) by auto
  then show ?case using search ps(1) qs(1) by simp
qed

lemma pairs_walk:
  assumes ok: "tree_ok (mappings d)" and len: "\<And>m zs. row_path (mappings d) m zs \<Longrightarrow> length zs \<le> N"
  shows "lookup d xs = Some src \<Longrightarrow> lookup d T = Some dst \<Longrightarrow>
      (\<And>zs. info_at d (T @ zs) = info_at d (xs @ zs)) \<Longrightarrow> N < depth + length xs \<Longrightarrow>
      \<exists>ps. collectCopyPairs depth d True src dst acc = Inr ps \<and>
        set ps = set acc \<union> {(a, b). \<exists>zs. lookup d (xs @ zs) = Some a \<and> lookup d (T @ zs) = Some b}"
proof (induction depth arbitrary: src dst acc xs T)
  case 0
  then have "length xs \<le> N" using len lookup_path [OF ok] by blast
  then show ?case using "0.prems"(4) by simp
next
  case (Suc depth)
  have kind: "mr_kind dst = mr_kind src"
    using Suc.prems(3) [of "[]"] Suc.prems(1,2) by (simp add: info_at_def info_def)
  show ?case
  proof (cases "mr_kind src = KindFile")
    case True
    have only: "zs = []" if "lookup d (xs @ zs) = Some a" for zs a
      using lookup_below [OF ok _ Suc.prems(1)] that True by (cases zs) fastforce+
    have "{(a, b). \<exists>zs. lookup d (xs @ zs) = Some a \<and> lookup d (T @ zs) = Some b} = {(src, dst)}" (is "?L = _")
    proof
      show "?L \<subseteq> {(src, dst)}"
      proof (rule subrelI)
        fix a b assume "(a, b) \<in> ?L"
        then obtain zs where ab: "lookup d (xs @ zs) = Some a" "lookup d (T @ zs) = Some b" by blast
        then have "zs = []" by (intro only)
        then show "(a, b) \<in> {(src, dst)}" using ab Suc.prems(1,2) by simp
      qed
      have "lookup d (xs @ []) = Some src" "lookup d (T @ []) = Some dst" using Suc.prems(1,2) by simp_all
      then show "{(src, dst)} \<subseteq> ?L" by blast
    qed
    then show ?thesis using True by simp
  next
    case False
    have "src \<in> set (mappings d)" using Suc.prems(1) lookup_path [OF ok] row_path_in by blast
    then have dir: "mr_kind src = KindDir" using False tree_okD(5) [OF ok] by blast
    let ?cs = "txListAllDir (mr_entry_id src) d"
    note cs = children_lookup [OF ok Suc.prems(1) dir]
    have "\<exists>ps. fold_result (\<lambda>child pairs. case txSearchEntry (mr_entry_id dst) (mr_name child) d of
                     None \<Rightarrow> Inl ErrReadCopied
                   | Some dchild \<Rightarrow> collectCopyPairs depth d True child dchild pairs) ?cs (acc @ [(src, dst)]) = Inr ps \<and>
      set ps = set (acc @ [(src, dst)]) \<union> {(a, b). \<exists>n zs. n \<in> mr_name ` set ?cs \<and>
        lookup d (xs @ n # zs) = Some a \<and> lookup d (T @ n # zs) = Some b}"
    proof (rule pairs_children [OF ok])
      show "\<exists>ps. collectCopyPairs depth d True s t l = Inr ps \<and>
          set ps = set l \<union> {(a, b). \<exists>zs. lookup d (ws @ zs) = Some a \<and> lookup d (Q @ zs) = Some b}"
        if "lookup d ws = Some s" "lookup d Q = Some t" "\<And>zs. info_at d (Q @ zs) = info_at d (ws @ zs)"
          "N < depth + length ws" for s t l ws Q
        by (rule Suc.IH [OF that])
      show "mr_kind dst = KindDir" using kind dir by simp
      show "N < depth + Suc (length xs)" using Suc.prems(4) by simp
      show "lookup d (xs @ [mr_name c]) = Some c" if "c \<in> set ?cs" for c using cs that by blast
    qed (fact Suc.prems)+
    then obtain ps where ps: "fold_result (\<lambda>child pairs. case txSearchEntry (mr_entry_id dst) (mr_name child) d of
                     None \<Rightarrow> Inl ErrReadCopied
                   | Some dchild \<Rightarrow> collectCopyPairs depth d True child dchild pairs) ?cs (acc @ [(src, dst)]) = Inr ps"
      "set ps = set (acc @ [(src, dst)]) \<union> {(a, b). \<exists>n zs. n \<in> mr_name ` set ?cs \<and>
        lookup d (xs @ n # zs) = Some a \<and> lookup d (T @ n # zs) = Some b}" by blast
    have child: "n \<in> mr_name ` set ?cs" if here: "lookup d (xs @ n # zs) = Some a" for n zs a
    proof -
      obtain x where x: "lookup d (xs @ [n]) = Some x"
        using lookup_prefix [OF ok, of "xs @ [n]" zs] here by auto
      then have "x \<in> set ?cs" "mr_name x = n" using cs name_of_path [OF ok x] by simp_all
      then show ?thesis by blast
    qed
    have "{(a, b). \<exists>zs. lookup d (xs @ zs) = Some a \<and> lookup d (T @ zs) = Some b} =
        insert (src, dst) {(a, b). \<exists>n zs. n \<in> mr_name ` set ?cs \<and>
          lookup d (xs @ n # zs) = Some a \<and> lookup d (T @ n # zs) = Some b}" (is "?L = ?R")
    proof (rule set_eqI)
      fix ab :: "mapping_row \<times> mapping_row"
      obtain a b where ab: "ab = (a, b)" by (cases ab)
      have root: "lookup d (xs @ []) = Some src" "lookup d (T @ []) = Some dst" using Suc.prems(1,2) by simp_all
      show "ab \<in> ?L \<longleftrightarrow> ab \<in> ?R"
      proof
        assume "ab \<in> ?L"
        then obtain zs where zs: "lookup d (xs @ zs) = Some a" "lookup d (T @ zs) = Some b" using ab by auto
        show "ab \<in> ?R"
        proof (cases zs)
          case Nil
          then show ?thesis using zs root ab by simp
        next
          case (Cons n ws)
          then have "n \<in> mr_name ` set ?cs" using zs child [of n ws a] by simp
          then show ?thesis using zs ab Cons by blast
        qed
      next
        assume "ab \<in> ?R"
        then consider "a = src" "b = dst"
          | n zs where "lookup d (xs @ n # zs) = Some a" "lookup d (T @ n # zs) = Some b" using ab by auto
        then show "ab \<in> ?L"
        proof cases
          case 1
          then show ?thesis using root ab by blast
        next
          case 2
          then show ?thesis using ab by blast
        qed
      qed
    qed
    then show ?thesis using ps False by auto
  qed
qed

section \<open>The copy\<close>

definition duplicated :: "string list \<Rightarrow> string list \<Rightarrow> db \<Rightarrow> db \<Rightarrow> bool" where
  "duplicated xs ys d d' \<longleftrightarrow>
     (\<forall>zs. \<not> prefix ys zs \<longrightarrow> contents d' zs = contents d zs) \<and>
     (\<forall>zs. info_at d' (ys @ zs) = info_at d (xs @ zs))"

lemma info_contents: "contents d' zs = contents d zs' \<Longrightarrow> info_at d' zs = info_at d zs'"
proof -
  have "info_at d zs = map_option (\<lambda>(_, k, r, s, m, _). (k, r, s, m)) (contents d zs)" for d zs
    by (cases "lookup d zs") (simp_all add: info_at_def contents_def info_def payload_def)
  then show "contents d' zs = contents d zs' \<Longrightarrow> info_at d' zs = info_at d zs'" by simp
qed

lemma copy_cleared:
  assumes ok: "dir_ok idfn d" and over: "overwrite \<or> lookup d (items dst) = None"
  shows "\<exists>d1. (case lookup d (items dst) of None \<Rightarrow> Inr d | Some dinfo \<Rightarrow>
        if \<not> overwrite then Inl ErrDestinationExists
        else bind_result (collectAndRemove (length (mappings d) + 1) now (Clean dst) dinfo ([], d)) (\<lambda>(removed, d). Inr d))
      = Inr d1 \<and> dir_ok idfn d1 \<and> dir_frame d d1 \<and>
      (\<forall>zs. lookup d1 zs = (if prefix (items dst) zs then None else lookup d zs))"
proof -
  note tree = dir_okD [OF ok]
  show ?thesis
  proof (cases "lookup d (items dst)")
    case None
    have "items dst \<noteq> []" by (simp add: items_def)
    then have "lookup d zs = None" if "prefix (items dst) zs" for zs
      using that lookup_prefix [OF tree, of "items dst"] None by (metis prefix_def)
    then show ?thesis using None ok by (auto simp: dir_frame_refl)
  next
    case (Some m)
    then have "row_path (mappings d) m (items dst)" using lookup_path [OF tree] by blast
    then obtain r where r: "collectAndRemove (length (mappings d) + 1) now (Clean dst) m ([], d) = Inr r"
      and rem: "subtree_removed {items dst} ([], d) r" using collectAndRemove_whole [OF tree] by blast
    have "dir_frame d (snd r)" using rem by (simp add: subtree_removed_def)
    then show ?thesis
      using r Some over dir_ok_removed [OF ok rem] lookup_removed [OF tree rem] by (simp add: case_prod_unfold)
  qed
qed

lemma txDoCopyDepth_tree:
  assumes ids: "good_ids idfn" and ok: "dir_ok idfn d" and src: "plain src" and dst: "plain dst"
    and apart: "\<not> prefix (items src) (items dst)" "\<not> prefix (items dst) (items src)"
    and e: "lookup d (items src) = Some e"
    and p: "lookup d (butlast (items dst)) = Some p" "mr_kind p = KindDir"
    and over: "overwrite \<or> lookup d (items dst) = None"
  shows "\<exists>d'. txDoCopyDepth idfn now src dst overwrite True d = Inr d' \<and> dir_ok idfn d' \<and> dir_frame d d' \<and>
    duplicated (items src) (items dst) d d'"
proof -
  note tree = dir_okD [OF ok]
  have abs: "absolute src" "absolute dst" using src dst by (simp_all add: plain_def)
  have pre: "precheckMoveCopy src dst = Inr True"
    using precheckMoveCopy_plain [OF src dst] apart by auto
  have nonroot: "components dst \<noteq> []" using apart by (auto simp: items_def)
  have T: "butlast (items dst) @ [last (items dst)] = items dst" by (simp add: items_def)
  have bl: "\<not> prefix (items dst) (butlast (items dst))"
    using T by (metis length_append_singleton lessI not_le prefix_length_le)
  have path_p: "row_path (mappings d) p (butlast (items dst))" using p(1) lookup_path [OF tree] by blast
  obtain q where sinfo: "txGetEntryInfo src d = Inr (q, Some e)" using txGetEntryInfo_found [OF abs(1) e] by blast
  note dinfo = txGetEntryInfo_parent [OF tree abs(2) nonroot path_p p(2)]
  obtain dir where split: "splitFilename dst = (dir, last (items dst), False)"
    using splitFilename_items [OF abs(2) nonroot] by blast
  obtain d1 where d1: "(case lookup d (items dst) of None \<Rightarrow> Inr d | Some dinfo \<Rightarrow>
        if \<not> overwrite then Inl ErrDestinationExists
        else bind_result (collectAndRemove (length (mappings d) + 1) now (Clean dst) dinfo ([], d)) (\<lambda>(removed, d). Inr d))
      = Inr d1" and ok1: "dir_ok idfn d1" and fr1: "dir_frame d d1"
    and l1: "\<And>zs. lookup d1 zs = (if prefix (items dst) zs then None else lookup d zs)"
    using copy_cleared [OF ok over] by blast
  note tree1 = dir_okD [OF ok1]
  have in_src: "lookup d1 (items src @ zs) = lookup d (items src @ zs)" for zs
    using l1 prefix_apart_append [OF apart] by simp
  have "row_path (mappings d1) e (items src)" using in_src [of "[]"] e lookup_path [OF tree1] by simp
  moreover have p1: "lookup d1 (butlast (items dst)) = Some p" using l1 bl p(1) by simp
  then have hang: "hangs_at (mappings d1) (mr_entry_id p) (butlast (items dst))"
    by (rule hangs_at_lookup [OF tree1 _ p(2)])
  moreover have "mr_entry_id p \<noteq> 0" using tree_okD(3) [OF tree row_path_in [OF path_p]] .
  moreover have "lookup d1 (butlast (items dst) @ [last (items dst)]) = None" using l1 by (simp add: T)
  moreover have "\<not> prefix (items src) (butlast (items dst) @ [last (items dst)])"
    "\<not> prefix (butlast (items dst) @ [last (items dst)]) (items src)" using apart by (simp_all add: T)
  moreover have "length (items src @ zs) \<le> length (mappings d1)" if "lookup d1 (items src @ zs) \<noteq> None" for zs
    using that lookup_path [OF tree1] row_path_length [OF tree1] by blast
  moreover have "length (mappings d1) < (length (mappings d1) + 1) + length (items src)" by simp
  ultimately obtain d2 where d2: "txDoIterAndCopy (length (mappings d1) + 1) idfn now e (mr_entry_id p) (Clean dst)
      (last (items dst)) True d1 = Inr d2" "dir_ok idfn d2" "dir_frame d1 d2"
    and cp: "copied (items src) (items dst) d1 d2"
    using copy_walk [OF ids ok1, of e "items src" "mr_entry_id p" "butlast (items dst)" "last (items dst)"
        "length (mappings d1)" "length (mappings d1) + 1" now "Clean dst"] unfolding T by blast
  have "lookup d2 (butlast (items dst)) \<noteq> None" using cp bl p1 by (simp add: copied_def)
  then obtain d3 where d3: "touchParent dst now d2 = Inr d3" "dir_ok idfn d3" "dir_frame d2 d3" "contents d3 = contents d2"
    using touchParent_any [OF d2(2) abs(2)] by blast
  have "contents d3 zs = contents d zs" if "\<not> prefix (items dst) zs" for zs
    using that cp l1 d3(4) by (simp add: copied_def contents_def)
  moreover have "info_at d3 (items dst @ zs) = info_at d (items src @ zs)" for zs
  proof -
    have "info_at d3 (items dst @ zs) = info_at d2 (items dst @ zs)" by (rule info_contents) (simp add: d3(4))
    then show ?thesis using cp in_src [of zs] by (simp add: copied_def info_at_def)
  qed
  ultimately have "duplicated (items src) (items dst) d d3" by (simp add: duplicated_def)
  moreover have "txDoCopyDepth idfn now src dst overwrite True d = Inr d3"
    using pre sinfo dinfo split d1 d2(1) d3(1) by (simp add: txDoCopyDepth_def)
  ultimately show ?thesis using d3(2) dir_frame_trans [OF dir_frame_trans [OF fr1 d2(3)] d3(3)] by blast
qed

lemma txCopy_tree:
  assumes ids: "good_ids idfn" and ok: "dir_ok idfn d" and src: "plain src" and dst: "plain dst"
    and apart: "\<not> prefix (items src) (items dst)" "\<not> prefix (items dst) (items src)"
    and e: "lookup d (items src) = Some e"
    and p: "lookup d (butlast (items dst)) = Some p" "mr_kind p = KindDir"
    and over: "overwrite \<or> lookup d (items dst) = None"
  shows "\<exists>pairs overwritten d'. txCopy idfn now src dst overwrite d = Inr ((pairs, overwritten), d') \<and>
    dir_ok idfn d' \<and> dir_frame d d' \<and> duplicated (items src) (items dst) d d' \<and>
    set overwritten = {m \<in> set (mappings d). in_subtree (mappings d) (items dst) m} \<and>
    set pairs = {(a, b). \<exists>zs. lookup d' (items src @ zs) = Some a \<and> lookup d' (items dst @ zs) = Some b}"
proof -
  note tree = dir_okD [OF ok]
  have abs: "absolute src" "absolute dst" using src dst by (simp_all add: plain_def)
  have pre: "precheckMoveCopy src dst = Inr True"
    using precheckMoveCopy_plain [OF src dst] apart by auto
  have nonroot: "components dst \<noteq> []" using apart by (auto simp: items_def)
  obtain rs where rs: "(case lookup d (items dst) of None \<Rightarrow> Inr [] |
        Some dinfo \<Rightarrow> collectEntries (length (mappings d) + 1) d dinfo []) = Inr rs"
    "set rs = {m \<in> set (mappings d). in_subtree (mappings d) (items dst) m}"
    using overwritten_entries [OF tree] by blast
  have "row_path (mappings d) p (butlast (items dst))" using p(1) lookup_path [OF tree] by blast
  note dinfo = txGetEntryInfo_parent [OF tree abs(2) nonroot this p(2)]
  have stat: "entry_if_any dst d = Inr (lookup d (items dst))"
    by (simp add: entry_if_any_def txStat_def dinfo)
  obtain d' where d': "txDoCopyDepth idfn now src dst overwrite True d = Inr d'" "dir_ok idfn d'" "dir_frame d d'"
    and dup: "duplicated (items src) (items dst) d d'"
    using txDoCopyDepth_tree [OF assms] by blast
  note tree' = dir_okD [OF d'(2)]
  have cs: "contents d' (items src @ zs) = contents d (items src @ zs)" for zs
    using dup prefix_apart_append [OF apart] by (simp add: duplicated_def)
  have same: "info_at d' (items dst @ zs) = info_at d' (items src @ zs)" for zs
    using dup info_contents [OF cs] by (simp add: duplicated_def)
  obtain s where s: "lookup d' (items src) = Some s"
    using cs [of "[]"] e by (auto simp: contents_def)
  obtain t where t: "lookup d' (items dst) = Some t"
    using same [of "[]"] s by (auto simp: info_at_def)
  obtain q1 where q1: "txGetEntryInfo src d' = Inr (q1, Some s)" using txGetEntryInfo_found [OF abs(1) s] by blast
  obtain q2 where q2: "txGetEntryInfo dst d' = Inr (q2, Some t)" using txGetEntryInfo_found [OF abs(2) t] by blast
  have "\<exists>ps. collectCopyPairs (length (mappings d') + 1) d' True s t [] = Inr ps \<and>
        set ps = set [] \<union> {(a, b). \<exists>zs. lookup d' (items src @ zs) = Some a \<and> lookup d' (items dst @ zs) = Some b}"
    by (rule pairs_walk [OF tree' row_path_length [OF tree'] s t same]) simp_all
  then obtain ps where "collectCopyPairs (length (mappings d') + 1) d' True s t [] = Inr ps"
    "set ps = {(a, b). \<exists>zs. lookup d' (items src @ zs) = Some a \<and> lookup d' (items dst @ zs) = Some b}" by auto
  then have "txCopy idfn now src dst overwrite d = Inr ((ps, rs), d')"
    using pre stat rs(1) d'(1) q1 q2 by (simp add: txCopy_def txCopyDepth_def del: collectCopyPairs.simps)
  then show ?thesis using d'(2,3) dup rs(2) \<open>set ps = _\<close> by blast
qed

end
