(* ===== verification/Directory_Spec.thy ===== *)
theory Directory_Spec
  imports Directory_Copy
begin

text \<open>
  What the directory promises its callers, in terms of the map from paths to entries: when a
  creation succeeds and when it is refused, what a removal and a move do to every path, how a
  listing enumerates a directory, and that the tree invariant survives all of them.
\<close>

section \<open>Creation succeeds\<close>

definition all_dirs :: "db \<Rightarrow> string list \<Rightarrow> bool" where
  "all_dirs d xs \<longleftrightarrow> (\<forall>ys m. prefix ys xs \<longrightarrow> entries d ys = Some m \<longrightarrow> mr_kind m = KindDir)"

lemma all_dirs_grows: "all_dirs d xs \<Longrightarrow> grows d d' ys \<Longrightarrow> all_dirs d' xs"
  unfolding all_dirs_def grows_def by (metis option.exhaust option.inject)

lemma search_hangs:
  assumes ok: "tree_ok (mappings d)" and hang: "hangs_at (mappings d) pid P" and root: "pid = 0 \<longrightarrow> item = ''/''"
  shows "txSearchEntry pid item d = lookup d (P @ [item])"
proof (cases "txSearchEntry pid item d")
  case (Some m)
  then have m: "m \<in> set (mappings d)" "mr_parent m = pid" "mr_name m = item"
    using txSearchEntry_Some [OF ok] by blast+
  have "row_path (mappings d) m (P @ [item])"
    using hang m row_path.root [of m "mappings d"] row_path.child [of "mappings d" _ P m]
    by (auto simp: hangs_at_def)
  then show ?thesis using Some lookup_path [OF ok] by metis
next
  case None
  then have "\<not> (\<exists>m\<in>set (mappings d). mr_parent m = pid \<and> mr_name m = item)"
    using txSearchEntry_None by blast
  from lookup_taken [OF ok hang this] show ?thesis using None by simp
qed

lemma txCreateEntry_total:
  assumes ids: "good_ids idfn" and ok: "dir_ok idfn d" and "txSearchEntry pid (mr_name ent) d = None"
  shows "\<exists>eid d'. txCreateEntry idfn pid ent d = Inr (eid, d')"
  using dir_ok_fresh [OF ids ok] assms(3)
  by (auto simp: txCreateEntry_def Let_def txSearchEntry_None image_iff)

lemma component_total:
  assumes ids: "good_ids idfn" and ok: "dir_ok idfn d" and hang: "hangs_at (mappings d) pid P"
    and root: "pid = 0 \<longrightarrow> item = ''/''" and dirs: "all_dirs d (P @ [item])"
  shows "\<exists>eid d'. txSelectDirComponent idfn now pid item path True d = Inr ((eid, KindDir), d')"
proof (cases "txSearchEntry pid item d")
  case (Some m)
  then have "lookup d (P @ [item]) = Some m" using search_hangs [OF dir_okD [OF ok] hang root] by simp
  then have "mr_kind (bare m) = KindDir" using dirs unfolding all_dirs_def entries_def by force
  then show ?thesis using Some by (simp add: txSelectDirComponent_def)
next
  case None
  let ?ent = "new_entry item '''' KindDir 0 defaultEntryFileMode now"
  obtain eid e where "txCreateEntry idfn pid ?ent d = Inr (eid, e)"
    using txCreateEntry_total [OF ids ok, of pid ?ent] None by (auto simp: new_entry_def)
  then show ?thesis using None
    by (simp add: txSelectDirComponent_def txCreateDir_def Let_def)
qed

lemma selectLoop_total:
  assumes ids: "good_ids idfn"
  shows "dir_ok idfn d \<Longrightarrow> hangs_at (mappings d) pid seen \<Longrightarrow>
    (pid = 0 \<longrightarrow> xs \<noteq> [] \<longrightarrow> hd xs = ''/'') \<Longrightarrow> all_dirs d (seen @ xs) \<Longrightarrow>
    \<exists>q d'. selectLoop idfn now True seen xs pid d = Inr (q, d')"
proof (induction xs arbitrary: seen pid d)
  case Nil
  then show ?case by simp
next
  case (Cons item xs)
  have pre: "all_dirs d (seen @ [item])"
    using Cons.prems(4) unfolding all_dirs_def by (metis append_Cons append_Nil append_assoc prefix_prefix)
  have root: "pid = 0 \<longrightarrow> item = ''/''" using Cons.prems(3) by simp
  obtain eid e where sel: "txSelectDirComponent idfn now pid item (Join (seen @ [item])) True d = Inr ((eid, KindDir), e)"
    using component_total [OF ids Cons.prems(1,2) root pre] by blast
  have one: "dir_ok idfn e" "hangs_at (mappings e) eid (seen @ [item])" "eid \<noteq> 0" "grows d e (seen @ [item])"
    using component_tree [OF ids Cons.prems(1,2) root sel refl] by simp_all
  have "all_dirs e ((seen @ [item]) @ xs)" using all_dirs_grows [OF Cons.prems(4) one(4)] by simp
  from Cons.IH [OF one(1,2) _ this] one(3) show ?case using sel by simp
qed

lemma txCreate_total:
  assumes ids: "good_ids idfn" and ok: "dir_ok idfn d" and p: "absolute p" "components p \<noteq> []"
    and free: "lookup d (items p) = None" and dirs: "all_dirs d (butlast (items p))"
  shows "\<exists>e d'. txCreate idfn now p fsize refdata d = Inr (e, d')"
proof -
  let ?p = "TrimSuffixSlash p"
  obtain cs c where cs: "components p = cs @ [c]" using p(2) by (metis append_butlast_last_id)
  have n: "\<forall>c\<in>set (cs @ [c]). normal c" using components_normal [of p] cs by simp
  have trim: "absolute ?p" "components ?p = cs @ [c]" using components_TrimSuffixSlash [OF p] cs by simp_all
  have "Clean ?p = abs_path (cs @ [c])" using Clean_components trim by simp
  note split = splitFilename_abs [OF this n]
  have path: "items p = (''/'' # cs) @ [c]" by (simp add: items_def cs)
  have ncs: "\<forall>c\<in>set cs. normal c" using n by simp
  have "hangs_at (mappings d) 0 []" by (simp add: hangs_at_def)
  moreover have "all_dirs d ([] @ ''/'' # cs)" using dirs path by simp
  ultimately obtain pid d1 where loop: "selectLoop idfn now True [] (''/'' # cs) 0 d = Inr (pid, d1)"
    using selectLoop_total [OF ids ok, of 0 "[]" "''/'' # cs" now] by (auto simp del: selectLoop.simps)
  have select: "txOnSelectDir idfn now (abs_path cs) True d = Inr (pid, d1)"
    using loop by (simp add: txOnSelectDir_def rebuildDirItems_abs_path [OF ncs] del: selectLoop.simps)
  have sel: "dir_ok idfn d1" "hangs_at (mappings d1) pid (''/'' # cs)" "grows d d1 (''/'' # cs)" "pid \<noteq> 0"
    using txOnSelectDir_tree [OF ids ok ncs select] by auto
  have "lookup d1 (items p) = None"
  proof (rule ccontr)
    assume "lookup d1 (items p) \<noteq> None"
    then obtain x where "entries d1 (items p) = Some x" by (auto simp: entries_def)
    moreover have "entries d (items p) = None" using free by (simp add: entries_def)
    ultimately have "prefix (items p) (''/'' # cs)" using sel(3) unfolding grows_def by blast
    then show False using path prefix_length_le by fastforce
  qed
  then have new: "txSearchEntry pid c d1 = None"
    using search_hangs [OF dir_okD [OF sel(1)] sel(2)] sel(4) path by simp
  let ?ent = "new_entry c refdata KindFile fsize defaultEntryFileMode now"
  have name: "mr_name ?ent = c" "mr_kind ?ent = KindFile" by (simp_all add: new_entry_def)
  obtain eid d2 where create: "txCreateEntry idfn pid ?ent d1 = Inr (eid, d2)"
    using txCreateEntry_total [OF ids sel(1), of pid ?ent] new name by auto
  have "mr_kind ?ent = KindDir \<or> mr_kind ?ent = KindFile"
    and "pid = 0 \<longrightarrow> mr_name ?ent = ''/'' \<and> mr_kind ?ent = KindDir"
    using name sel(4) by simp_all
  note made = txCreateEntry_tree [OF ids sel(1,2) this create, unfolded name]
  obtain q where "row_path (mappings d2) q (''/'' # cs)"
    using made(5) sel(4) by (auto simp: hangs_at_def)
  then have "lookup d2 (''/'' # cs) = Some q" using lookup_path [OF dir_okD [OF made(1)]] by blast
  moreover have "lookup (recordChange ?p ChangeCreated now d2) = lookup d2"
    by (rule ext, rule lookup_mappings) simp
  moreover have "butlast (items ?p) = ''/'' # cs" by (simp add: items_def trim(2))
  ultimately obtain d' where "touchParent ?p now (recordChange ?p ChangeCreated now d2) = Inr d'"
    using touchParent_total [OF trim(1), of "recordChange ?p ChangeCreated now d2" now] by auto
  then show ?thesis
    using select create new by (simp add: txCreate_def Let_def split txIsEntryExist_def)
qed

section \<open>Creation is refused\<close>

lemma path_dirs:
  assumes ok: "tree_ok (mappings d)" and m: "lookup d xs = Some m"
  shows "all_dirs d (butlast xs)"
  unfolding all_dirs_def
proof (intro allI impI)
  fix ys x assume ys: "prefix ys (butlast xs)" "entries d ys = Some x"
  have path: "row_path (mappings d) m xs" using m lookup_path [OF ok] by blast
  have "prefix ys xs" using ys(1) prefixeq_butlast prefix_order.trans by blast
  then obtain zs where zs: "xs = ys @ zs" by (auto simp: prefix_def)
  have "xs \<noteq> []" using row_path_nonempty [OF path] .
  then have "length (butlast xs) < length xs" by simp
  then have "zs \<noteq> []" using prefix_length_le [OF ys(1)] zs by auto
  obtain y where y: "lookup d ys = Some y" "x = bare y" using ys(2) by (auto simp: entries_def)
  then have "row_path (mappings d) y ys" using lookup_path [OF ok] by blast
  moreover have "ys \<noteq> []" using calculation row_path_nonempty by blast
  ultimately have "mr_kind y = KindDir"
    using row_path_prefix [of "mappings d" m ys zs] path zs \<open>zs \<noteq> []\<close> row_path_inj [OF ok] by metis
  then show "mr_kind x = KindDir" using y(2) by simp
qed

lemma selectLoop_file:
  assumes ok: "tree_ok (mappings d)"
  shows "hangs_at (mappings d) pid seen \<Longrightarrow> (pid = 0 \<longrightarrow> hd (ys @ [c]) = ''/'') \<Longrightarrow>
    lookup d (seen @ ys @ [c]) = Some m \<Longrightarrow> mr_kind m \<noteq> KindDir \<Longrightarrow>
    selectLoop idfn now True seen ((ys @ [c]) @ zs) pid d = Inl ErrPathComponentNotDirectory"
proof (induction ys arbitrary: seen pid)
  case Nil
  then have "txSearchEntry pid c d = Some m" using search_hangs [OF ok] by simp
  then show ?case using Nil.prems(4) by (simp add: txSelectDirComponent_def)
next
  case (Cons y ys)
  have path: "row_path (mappings d) m ((seen @ [y]) @ ys @ [c])"
    using Cons.prems(3) lookup_path [OF ok] by simp
  from row_path_prefix [OF path] obtain q where q: "row_path (mappings d) q (seen @ [y])" "mr_kind q = KindDir"
    by auto
  have "lookup d (seen @ [y]) = Some q" using q(1) lookup_path [OF ok] by blast
  moreover have root: "pid = 0 \<longrightarrow> y = ''/''" using Cons.prems(2) by simp
  ultimately have search: "txSearchEntry pid y d = Some q"
    using search_hangs [OF ok Cons.prems(1) root] by simp
  have "mr_entry_id q \<noteq> 0" using tree_okD(3) [OF ok row_path_in [OF q(1)]] .
  moreover have "hangs_at (mappings d) (mr_entry_id q) (seen @ [y])" using q by (auto simp: hangs_at_def)
  ultimately have "selectLoop idfn now True (seen @ [y]) ((ys @ [c]) @ zs) (mr_entry_id q) d =
      Inl ErrPathComponentNotDirectory"
    using Cons.IH [of "mr_entry_id q" "seen @ [y]"] Cons.prems(3,4) by simp
  then show ?case using search q(2) by (simp add: txSelectDirComponent_def)
qed

lemma txCreate_exists:
  assumes ids: "good_ids idfn" and ok: "dir_ok idfn d" and p: "absolute p" "components p \<noteq> []"
    and m: "lookup d (items p) = Some m"
  shows "txCreate idfn now p fsize refdata d = Inl ErrExist"
proof -
  let ?p = "TrimSuffixSlash p"
  obtain cs c where cs: "components p = cs @ [c]" using p(2) by (metis append_butlast_last_id)
  have n: "\<forall>c\<in>set (cs @ [c]). normal c" using components_normal [of p] cs by simp
  have "Clean ?p = abs_path (cs @ [c])" using components_TrimSuffixSlash [OF p] Clean_components cs by simp
  note split = splitFilename_abs [OF this n]
  have path: "items p = (''/'' # cs) @ [c]" by (simp add: items_def cs)
  have ncs: "\<forall>c\<in>set cs. normal c" using n by simp
  have "all_dirs d ([] @ ''/'' # cs)" using path_dirs [OF dir_okD [OF ok] m] path by simp
  moreover have "hangs_at (mappings d) 0 []" by (simp add: hangs_at_def)
  ultimately obtain pid d1 where loop: "selectLoop idfn now True [] (''/'' # cs) 0 d = Inr (pid, d1)"
    using selectLoop_total [OF ids ok, of 0 "[]" "''/'' # cs" now] by (auto simp del: selectLoop.simps)
  have select: "txOnSelectDir idfn now (abs_path cs) True d = Inr (pid, d1)"
    using loop by (simp add: txOnSelectDir_def rebuildDirItems_abs_path [OF ncs] del: selectLoop.simps)
  have sel: "dir_ok idfn d1" "hangs_at (mappings d1) pid (''/'' # cs)" "grows d d1 (''/'' # cs)" "pid \<noteq> 0"
    using txOnSelectDir_tree [OF ids ok ncs select] by auto
  have "entries d1 (items p) = Some (bare m)"
    using sel(3) m unfolding grows_def by (simp add: entries_def)
  then have "lookup d1 (items p) \<noteq> None" by (auto simp: entries_def)
  then have "txIsEntryExist pid c d1"
    using search_hangs [OF dir_okD [OF sel(1)] sel(2), of c] sel(4) path by (simp add: txIsEntryExist_def)
  then show ?thesis using select by (simp add: txCreate_def Let_def split)
qed

lemma txCreate_below_file:
  assumes ids: "good_ids idfn" and ok: "dir_ok idfn d" and p: "absolute p" "components p \<noteq> []"
    and m: "lookup d xs = Some m" "mr_kind m \<noteq> KindDir" and xs: "prefix xs (butlast (items p))"
  shows "txCreate idfn now p fsize refdata d = Inl ErrPathComponentNotDirectory"
proof -
  let ?p = "TrimSuffixSlash p"
  obtain cs c where cs: "components p = cs @ [c]" using p(2) by (metis append_butlast_last_id)
  have n: "\<forall>c\<in>set (cs @ [c]). normal c" using components_normal [of p] cs by simp
  have "Clean ?p = abs_path (cs @ [c])" using components_TrimSuffixSlash [OF p] Clean_components cs by simp
  note split = splitFilename_abs [OF this n]
  have ncs: "\<forall>c\<in>set cs. normal c" using n by simp
  have "xs \<noteq> []" using m(1) by (auto simp: lookup_def)
  then obtain ys b where ys: "xs = ys @ [b]" by (metis append_butlast_last_id)
  obtain zs where zs: "''/'' # cs = (ys @ [b]) @ zs" using xs ys by (auto simp: prefix_def items_def cs)
  then have hd: "hd (ys @ [b]) = ''/''" by (metis append_is_Nil_conv hd_append2 list.sel(1) not_Cons_self2)
  have hang: "hangs_at (mappings d) 0 []" by (simp add: hangs_at_def)
  from selectLoop_file [OF dir_okD [OF ok] hang] hd m ys
  have "selectLoop idfn now True [] ((ys @ [b]) @ zs) 0 d = Inl ErrPathComponentNotDirectory" by simp
  then have "txOnSelectDir idfn now (abs_path cs) True d = Inl ErrPathComponentNotDirectory"
    unfolding zs [symmetric] by (simp add: txOnSelectDir_def rebuildDirItems_abs_path [OF ncs] del: selectLoop.simps)
  then show ?thesis by (simp add: txCreate_def Let_def split)
qed

section \<open>Listing\<close>

lemma filter_beyond:
  assumes "sorted (map f xs)" and "distinct (map f xs)" and "i < length xs"
  shows "filter (\<lambda>x. f (xs ! i) < f x) xs = drop (Suc i) xs"
proof -
  have low: "\<not> f (xs ! i) < f x" if x: "x \<in> set (take (Suc i) xs)" for x
  proof -
    from x obtain j where j: "j < Suc i" "x = xs ! j" using assms(3) by (auto simp: in_set_conv_nth)
    then have "f (xs ! j) \<le> f (xs ! i)"
      using sorted_nth_mono [OF assms(1), of j i] assms(3) by simp
    then show ?thesis using j by (simp add: not_less)
  qed
  have high: "f (xs ! i) < f x" if x: "x \<in> set (drop (Suc i) xs)" for x
  proof -
    from x obtain k where k: "k < length (drop (Suc i) xs)" "x = drop (Suc i) xs ! k"
      by (auto simp: in_set_conv_nth)
    then have "Suc i + k < length xs" "x = xs ! (Suc i + k)" by simp_all
    then have "f (xs ! i) \<le> f x" "f (xs ! i) \<noteq> f x"
      using sorted_nth_mono [OF assms(1), of i "Suc i + k"] assms(3)
        nth_eq_iff_index_eq [OF assms(2), of i "Suc i + k"] by simp_all
    then show ?thesis by simp
  qed
  have "filter (\<lambda>x. f (xs ! i) < f x) (take (Suc i) xs @ drop (Suc i) xs) = drop (Suc i) xs"
    using low high by (simp add: filter_empty_conv filter_id_conv del: append_take_drop_id)
  then show ?thesis by (simp only: append_take_drop_id)
qed

text \<open>All entries of a directory in page order, and the cursor that points at one of them.\<close>

definition in_page_order :: "nat \<Rightarrow> db \<Rightarrow> mapping_row list" where
  "in_page_order parentID d = sort_key page_key (filter (\<lambda>m. mr_parent m = parentID) (mappings d))"

definition cursor_of :: "mapping_row \<Rightarrow> PageCursor" where
  "cursor_of m = \<lparr>pc_IsDir = (mr_kind m = KindDir), pc_Name = mr_name m, pc_EntryID = mr_entry_id m\<rparr>"

lemma page_order_keys:
  assumes "tree_ok (mappings d)"
  shows "sorted (map page_key (in_page_order parentID d))" and "distinct (map page_key (in_page_order parentID d))"
proof -
  show "sorted (map page_key (in_page_order parentID d))" by (simp add: in_page_order_def)
  have "distinct (map mr_entry_id (mappings d))"
    using tree_okD(2) [OF assms] by (simp add: unique_by_def)
  then have "distinct (mappings d)" "inj_on page_key (set (mappings d))"
    by (auto simp: distinct_map inj_on_def page_key_def)
  then show "distinct (map page_key (in_page_order parentID d))"
    by (auto simp: in_page_order_def distinct_map inj_on_def)
qed

lemma txListDirPage_first: "txListDirPage parentID None limit d = take limit (in_page_order parentID d)"
  by (simp add: txListDirPage_def in_page_order_def)

lemma txListDirPage_after:
  assumes ok: "tree_ok (mappings d)" and i: "i < length (in_page_order parentID d)"
  shows "txListDirPage parentID (Some (cursor_of (in_page_order parentID d ! i))) limit d =
    take limit (drop (Suc i) (in_page_order parentID d))"
proof -
  let ?L = "in_page_order parentID d"
  let ?c = "?L ! i"
  have "?c \<in> set ?L" using i by simp
  then have "?c \<in> set (mappings d)" by (simp add: in_page_order_def)
  then have kind: "mr_kind ?c = KindDir \<or> mr_kind ?c = KindFile" using tree_okD(5) [OF ok] by blast
  have "filter (\<lambda>m. mr_parent m = parentID \<and>
          (case Some (cursor_of ?c) of None \<Rightarrow> True | Some c \<Rightarrow>
               let kind = (if pc_IsDir c then KindDir else KindFile)
               in mr_kind m > kind \<or> (mr_kind m = kind \<and> mr_name m > pc_Name c) \<or>
                  (mr_kind m = kind \<and> mr_name m = pc_Name c \<and> mr_entry_id m > pc_EntryID c)))
          (mappings d)
      = filter (\<lambda>m. page_key ?c < page_key m) (filter (\<lambda>m. mr_parent m = parentID) (mappings d))"
    using kind by (auto simp: cursor_of_def page_key_def less_prod_def filter_filter Let_def
        intro!: filter_cong)
  then have "txListDirPage parentID (Some (cursor_of ?c)) limit d =
      take limit (filter (\<lambda>m. page_key ?c < page_key m) ?L)"
    unfolding txListDirPage_def in_page_order_def by (simp only: filter_sort)
  then show ?thesis using filter_beyond [OF page_order_keys [OF ok] i] by simp
qed

section \<open>The tree invariant\<close>

lemma txGetEntryInfo_hangs:
  assumes ok: "tree_ok (mappings d)" and p: "absolute p" "components p \<noteq> []"
    and found: "txGetEntryInfo p d = Inr (pid, e)"
  shows "\<exists>q. lookup d (butlast (items p)) = Some q \<and> mr_kind q = KindDir \<and> pid = mr_entry_id q \<and> e = lookup d (items p)"
proof -
  obtain cs c where cs: "components p = cs @ [c]" using p(2) by (metis append_butlast_last_id)
  have n: "\<forall>c\<in>set (cs @ [c]). normal c" using components_normal [of p] cs by simp
  have clean: "Clean p = abs_path (cs @ [c])" using Clean_components [OF p(1)] cs by simp
  have "findLoop (''/'' # cs) 0 d = Inr pid"
    using found txGetEntryInfo_abs [OF clean n, of d] by (auto simp: bind_result_Inr_iff simp del: findLoop.simps)
  then obtain q where "row_path (mappings d) q (''/'' # cs)" "mr_kind q = KindDir" "pid = mr_entry_id q"
    using findLoop_path [OF ok, of "''/'' # cs"] by blast
  moreover have "butlast (items p) = ''/'' # cs" by (simp add: items_def cs)
  moreover have "e = lookup d (items p)" by (rule txGetEntryInfo_lookup(1) [OF p(1) found])
  ultimately show ?thesis using lookup_path [OF ok] by metis
qed

lemma dir_ok_map:
  assumes ok: "dir_ok idfn d" and f: "\<And>m. same_place m (f m)" and d': "mappings d' = map f (mappings d)" "id_seq d' = id_seq d"
  shows "dir_ok idfn d'"
proof -
  have "mr_entry_id (f m) = mr_entry_id m" for m using f [of m] by (simp add: same_place_def)
  then show ?thesis using tree_ok_map [of f, OF f] ok d' by (auto simp: dir_ok_def)
qed

lemma dir_ok_new:
  assumes ids: "good_ids idfn" and ok: "dir_ok idfn d" and hang: "hangs_at (mappings d) pid P"
    and kind: "mr_kind ent = KindDir \<or> mr_kind ent = KindFile"
    and root: "pid = 0 \<longrightarrow> mr_name ent = ''/'' \<and> mr_kind ent = KindDir"
    and create: "txCreateEntry idfn pid ent d = Inr (eid, d')"
  shows "dir_ok idfn d'"
  by (rule txCreateEntry_tree(1) [OF ids ok hang kind root create])

lemma txMkdir_ok:
  assumes ids: "good_ids idfn" and ok: "dir_ok idfn d" and p: "absolute p" "components p \<noteq> []"
    and mk: "txMkdir idfn now p d = Inr (e, d')"
  shows "dir_ok idfn d'"
proof -
  let ?p = "TrimSuffixSlash p"
  obtain cs c where cs: "components p = cs @ [c]" using p(2) by (metis append_butlast_last_id)
  have n: "\<forall>c\<in>set (cs @ [c]). normal c" using components_normal [of p] cs by simp
  have "Clean ?p = abs_path (cs @ [c])" using components_TrimSuffixSlash [OF p] Clean_components cs by simp
  note split = splitFilename_abs [OF this n]
  have ncs: "\<forall>c\<in>set cs. normal c" using n by simp
  from mk obtain pid eid d1 where find: "findDir (abs_path cs) d = Inr pid"
    and new: "txCreateDir idfn now pid c d = Inr (eid, d1)"
    and touch: "touchParent ?p now (recordChange ?p ChangeCreated now d1) = Inr d'"
    by (auto simp: txMkdir_def Let_def split bind_result_Inr_iff split: sum.splits if_splits option.splits)
  have "findLoop (''/'' # cs) 0 d = Inr pid"
    using find by (simp add: findDir_def rebuildDirItems_abs_path [OF ncs] del: findLoop.simps)
  then obtain q where q: "row_path (mappings d) q (''/'' # cs)" "mr_kind q = KindDir" "pid = mr_entry_id q"
    using findLoop_path [OF dir_okD [OF ok], of "''/'' # cs"] by blast
  then have "hangs_at (mappings d) pid (''/'' # cs)" by (auto simp: hangs_at_def)
  moreover have "pid \<noteq> 0" using q tree_okD(3) [OF dir_okD [OF ok] row_path_in [OF q(1)]] by simp
  ultimately have "dir_ok idfn d1"
    using dir_ok_new [OF ids ok _ _ _ new [unfolded txCreateDir_def]] by (simp add: new_entry_def)
  then show ?thesis using dir_ok_touchParent [OF _ touch] by simp
qed

lemma dirMkdir_ok:
  assumes ids: "good_ids idfn" and ok: "dir_ok idfn d" and p: "absolute p" and mk: "dirMkdir idfn now p d = Inr d'"
  shows "dir_ok idfn d'"
proof (cases "components p" rule: rev_cases)
  case Nil
  then have "splitFilename p = ('''', ''/'', True)" using splitFilename_root Clean_components [OF p] by simp
  then obtain e where "txCreateRoot idfn now d = Inr (e, d')" using mk by (auto simp: dirMkdir_def bind_result_Inr_iff)
  then consider "d' = d" | eid where "txCreateEntry idfn 0 (new_entry ''/'' '''' KindDir 0 defaultEntryFileMode now) d = Inr (eid, d')"
    by (auto simp: txCreateRoot_def bind_result_Inr_iff split: option.splits)
  then show ?thesis
  proof cases
    case 2
    then show ?thesis using dir_ok_new [OF ids ok _ _ _ 2, of "[]"] by (simp add: hangs_at_def new_entry_def)
  qed (simp add: ok)
next
  case (snoc cs c)
  have n: "\<forall>c\<in>set (cs @ [c]). normal c" using components_normal [of p] snoc by simp
  note split = splitFilename_abs [OF _ n, of p]
  have clean: "Clean p = abs_path (cs @ [c])" using Clean_components [OF p] snoc by simp
  have ncs: "\<forall>c\<in>set cs. normal c" using n by simp
  from mk obtain pid d1 where sel: "txOnSelectDir idfn now (abs_path cs) True d = Inr (pid, d1)"
    and rest: "d' = d1 \<or> (\<exists>eid d2. txCreateDir idfn now pid c d1 = Inr (eid, d2) \<and>
       d' = touchEntryID pid now (recordChange p ChangeCreated now d2))"
    by (auto simp: dirMkdir_def split [OF clean] bind_result_Inr_iff split: if_splits)
  have d1: "dir_ok idfn d1" "hangs_at (mappings d1) pid (''/'' # cs)" "pid \<noteq> 0"
    using txOnSelectDir_tree [OF ids ok ncs sel] by auto
  from rest show ?thesis
  proof
    assume "\<exists>eid d2. txCreateDir idfn now pid c d1 = Inr (eid, d2) \<and>
       d' = touchEntryID pid now (recordChange p ChangeCreated now d2)"
    then obtain eid d2 where new: "txCreateDir idfn now pid c d1 = Inr (eid, d2)"
      and d': "d' = touchEntryID pid now (recordChange p ChangeCreated now d2)" by blast
    have "dir_ok idfn d2"
      using dir_ok_new [OF ids d1(1,2) _ _ new [unfolded txCreateDir_def]] d1(3) by (simp add: new_entry_def)
    then show ?thesis unfolding d' by (intro dir_ok_touch) simp
  qed (simp add: d1)
qed

lemma txReplace_ok:
  assumes ok: "dir_ok idfn d" and rep: "txReplace p fsize refdata mtime now d = Inr (e, d')"
  shows "dir_ok idfn d'"
proof -
  from rep obtain q f where f: "txGetEntryInfo p d = Inr (q, f)"
    by (auto simp: txReplace_def bind_result_Inr_iff)
  with rep obtain e' where e': "f = Some e'" by (cases f) (simp_all add: txReplace_def)
  with rep f have touch: "touchParent p mtime (recordChange p ChangeUpdated now
      (d\<lparr>mappings := map (\<lambda>m. if mr_entry_id m = mr_entry_id e'
         then m\<lparr>mr_ref_data := refdata, mr_size := fsize, mr_mtime := mtime\<rparr> else m) (mappings d)\<rparr>)) = Inr d'"
    by (auto simp: txReplace_def bind_result_Inr_iff Let_def split: if_split_asm)
  have "dir_ok idfn (d\<lparr>mappings := map (\<lambda>m. if mr_entry_id m = mr_entry_id e'
         then m\<lparr>mr_ref_data := refdata, mr_size := fsize, mr_mtime := mtime\<rparr> else m) (mappings d)\<rparr>)"
    by (rule dir_ok_map [OF ok, where f = "\<lambda>m. if mr_entry_id m = mr_entry_id e'
         then m\<lparr>mr_ref_data := refdata, mr_size := fsize, mr_mtime := mtime\<rparr> else m"]) (simp_all add: same_place_def)
  then show ?thesis using dir_ok_touchParent [OF _ touch] by simp
qed

lemma txTouch_ok:
  assumes ok: "dir_ok idfn d" and "txTouch p mtime now d = Inr d'"
  shows "dir_ok idfn d'"
  using assms dir_ok_touch by (auto simp: txTouch_def bind_result_Inr_iff split: option.splits)

lemma txRemoveTree_ok:
  assumes ok: "dir_ok idfn d" and p: "absolute p" and rm: "txRemoveTree now p d = Inr (removed, d')"
  shows "dir_ok idfn d'"
proof (cases "lookup d (items p)")
  case None
  obtain q e where info: "txGetEntryInfo p d = Inr (q, e)"
    using rm by (auto simp: txRemoveTree_def bind_result_Inr_iff)
  then have "e = None" using txGetEntryInfo_lookup(1) [OF p info] None by simp
  then show ?thesis using rm info ok by (simp add: txRemoveTree_def)
next
  case (Some e)
  then show ?thesis using txRemoveTree_tree [OF ok p Some, of now] rm by auto
qed

lemma precheckMoveCopy_True:
  assumes abs: "absolute src" "absolute dst" and pre: "precheckMoveCopy src dst = Inr True"
  shows "plain src" and "plain dst" and "\<not> prefix (items src) (items dst)" and "\<not> prefix (items dst) (items src)"
proof -
  have "''..'' \<notin> set (split_on (CHR ''/'') src)" "''..'' \<notin> set (split_on (CHR ''/'') dst)"
    using pre by (auto simp: precheckMoveCopy_def rebuildDirItems_def bind_result_Inr_iff Let_def split: if_split_asm)
  then show plain: "plain src" "plain dst" using abs by (simp_all add: plain_def)
  show "\<not> prefix (items src) (items dst)" "\<not> prefix (items dst) (items src)"
    using pre precheckMoveCopy_plain [OF plain] by (auto split: if_split_asm)
qed

lemma txMove_ok:
  assumes ok: "dir_ok idfn d" and abs: "absolute src" "absolute dst"
    and mv: "txMove now src dst overwrite d = Inr (ow, d')"
  shows "dir_ok idfn d'"
proof (cases "precheckMoveCopy src dst = Inr True")
  case False
  then have "d' = d" using mv by (auto simp: txMove_def bind_result_Inr_iff split: if_split_asm)
  then show ?thesis using ok by simp
next
  case True
  note apart = precheckMoveCopy_True [OF abs True]
  have nonroot: "components dst \<noteq> []" using apart(4) by (auto simp: items_def)
  from mv True obtain d1 d2 where log: "recordTreeChanges src ChangeDeleted now d = Inr d1"
    and mv1: "txDoMove now src dst overwrite d1 = Inr d2"
    by (auto simp: txMove_def bind_result_Inr_iff)
  from log obtain q e where e: "txGetEntryInfo src d = Inr (q, Some e)"
    by (auto simp: recordTreeChanges_def bind_result_Inr_iff split: option.split_asm)
  have e': "lookup d (items src) = Some e" using txGetEntryInfo_lookup(1) [OF abs(1) e] by simp
  have "log_only d d1"
    using recordTreeChanges_total [OF dir_okD [OF ok] abs(1) e', of ChangeDeleted now] log by simp
  then have same: "mappings d1 = mappings d" by (rule log_only_mappings)
  have l1: "lookup d1 = lookup d" by (rule ext) (rule lookup_mappings [OF same])
  have "lookup d1 (items src) = Some e" using l1 e' by simp
  then obtain q1 where e1: "txGetEntryInfo src d1 = Inr (q1, Some e)" using txGetEntryInfo_found [OF abs(1)] by blast
  obtain dir name where split: "splitFilename dst = (dir, name, False)"
    using splitFilename_items [OF abs(2) nonroot] by blast
  from mv1 True e1 obtain pid f where dst: "txGetEntryInfo dst d1 = Inr (pid, f)"
    by (auto simp: txDoMove_def bind_result_Inr_iff)
  with mv1 True e1 split have over: "overwrite \<or> f = None"
    by (cases f; cases overwrite) (simp_all add: txDoMove_def)
  obtain p where p: "lookup d (butlast (items dst)) = Some p" "mr_kind p = KindDir" and f: "f = lookup d (items dst)"
    using txGetEntryInfo_hangs [OF _ abs(2) nonroot dst] dir_okD [OF ok] unfolding same l1 by blast
  have "overwrite \<or> lookup d (items dst) = None" using over f by simp
  from txMove_tree [OF ok apart(1,2,3,4) e' p this, of now] mv show ?thesis by auto
qed

lemma txDoIterAndCopy_shallow_ok:
  assumes ids: "good_ids idfn" and ok: "dir_ok idfn d" and src: "s \<in> set (mappings d)"
    and hang: "hangs_at (mappings d) pid P" "pid \<noteq> 0"
    and cp: "txDoIterAndCopy depth idfn now s0 pid q c False d = Inr d'" and s0: "mr_kind s0 = mr_kind s"
  shows "dir_ok idfn d'"
proof (cases depth)
  case (Suc k)
  then obtain eid d1 where new: "txCreateEntry idfn pid
       (new_entry c (mr_ref_data s0) (mr_kind s0) (mr_size s0) (mr_mode s0) now) d = Inr (eid, d1)"
    and d': "d' = recordChange q ChangeCreated now d1"
    using cp by (auto simp: bind_result_Inr_iff Let_def)
  have "mr_kind s0 = KindDir \<or> mr_kind s0 = KindFile" using tree_okD(5) [OF dir_okD [OF ok] src] s0 by simp
  then have "dir_ok idfn d1"
    using dir_ok_new [OF ids ok hang(1) _ _ new] hang(2) by (simp add: new_entry_def)
  then show ?thesis by (simp add: d')
qed (use cp in simp)

lemma txCopy_requires:
  assumes ok: "dir_ok idfn d" and abs: "absolute src" "absolute dst"
    and cp: "txDoCopyDepth idfn now src dst overwrite recursive d = Inr d'"
    and True: "precheckMoveCopy src dst = Inr True"
  shows "\<exists>e p. lookup d (items src) = Some e \<and> lookup d (butlast (items dst)) = Some p \<and> mr_kind p = KindDir \<and>
    (overwrite \<or> lookup d (items dst) = None)"
proof -
  note apart = precheckMoveCopy_True [OF abs True]
  have nonroot: "components dst \<noteq> []" using apart(4) by (auto simp: items_def)
  from cp True obtain q g where g: "txGetEntryInfo src d = Inr (q, g)"
    by (auto simp: txDoCopyDepth_def bind_result_Inr_iff)
  with cp True obtain e where g': "g = Some e" by (cases g) (simp_all add: txDoCopyDepth_def)
  have e: "txGetEntryInfo src d = Inr (q, Some e)" using g g' by simp
  obtain dir name where split: "splitFilename dst = (dir, name, False)"
    using splitFilename_items [OF abs(2) nonroot] by blast
  with cp True e obtain pid f where dst: "txGetEntryInfo dst d = Inr (pid, f)"
    by (auto simp: txDoCopyDepth_def bind_result_Inr_iff)
  with cp True e split have over: "overwrite \<or> f = None"
    by (cases f; cases overwrite) (simp_all add: txDoCopyDepth_def)
  have e': "lookup d (items src) = Some e" using txGetEntryInfo_lookup(1) [OF abs(1) e] by simp
  from txGetEntryInfo_hangs [OF dir_okD [OF ok] abs(2) nonroot dst] obtain p where
    "lookup d (butlast (items dst)) = Some p" "mr_kind p = KindDir" "f = lookup d (items dst)" by blast
  then show ?thesis using e' over by blast
qed

lemma txDoCopyDepth_shallow_ok:
  assumes ids: "good_ids idfn" and ok: "dir_ok idfn d" and abs: "absolute src" "absolute dst"
    and True: "precheckMoveCopy src dst = Inr True"
    and cp: "txDoCopyDepth idfn now src dst overwrite False d = Inr d'"
  shows "dir_ok idfn d'"
proof -
  note tree = dir_okD [OF ok] and apart = precheckMoveCopy_True [OF abs True]
  have nonroot: "components dst \<noteq> []" using apart(4) by (auto simp: items_def)
  obtain e p where e: "lookup d (items src) = Some e" and p: "lookup d (butlast (items dst)) = Some p" "mr_kind p = KindDir"
    and over: "overwrite \<or> lookup d (items dst) = None"
    using txCopy_requires [OF ok abs cp True] by blast
  have path_p: "row_path (mappings d) p (butlast (items dst))" using p(1) lookup_path [OF tree] by blast
  obtain q where sinfo: "txGetEntryInfo src d = Inr (q, Some e)" using txGetEntryInfo_found [OF abs(1) e] by blast
  note dinfo = txGetEntryInfo_parent [OF tree abs(2) nonroot path_p p(2)]
  obtain dir name where split: "splitFilename dst = (dir, name, False)"
    using splitFilename_items [OF abs(2) nonroot] by blast
  have T: "butlast (items dst) @ [last (items dst)] = items dst" by (simp add: items_def)
  have bl: "\<not> prefix (items dst) (butlast (items dst))"
    using T by (metis length_append_singleton lessI not_le prefix_length_le)
  obtain d1 where d1: "(case lookup d (items dst) of None \<Rightarrow> Inr d | Some dinfo \<Rightarrow>
        if \<not> overwrite then Inl ErrDestinationExists
        else bind_result (collectAndRemove (length (mappings d) + 1) now (Clean dst) dinfo ([], d)) (\<lambda>(removed, d). Inr d))
      = Inr d1" and ok1: "dir_ok idfn d1"
    and l1: "\<And>zs. lookup d1 zs = (if prefix (items dst) zs then None else lookup d zs)"
    using copy_cleared [OF ok over] by blast
  have "lookup d1 (items src) = Some e" using l1 apart(4) e by simp
  then have e1: "e \<in> set (mappings d1)" using lookup_path [OF dir_okD [OF ok1]] row_path_in by blast
  have "lookup d1 (butlast (items dst)) = Some p" using l1 bl p(1) by simp
  then have hang: "hangs_at (mappings d1) (mr_entry_id p) (butlast (items dst))"
    by (rule hangs_at_lookup [OF dir_okD [OF ok1] _ p(2)])
  have "mr_entry_id p \<noteq> 0" using tree_okD(3) [OF tree row_path_in [OF path_p]] .
  moreover obtain d2 where
    d2: "txDoIterAndCopy (length (mappings d1) + 1) idfn now e (mr_entry_id p) (Clean dst) name False d1 = Inr d2"
    and touch: "touchParent dst now d2 = Inr d'"
    using cp True sinfo dinfo split d1 by (auto simp: txDoCopyDepth_def bind_result_Inr_iff)
  ultimately have "dir_ok idfn d2" using txDoIterAndCopy_shallow_ok [OF ids ok1 e1 hang _ d2 refl] by blast
  then show ?thesis using dir_ok_touchParent [OF _ touch] by blast
qed

lemma txCopyDepth_ok:
  assumes ids: "good_ids idfn" and ok: "dir_ok idfn d" and abs: "absolute src" "absolute dst"
    and cp: "txCopyDepth idfn now src dst overwrite recursive d = Inr (r, d')"
  shows "dir_ok idfn d'"
proof (cases "precheckMoveCopy src dst = Inr True")
  case False
  then have "d' = d" using cp by (auto simp: txCopyDepth_def bind_result_Inr_iff split: if_split_asm)
  then show ?thesis using ok by simp
next
  case True
  from cp True obtain d1 where cp1: "txDoCopyDepth idfn now src dst overwrite recursive d = Inr d1" and "d1 = d'"
    by (auto simp: txCopyDepth_def bind_result_Inr_iff split: option.split_asm)
  note apart = precheckMoveCopy_True [OF abs True]
  show ?thesis
  proof (cases recursive)
    case rec: True
    obtain e p where "lookup d (items src) = Some e" "lookup d (butlast (items dst)) = Some p" "mr_kind p = KindDir"
      "overwrite \<or> lookup d (items dst) = None" using txCopy_requires [OF ok abs cp1 True] by blast
    from txDoCopyDepth_tree [OF ids ok apart(1,2,3,4) this, of now] show ?thesis
      using cp1 \<open>d1 = d'\<close> rec by simp
  next
    case False
    then show ?thesis using txDoCopyDepth_shallow_ok [OF ids ok abs True, of now overwrite d'] cp1 \<open>d1 = d'\<close> by simp
  qed
qed

text \<open>One directory operation on absolute paths, and the states such operations lead to.\<close>

inductive dir_step :: "(nat \<Rightarrow> nat) \<Rightarrow> db \<Rightarrow> db \<Rightarrow> bool" for idfn where
  create: "absolute p \<Longrightarrow> components p \<noteq> [] \<Longrightarrow> txCreate idfn now p fsize refdata d = Inr (e, d') \<Longrightarrow> dir_step idfn d d'"
| mkdir: "absolute p \<Longrightarrow> components p \<noteq> [] \<Longrightarrow> txMkdir idfn now p d = Inr (e, d') \<Longrightarrow> dir_step idfn d d'"
| mkdir_all: "absolute p \<Longrightarrow> dirMkdir idfn now p d = Inr d' \<Longrightarrow> dir_step idfn d d'"
| replace: "absolute p \<Longrightarrow> txReplace p fsize refdata mtime now d = Inr (e, d') \<Longrightarrow> dir_step idfn d d'"
| touch: "absolute p \<Longrightarrow> txTouch p mtime now d = Inr d' \<Longrightarrow> dir_step idfn d d'"
| remove: "absolute p \<Longrightarrow> txRemoveTree now p d = Inr (removed, d') \<Longrightarrow> dir_step idfn d d'"
| move: "absolute p \<Longrightarrow> absolute q \<Longrightarrow> txMove now p q overwrite d = Inr (overwritten, d') \<Longrightarrow> dir_step idfn d d'"
| copy: "absolute p \<Longrightarrow> absolute q \<Longrightarrow> txCopyDepth idfn now p q overwrite recursive d = Inr (r, d') \<Longrightarrow> dir_step idfn d d'"

inductive dir_reachable :: "(nat \<Rightarrow> nat) \<Rightarrow> db \<Rightarrow> bool" for idfn where
  start: "mappings d = [] \<Longrightarrow> dir_reachable idfn d"
| step: "dir_reachable idfn d \<Longrightarrow> dir_step idfn d d' \<Longrightarrow> dir_reachable idfn d'"

inductive_cases dir_stepE: "dir_step idfn d d'"

lemma dir_step_ok:
  assumes "good_ids idfn" and "dir_step idfn d d'" and "dir_ok idfn d"
  shows "dir_ok idfn d'"
  using assms(2)
proof (cases rule: dir_step.cases)
  case create
  then show ?thesis using txCreate_tree(1) [OF assms(1,3)] by blast
next
  case mkdir
  then show ?thesis using txMkdir_ok [OF assms(1,3)] by blast
next
  case mkdir_all
  then show ?thesis using dirMkdir_ok [OF assms(1,3)] by blast
next
  case replace
  then show ?thesis using txReplace_ok [OF assms(3)] by blast
next
  case touch
  then show ?thesis using txTouch_ok [OF assms(3)] by blast
next
  case remove
  then show ?thesis using txRemoveTree_ok [OF assms(3)] by blast
next
  case move
  then show ?thesis using txMove_ok [OF assms(3)] by blast
next
  case copy
  then show ?thesis using txCopyDepth_ok [OF assms(1,3)] by blast
qed

lemma dir_reachable_ok:
  assumes "good_ids idfn" and "dir_reachable idfn d"
  shows "dir_ok idfn d"
  using assms(2)
proof (induction rule: dir_reachable.induct)
  case (start d)
  then show ?case by (simp add: dir_ok_def tree_ok_def unique_by_def)
next
  case (step d d')
  then show ?case using dir_step_ok [OF assms(1)] by blast
qed

section \<open>Properties\<close>

text \<open>
  C13: Creating a file at a path that is free, below existing directories or none, always
  succeeds. Afterwards the path leads to a file with the given size and reference, every entry
  that existed is still there unchanged (up to modification times), and the only other new
  entries are directories on the way to the path.
\<close>

theorem Create_succeeds:
  assumes "good_ids idfn" and "dir_ok idfn d" and "absolute p" and "components p \<noteq> []"
    and "lookup d (items p) = None" and "all_dirs d (butlast (items p))"
  shows "\<exists>e d'. txCreate idfn now p fsize refdata d = Inr (e, d') \<and> dir_ok idfn d' \<and>
    (\<exists>m. dirStat p d' = Inr m \<and> mr_kind m = KindFile \<and> mr_size m = fsize \<and> mr_ref_data m = refdata) \<and>
    (\<forall>xs x. entries d xs = Some x \<longrightarrow> entries d' xs = Some x) \<and>
    (\<forall>xs x. entries d xs = None \<longrightarrow> entries d' xs = Some x \<longrightarrow>
       xs = items p \<or> (strict_prefix xs (items p) \<and> mr_kind x = KindDir))"
proof -
  obtain e d' where create: "txCreate idfn now p fsize refdata d = Inr (e, d')"
    using txCreate_total [OF assms] by blast
  note tree = txCreate_tree [OF assms(1-4) create]
  have "\<exists>m. dirStat p d' = Inr m \<and> mr_kind m = KindFile \<and> mr_size m = fsize \<and> mr_ref_data m = refdata"
    using tree(3) dirStat_lookup [OF assms(3)] by blast
  then show ?thesis using create tree(1,4,5) by blast
qed

definition sample_db :: db where
  "sample_db =
     (case txCreate Suc 5 ''/a/x'' 3 ''7'' empty_db of Inr (_, d) \<Rightarrow> d | Inl _ \<Rightarrow> empty_db)"

lemma good_ids_Suc [simp]: "good_ids Suc"
  by (simp add: good_ids_def)

lemma dir_ok_empty [simp]: "dir_ok idfn empty_db"
  by (simp add: dir_ok_def tree_ok_def unique_by_def empty_db_def)

lemma mappings_empty [simp]: "mappings empty_db = []"
  by (simp add: empty_db_def)

lemma all_dirs_empty [simp]: "all_dirs empty_db xs"
proof -
  have "entries empty_db ys = None" for ys
    by (auto simp: entries_def lookup_def txSearchEntry_def empty_db_def split: sum.split)
  then show ?thesis by (simp add: all_dirs_def)
qed

lemma absolute_code [simp]: "absolute (CHR ''/'' # p)"
  by (simp add: absolute_def)

lemma sample_created: "\<exists>e. txCreate Suc 5 ''/a/x'' 3 ''7'' empty_db = Inr (e, sample_db)"
proof -
  have "\<not> isl (txCreate Suc 5 ''/a/x'' 3 ''7'' empty_db)" by code_simp
  then obtain e d' where "txCreate Suc 5 ''/a/x'' 3 ''7'' empty_db = Inr (e, d')"
    by (cases "txCreate Suc 5 ''/a/x'' 3 ''7'' empty_db") auto
  then show ?thesis by (simp add: sample_db_def)
qed

lemma dir_ok_sample: "dir_ok Suc sample_db"
proof -
  have "components ''/a/x'' \<noteq> []" by code_simp
  then show ?thesis
    using sample_created txCreate_tree(1) [OF good_ids_Suc dir_ok_empty, of "''/a/x''" 5 3 "''7''"] by auto
qed

theorem Create_succeeds_witness:
  "\<exists>e d'. txCreate Suc 5 ''/a/x'' 3 ''7'' empty_db = Inr (e, d') \<and>
    (\<exists>m. dirStat ''/a/x'' d' = Inr m \<and> mr_kind m = KindFile \<and> mr_size m = 3 \<and> mr_ref_data m = ''7'')"
proof -
  have "components ''/a/x'' \<noteq> []" "lookup empty_db (items ''/a/x'') = None" by code_simp+
  then show ?thesis
    using Create_succeeds [of Suc empty_db "''/a/x''" 5 3 "''7''"] by auto
qed

text \<open>
  C14: A creation at an occupied path fails with the already-exists error, and one below a file
  with the not-a-directory error; neither changes the database, since the transaction is
  rolled back.
\<close>

theorem Create_refused:
  assumes "good_ids idfn" and "dir_ok idfn d" and "absolute p" and "components p \<noteq> []"
    and "lookup d xs = Some m" and "mr_kind m = KindFile \<and> strict_prefix xs (items p) \<or> xs = items p"
  shows "dirCreate idfn now p fsize refdata d =
    Inl (if xs = items p then ErrExist else ErrPathComponentNotDirectory)"
proof (cases "xs = items p")
  case True
  then show ?thesis using txCreate_exists [OF assms(1-4)] assms(5) by (simp add: dirCreate_def)
next
  case False
  then have kind: "mr_kind m \<noteq> KindDir" and pre: "strict_prefix xs (items p)" using assms(6) by auto
  have "items p \<noteq> []" by (simp add: items_def)
  then have "prefix xs (butlast (items p))"
    using pre by (metis append_butlast_last_id prefix_snoc strict_prefix_def)
  from txCreate_below_file [OF assms(1-5) kind this] show ?thesis using False by (simp add: dirCreate_def)
qed

lemma sample_facts:
  "components ''/a/x/y'' \<noteq> []" "components ''/b'' \<noteq> []"
  "strict_prefix (items ''/a/x'') (items ''/a/x/y'')" "items ''/a/x'' \<noteq> items ''/a/x/y''"
  "\<not> prefix (items ''/a'') (items ''/b'')" "\<not> prefix (items ''/b'') (items ''/a'')"
  "plain ''/a''" "plain ''/b''" "lookup sample_db (items ''/b'') = None"
  by code_simp+

lemma sample_lookup:
  "\<exists>m. lookup sample_db (items ''/a/x'') = Some m \<and> mr_kind m = KindFile \<and> mr_ref_data m = ''7''"
  "\<exists>m. lookup sample_db (items ''/a'') = Some m \<and> mr_kind m = KindDir"
  "\<exists>m. lookup sample_db (butlast (items ''/b'')) = Some m \<and> mr_kind m = KindDir"
proof -
  have "(case lookup sample_db (items ''/a/x'') of None \<Rightarrow> False | Some m \<Rightarrow> mr_kind m = KindFile \<and> mr_ref_data m = ''7'')"
    by code_simp
  then show "\<exists>m. lookup sample_db (items ''/a/x'') = Some m \<and> mr_kind m = KindFile \<and> mr_ref_data m = ''7''"
    by (simp split: option.splits)
  have "(case lookup sample_db (items ''/a'') of None \<Rightarrow> False | Some m \<Rightarrow> mr_kind m = KindDir)" by code_simp
  then show "\<exists>m. lookup sample_db (items ''/a'') = Some m \<and> mr_kind m = KindDir" by (simp split: option.splits)
  have "(case lookup sample_db (butlast (items ''/b'')) of None \<Rightarrow> False | Some m \<Rightarrow> mr_kind m = KindDir)" by code_simp
  then show "\<exists>m. lookup sample_db (butlast (items ''/b'')) = Some m \<and> mr_kind m = KindDir" by (simp split: option.splits)
qed

theorem Create_refused_witness:
  "dirCreate Suc 5 ''/a/x/y'' 3 ''8'' sample_db = Inl ErrPathComponentNotDirectory"
proof -
  obtain m where m: "lookup sample_db (items ''/a/x'') = Some m" "mr_kind m = KindFile" using sample_lookup(1) by blast
  show ?thesis
    using Create_refused [of Suc sample_db "''/a/x/y''" "items ''/a/x''" m 5 3 "''8''"] m dir_ok_sample sample_facts(1,3,4)
    by simp
qed

text \<open>
  C12: Removing an existing path always succeeds, reports exactly the entries of the subtree, and
  leaves the map of paths as it was except that every path at or below the removed one is gone.
\<close>

theorem Remove_subtree:
  assumes "dir_ok idfn d" and "absolute p" and "lookup d (items p) = Some e"
  shows "\<exists>removed d'. txRemoveTree now p d = Inr (removed, d') \<and> dir_ok idfn d' \<and> dir_frame d d' \<and>
    set removed = {m \<in> set (mappings d). in_subtree (mappings d) (items p) m} \<and>
    (\<forall>zs. entries d' zs = (if prefix (items p) zs then None else entries d zs))"
  by (rule txRemoveTree_tree [OF assms])

theorem Remove_subtree_witness:
  "\<exists>removed d'. txRemoveTree 9 ''/a'' sample_db = Inr (removed, d') \<and> entries d' (items ''/a/x'') = None"
proof -
  obtain m where m: "lookup sample_db (items ''/a'') = Some m" using sample_lookup(2) by blast
  have "prefix (items ''/a'') (items ''/a/x'')" by code_simp
  then show ?thesis using Remove_subtree [OF dir_ok_sample absolute_code m, of 9] by auto
qed

text \<open>
  C10: Moving an entry to a path with an existing parent directory, not inside itself, succeeds
  when the destination is free or may be overwritten. Then the whole source subtree is found
  below the destination with the same identifiers and contents, no path below the source leads
  anywhere, all other paths lead where they led, and the overwritten entries are reported.
\<close>

theorem Move_subtree:
  assumes "dir_ok idfn d" and "plain src" and "plain dst"
    and "\<not> prefix (items src) (items dst)" and "\<not> prefix (items dst) (items src)"
    and "lookup d (items src) = Some e"
    and "lookup d (butlast (items dst)) = Some p" and "mr_kind p = KindDir"
    and "overwrite \<or> lookup d (items dst) = None"
  shows "\<exists>overwritten d'. txMove now src dst overwrite d = Inr (overwritten, d') \<and>
    dir_ok idfn d' \<and> dir_frame d d' \<and>
    set overwritten = {m \<in> set (mappings d). in_subtree (mappings d) (items dst) m} \<and>
    moved (items src) (items dst) d d'"
  by (rule txMove_tree [OF assms])

theorem Move_subtree_witness:
  "\<exists>overwritten d'. txMove 9 ''/a'' ''/b'' False sample_db = Inr (overwritten, d') \<and>
    contents d' (items ''/b/x'') = contents sample_db (items ''/a/x'') \<and> contents d' (items ''/a/x'') = None"
proof -
  obtain e where e: "lookup sample_db (items ''/a'') = Some e" using sample_lookup(2) by blast
  obtain p where p: "lookup sample_db (butlast (items ''/b'')) = Some p" "mr_kind p = KindDir" using sample_lookup(3) by blast
  have free: "False \<or> lookup sample_db (items ''/b'') = None" using sample_facts(9) by simp
  have "prefix (items ''/b'') (items ''/b/x'')" "\<not> prefix (items ''/b'') (items ''/a/x'')"
    "prefix (items ''/a'') (items ''/a/x'')"
    "items ''/a'' @ drop (length (items ''/b'')) (items ''/b/x'') = items ''/a/x''" by code_simp+
  then show ?thesis
    using Move_subtree [OF dir_ok_sample sample_facts(7,8,5,6) e p free, of 9] unfolding moved_def by auto
qed

text \<open>
  C11: Copying a subtree under the same conditions succeeds. Every path below the destination
  then has the kind, reference, size and mode of its counterpart below the source, every other
  path is unchanged, the overwritten entries are reported, and the reported pairs relate each
  source entry to its copy.
\<close>

theorem Copy_subtree:
  assumes "good_ids idfn" and "dir_ok idfn d" and "plain src" and "plain dst"
    and "\<not> prefix (items src) (items dst)" and "\<not> prefix (items dst) (items src)"
    and "lookup d (items src) = Some e"
    and "lookup d (butlast (items dst)) = Some p" and "mr_kind p = KindDir"
    and "overwrite \<or> lookup d (items dst) = None"
  shows "\<exists>pairs overwritten d'. txCopy idfn now src dst overwrite d = Inr ((pairs, overwritten), d') \<and>
    dir_ok idfn d' \<and> dir_frame d d' \<and> duplicated (items src) (items dst) d d' \<and>
    set overwritten = {m \<in> set (mappings d). in_subtree (mappings d) (items dst) m} \<and>
    set pairs = {(a, b). \<exists>zs. lookup d' (items src @ zs) = Some a \<and> lookup d' (items dst @ zs) = Some b}"
  by (rule txCopy_tree [OF assms])

theorem Copy_subtree_witness:
  "\<exists>r d'. txCopy Suc 9 ''/a'' ''/b'' False sample_db = Inr (r, d') \<and>
    info_at d' (items ''/b/x'') = info_at sample_db (items ''/a/x'')"
proof -
  obtain e where e: "lookup sample_db (items ''/a'') = Some e" using sample_lookup(2) by blast
  obtain p where p: "lookup sample_db (butlast (items ''/b'')) = Some p" "mr_kind p = KindDir" using sample_lookup(3) by blast
  have free: "False \<or> lookup sample_db (items ''/b'') = None" using sample_facts(9) by simp
  have "items ''/b/x'' = items ''/b'' @ [''x'']" "items ''/a/x'' = items ''/a'' @ [''x'']" by code_simp+
  then show ?thesis
    using Copy_subtree [OF good_ids_Suc dir_ok_sample sample_facts(7,8,5,6) e p free, of 9] unfolding duplicated_def by auto
qed

text \<open>
  C9: In every state reached by directory operations from an empty table, whatever their order,
  each row is found at exactly one path: the table is always a tree.
\<close>

theorem Reachable_tree:
  assumes "good_ids idfn" and "dir_reachable idfn d" and "m \<in> set (mappings d)"
  shows "\<exists>!xs. lookup d xs = Some m"
proof -
  have ok: "tree_ok (mappings d)" using dir_okD [OF dir_reachable_ok [OF assms(1,2)]] .
  obtain xs where "row_path (mappings d) m xs" using tree_okD(6) [OF ok assms(3)] by blast
  then show ?thesis using lookup_path [OF ok] row_path_unique [OF ok] by blast
qed

theorem Reachable_tree_witness: "\<exists>!xs. lookup sample_db xs = Some (mappings sample_db ! 2)"
proof -
  have "2 < length (mappings sample_db)" by code_simp
  then have "mappings sample_db ! 2 \<in> set (mappings sample_db)" by simp
  moreover
  have "dir_reachable Suc sample_db"
  proof -
    have "components ''/a/x'' \<noteq> []" by code_simp
    moreover obtain e where "txCreate Suc 5 ''/a/x'' 3 ''7'' empty_db = Inr (e, sample_db)"
      using sample_created by blast
    ultimately show ?thesis
      using dir_reachable.step [OF dir_reachable.start dir_step.create] by (metis absolute_code mappings_empty)
  qed
  ultimately show ?thesis using Reachable_tree [OF good_ids_Suc] by blast
qed

text \<open>
  C15: Paging through a directory neither skips nor repeats an entry: the page after the cursor
  of the \<open>i\<close>-th entry holds the entries from position \<open>i + 1\<close> on, in the order of the
  first page, and says whether more follow.
\<close>

theorem ListPage_resumes:
  assumes "dir_ok idfn d" and "findDir dir d = Inr parentID" and "0 < limit" and "limit \<le> 500"
    and "i < length (in_page_order parentID d)" and "mr_name (in_page_order parentID d ! i) \<noteq> ''''"
  shows "dirListPage dir (Some (cursor_of (in_page_order parentID d ! i))) limit d =
    Inr \<lparr>dp_ParentEntryID = parentID, dp_Entries = take limit (drop (Suc i) (in_page_order parentID d)),
         dp_HasMore = (Suc i + limit < length (in_page_order parentID d))\<rparr>"
proof -
  let ?L = "in_page_order parentID d"
  have "?L ! i \<in> set ?L" using assms(5) by simp
  then have "?L ! i \<in> set (mappings d)" by (simp add: in_page_order_def)
  then have "mr_entry_id (?L ! i) \<noteq> 0" using tree_okD(3) [OF dir_okD [OF assms(1)]] by blast
  then show ?thesis
    using assms(2-4,6) txListDirPage_after [OF dir_okD [OF assms(1)] assms(5)]
    by (auto simp: dirListPage_def cursor_of_def min_def)
qed

theorem ListPage_resumes_witness:
  "dirListPage ''/a'' (Some (cursor_of (in_page_order 2 sample_db ! 0))) 10 sample_db =
     Inr \<lparr>dp_ParentEntryID = 2, dp_Entries = [], dp_HasMore = False\<rparr>"
proof -
  have len: "length (in_page_order 2 sample_db) = 1" "findDir ''/a'' sample_db = Inr 2"
    "mr_name (in_page_order 2 sample_db ! 0) \<noteq> ''''" by code_simp+
  then show ?thesis using ListPage_resumes [OF dir_ok_sample len(2), of 10 0] by simp
qed

section \<open>A guard that is bypassed\<close>


text \<open>Callers reason about whole operations and never unfold one level of a recursion.\<close>

declare collectAndRemove.simps(2) [simp del] recordTreeWalk.simps(2) [simp del] collectEntries.simps(2) [simp del]
  txDoIterAndCopy.simps(2) [simp del] collectCopyPairs.simps(2) [simp del]

end
