(* ===== verification/Block_IO.thy ===== *)
theory Block_IO
  imports Go_Lib Go_Path
begin

text \<open>
  The block backends (\<open>blockio\<close>): the interface \<open>IBlockIO\<close> as a locale over its
  operations, the in-memory and the local-file implementations that satisfy it, and the
  rotating wrapper, which turns any backend that satisfies it into another one.

  A reader is the list of bytes it will deliver and whether it ends with an error instead of
  \<open>io.EOF\<close>. The identifiers of \<open>uuid.NewString\<close> come from a generator that is part of
  the backend's state.
\<close>

section \<open>Readers\<close>

record reader =
  rd_data :: "byte list"
  rd_fails :: bool

definition ReadAll :: "reader \<Rightarrow> byte list result" where
  "ReadAll r = (if rd_fails r then Inl ErrRead else Inr (rd_data r))"

text \<open>
  \<open>io.LimitReader(r, n)\<close> read to its end: what it delivers, and what is left of the
  underlying reader. It stops after \<open>n\<close> bytes without asking for more.
\<close>

definition LimitReader :: "reader \<Rightarrow> nat \<Rightarrow> reader" where
  "LimitReader r n =
     \<lparr>rd_data = take n (rd_data r), rd_fails = (rd_fails r \<and> length (rd_data r) < n)\<rparr>"

definition afterLimit :: "reader \<Rightarrow> nat \<Rightarrow> reader" where
  "afterLimit r n = r\<lparr>rd_data := drop n (rd_data r)\<rparr>"

section \<open>The interface\<close>

record UploadResult =
  ur_FileKey :: string
  ur_DeleteRef :: string
  ur_UploadedAt :: int

text \<open>
  What a client of a backend relies on. \<open>blocks\<close> are the stored blocks by their key and
  \<open>owner\<close> tells which block a deletion reference stands for. An upload stores the content
  under a key and a reference that were not in use; a download delivers the block from the
  given position on; a successful deletion removes exactly the blocks of the given references.
\<close>

locale block_store =
  fixes up :: "int \<Rightarrow> reader \<Rightarrow> 'b \<Rightarrow> (UploadResult \<times> 'b) result"
    and down :: "string \<Rightarrow> nat \<Rightarrow> 'b \<Rightarrow> byte list result"
    and del :: "string list \<Rightarrow> 'b \<Rightarrow> unit result \<times> 'b"
    and blocks :: "'b \<Rightarrow> string \<rightharpoonup> byte list"
    and owner :: "'b \<Rightarrow> string \<rightharpoonup> string"
    and inv :: "'b \<Rightarrow> bool"
  assumes up_total: "inv b \<Longrightarrow> ReadAll r = Inr data \<Longrightarrow> \<exists>u b'. up now r b = Inr (u, b')"
    and up_inv: "inv b \<Longrightarrow> up now r b = Inr (u, b') \<Longrightarrow> inv b'"
    and up_read: "up now r b = Inr (u, b') \<Longrightarrow> ReadAll r = Inr (rd_data r)"
    and up_blocks: "inv b \<Longrightarrow> up now r b = Inr (u, b') \<Longrightarrow>
      blocks b (ur_FileKey u) = None \<and> blocks b' = (blocks b)(ur_FileKey u \<mapsto> rd_data r)"
    and up_owner: "inv b \<Longrightarrow> up now r b = Inr (u, b') \<Longrightarrow>
      owner b (ur_DeleteRef u) = None \<and> owner b' = (owner b)(ur_DeleteRef u \<mapsto> ur_FileKey u)"
    and up_named: "inv b \<Longrightarrow> up now r b = Inr (u, b') \<Longrightarrow>
      ur_FileKey u \<noteq> '''' \<and> ur_DeleteRef u \<noteq> '''' \<and> ur_UploadedAt u = now"
    and down_blocks: "inv b \<Longrightarrow> blocks b key = Some data \<Longrightarrow> down key pos b = Inr (drop pos data)"
    and del_inv: "inv b \<Longrightarrow> del refs b = (res, b') \<Longrightarrow> inv b'"
    and del_blocks: "inv b \<Longrightarrow> del refs b = (Inr u', b') \<Longrightarrow>
      blocks b' = blocks b |` (- {key. \<exists>ref\<in>set refs. owner b ref = Some key})"
    and del_only: "inv b \<Longrightarrow> del refs b = (res, b') \<Longrightarrow> blocks b key = Some data \<Longrightarrow>
      (\<forall>ref\<in>set refs. owner b ref \<noteq> Some key) \<Longrightarrow> blocks b' key = Some data"
    and del_shrinks: "inv b \<Longrightarrow> del refs b = (res, b') \<Longrightarrow> blocks b' \<subseteq>\<^sub>m blocks b \<and> owner b' \<subseteq>\<^sub>m owner b"
    and del_lost: "inv b \<Longrightarrow> del refs b = (res, b') \<Longrightarrow> owner b ref = Some key \<Longrightarrow> owner b' ref = None \<Longrightarrow> blocks b' key = None"
begin

text \<open>A block that was uploaded is read back, also after further uploads.\<close>

lemma up_down:
  assumes "inv b" and "up now r b = Inr (u, b')"
  shows "down (ur_FileKey u) pos b' = Inr (drop pos (rd_data r))"
  using up_blocks [OF assms] up_inv [OF assms] down_blocks by simp

lemma up_keeps:
  assumes "inv b" and "up now r b = Inr (u, b')" and "blocks b key = Some data"
  shows "blocks b' key = Some data"
  using up_blocks [OF assms(1,2)] assms(3) by auto

text \<open>Deleting the reference of the last upload restores the blocks.\<close>

lemma up_del:
  assumes "inv b" and "up now r b = Inr (u, b')" and "del [ur_DeleteRef u] b' = (Inr x, b'')"
  shows "blocks b'' = blocks b"
proof -
  have "{key. \<exists>ref\<in>set [ur_DeleteRef u]. owner b' ref = Some key} = {ur_FileKey u}"
    using up_owner [OF assms(1,2)] by auto
  then show ?thesis
    using del_blocks [OF up_inv [OF assms(1,2)] assms(3)] up_blocks [OF assms(1,2)]
    by (auto simp: restrict_map_def fun_eq_iff)
qed

end

section \<open>The in-memory backend\<close>

record mem_state =
  mem_blocks :: "string \<rightharpoonup> byte list"
  mem_uuid :: "nat \<Rightarrow> string"
  mem_next :: nat

definition memUpload :: "int \<Rightarrow> reader \<Rightarrow> mem_state \<Rightarrow> (UploadResult \<times> mem_state) result" where
  "memUpload now r b =
     bind_result (ReadAll r) (\<lambda>raw.
       let key = mem_uuid b (mem_next b)
       in Inr (\<lparr>ur_FileKey = key, ur_DeleteRef = key, ur_UploadedAt = now\<rparr>,
               b\<lparr>mem_blocks := (mem_blocks b)(key \<mapsto> raw), mem_next := Suc (mem_next b)\<rparr>))"

definition memDownload :: "string \<Rightarrow> nat \<Rightarrow> mem_state \<Rightarrow> byte list result" where
  "memDownload filekey pos b =
     (case mem_blocks b filekey of
        None \<Rightarrow> Inl ErrNotExist
      | Some data \<Rightarrow> Inr (drop (if length data < pos then length data else pos) data))"

fun memDeleteBlocks :: "string list \<Rightarrow> mem_state \<Rightarrow> unit result \<times> mem_state" where
  "memDeleteBlocks [] b = (Inr (), b)"
| "memDeleteBlocks (ref # refs) b =
     (if ref = '''' then (Inl ErrEmptyMemoryDeleteReference, b)
      else memDeleteBlocks refs (b\<lparr>mem_blocks := (mem_blocks b)(ref := None)\<rparr>))"

definition memNew :: "int \<Rightarrow> int" where
  "memNew bksize = (if bksize = 0 then 4 * 1024 else bksize)"

text \<open>The generator never repeats an identifier, and every stored key came from it.\<close>

definition good_uuid :: "(nat \<Rightarrow> string) \<Rightarrow> bool" where
  "good_uuid g \<longleftrightarrow> inj g \<and> (\<forall>n. normal (g n))"

definition mem_inv :: "mem_state \<Rightarrow> bool" where
  "mem_inv b \<longleftrightarrow> good_uuid (mem_uuid b) \<and> dom (mem_blocks b) \<subseteq> mem_uuid b ` {..<mem_next b}"

definition self_owner :: "(string \<rightharpoonup> byte list) \<Rightarrow> string \<rightharpoonup> string" where
  "self_owner m ref = (if m ref = None then None else Some ref)"

lemma mem_fresh:
  assumes "good_uuid g" and "dom m \<subseteq> g ` {..<n}"
  shows "m (g n) = None"
proof (rule ccontr)
  assume "m (g n) \<noteq> None"
  then have "g n \<in> g ` {..<n}" using assms(2) by blast
  then show False using assms(1) by (auto simp: good_uuid_def dest: injD)
qed

lemma self_owner_upd: "m k = None \<Longrightarrow> self_owner (m(k \<mapsto> v)) = (self_owner m)(k \<mapsto> k)"
  by (simp add: self_owner_def fun_eq_iff)

lemma self_owner_None [simp]: "self_owner m k = None \<longleftrightarrow> m k = None"
  by (simp add: self_owner_def)

lemma self_owner_mono: "m' \<subseteq>\<^sub>m m \<Longrightarrow> self_owner m' \<subseteq>\<^sub>m self_owner m"
  by (fastforce simp: map_le_def self_owner_def dom_def split: if_splits)

lemma self_owner_refs:
  "m |` (- set refs) = m |` (- {key. \<exists>ref\<in>set refs. self_owner m ref = Some key})"
  by (auto simp: restrict_map_def fun_eq_iff self_owner_def)

lemma memDeleteBlocks_frame:
  "memDeleteBlocks refs b = (res, b') \<Longrightarrow>
     mem_uuid b' = mem_uuid b \<and> mem_next b' = mem_next b \<and> mem_blocks b' \<subseteq>\<^sub>m mem_blocks b \<and>
     (\<forall>key. key \<notin> set refs \<longrightarrow> mem_blocks b' key = mem_blocks b key)"
proof (induction refs b rule: memDeleteBlocks.induct)
  case (2 ref refs b)
  show ?case
  proof (cases "ref = ''''")
    case True
    then show ?thesis using 2 by simp
  next
    case False
    then have "memDeleteBlocks refs (b\<lparr>mem_blocks := (mem_blocks b)(ref := None)\<rparr>) = (res, b')" using "2.prems" by simp
    from "2.IH" [OF False this] show ?thesis
      using map_le_trans [OF _ upd_None_map_le, of "mem_blocks b'" "mem_blocks b" ref] by (auto simp: fun_upd_def)
  qed
qed simp

lemma memDeleteBlocks_ok:
  "memDeleteBlocks refs b = (Inr u, b') \<Longrightarrow> mem_blocks b' = mem_blocks b |` (- set refs)"
proof (induction refs b rule: memDeleteBlocks.induct)
  case (2 ref refs b)
  then have "ref \<noteq> ''''" by (auto split: if_splits)
  then show ?case using 2 by (auto simp: restrict_map_def fun_eq_iff)
qed (simp add: restrict_map_def)

interpretation mem: block_store memUpload memDownload memDeleteBlocks mem_blocks
  "\<lambda>b. self_owner (mem_blocks b)" mem_inv
proof
  fix b b' :: mem_state and r u now data key pos refs res u'
  show "mem_inv b \<Longrightarrow> ReadAll r = Inr data \<Longrightarrow> \<exists>u b'. memUpload now r b = Inr (u, b')"
    by (simp add: memUpload_def Let_def)
  show "memUpload now r b = Inr (u, b') \<Longrightarrow> ReadAll r = Inr (rd_data r)"
    by (auto simp: memUpload_def bind_result_Inr_iff ReadAll_def split: if_splits)
  assume inv: "mem_inv b"
  note fresh = mem_fresh [of "mem_uuid b" "mem_blocks b" "mem_next b"]
  show "memUpload now r b = Inr (u, b') \<Longrightarrow> mem_inv b'"
    using inv by (clarsimp simp: memUpload_def bind_result_Inr_iff Let_def mem_inv_def lessThan_Suc) blast
  show "memUpload now r b = Inr (u, b') \<Longrightarrow>
      mem_blocks b (ur_FileKey u) = None \<and> mem_blocks b' = (mem_blocks b)(ur_FileKey u \<mapsto> rd_data r)"
    using inv fresh by (auto simp: memUpload_def bind_result_Inr_iff Let_def mem_inv_def ReadAll_def split: if_splits)
  show "memUpload now r b = Inr (u, b') \<Longrightarrow> self_owner (mem_blocks b) (ur_DeleteRef u) = None \<and>
      self_owner (mem_blocks b') = (self_owner (mem_blocks b))(ur_DeleteRef u \<mapsto> ur_FileKey u)"
    using inv fresh by (auto simp: memUpload_def bind_result_Inr_iff Let_def mem_inv_def self_owner_upd)
  show "memUpload now r b = Inr (u, b') \<Longrightarrow>
      ur_FileKey u \<noteq> '''' \<and> ur_DeleteRef u \<noteq> '''' \<and> ur_UploadedAt u = now"
    using inv by (auto simp: memUpload_def bind_result_Inr_iff Let_def mem_inv_def good_uuid_def normal_def)
  show "mem_blocks b key = Some data \<Longrightarrow> memDownload key pos b = Inr (drop pos data)"
    by (simp add: memDownload_def)
  show "memDeleteBlocks refs b = (res, b') \<Longrightarrow> mem_inv b'"
    using inv memDeleteBlocks_frame [of refs b res b'] unfolding mem_inv_def by (metis map_le_implies_dom_le subset_trans)
  show "memDeleteBlocks refs b = (Inr u', b') \<Longrightarrow>
      mem_blocks b' = mem_blocks b |` (- {key. \<exists>ref\<in>set refs. self_owner (mem_blocks b) ref = Some key})"
    using memDeleteBlocks_ok [of refs b u' b'] self_owner_refs by metis
  show "memDeleteBlocks refs b = (res, b') \<Longrightarrow> mem_blocks b key = Some data \<Longrightarrow>
      \<forall>ref\<in>set refs. self_owner (mem_blocks b) ref \<noteq> Some key \<Longrightarrow> mem_blocks b' key = Some data"
    using memDeleteBlocks_frame [of refs b res b'] unfolding self_owner_def by (metis option.distinct(1))
  show "memDeleteBlocks refs b = (res, b') \<Longrightarrow>
      mem_blocks b' \<subseteq>\<^sub>m mem_blocks b \<and> self_owner (mem_blocks b') \<subseteq>\<^sub>m self_owner (mem_blocks b)"
    using memDeleteBlocks_frame [of refs b res b'] self_owner_mono by blast
  show "self_owner (mem_blocks b) ref = Some key \<Longrightarrow> self_owner (mem_blocks b') ref = None \<Longrightarrow> mem_blocks b' key = None" for ref
    by (auto simp: self_owner_def split: if_splits)
qed

section \<open>The local file backend\<close>

text \<open>
  The files below the base directory by their full name. Removing a name that is a directory
  with files in it fails; a name that is neither is reported as not existing, which
  \<open>DeleteBlocks\<close> ignores.
\<close>

record local_state =
  lf_baseDir :: string
  lf_files :: "(string \<times> byte list) list"
  lf_uuid :: "nat \<Rightarrow> string"
  lf_next :: nat

definition WriteFile :: "string \<Rightarrow> byte list \<Rightarrow> (string \<times> byte list) list \<Rightarrow> (string \<times> byte list) list" where
  "WriteFile name raw fs = (name, raw) # filter (\<lambda>f. fst f \<noteq> name) fs"

definition os_Remove :: "string \<Rightarrow> (string \<times> byte list) list \<Rightarrow> (string \<times> byte list) list result" where
  "os_Remove name fs =
     (if \<exists>f\<in>set fs. fst f = name then Inr (filter (\<lambda>f. fst f \<noteq> name) fs)
      else if \<exists>f\<in>set fs. take (length name + 1) (fst f) = name @ ''/'' then Inl ErrDirectoryNotEmpty
      else Inr fs)"

definition localUpload :: "int \<Rightarrow> reader \<Rightarrow> local_state \<Rightarrow> (UploadResult \<times> local_state) result" where
  "localUpload now r b =
     (let key = lf_uuid b (lf_next b);
          filename = Join [lf_baseDir b, key]
      in bind_result (ReadAll r) (\<lambda>raw.
           Inr (\<lparr>ur_FileKey = key, ur_DeleteRef = key, ur_UploadedAt = now\<rparr>,
                b\<lparr>lf_files := WriteFile filename raw (lf_files b), lf_next := Suc (lf_next b)\<rparr>)))"

definition localDownload :: "string \<Rightarrow> nat \<Rightarrow> local_state \<Rightarrow> byte list result" where
  "localDownload filekey pos b =
     (case map_of (lf_files b) (Join [lf_baseDir b, filekey]) of
        None \<Rightarrow> Inl ErrNotExist
      | Some data \<Rightarrow> Inr (drop pos data))"

fun localDeleteBlocks :: "string list \<Rightarrow> local_state \<Rightarrow> unit result \<times> local_state" where
  "localDeleteBlocks [] b = (Inr (), b)"
| "localDeleteBlocks (ref # refs) b =
     (if ref = '''' \<or> Base ref \<noteq> ref then (Inl ErrInvalidDeleteReference, b)
      else case os_Remove (Join [lf_baseDir b, ref]) (lf_files b) of
             Inl e \<Rightarrow> (Inl e, b)
           | Inr fs \<Rightarrow> localDeleteBlocks refs (b\<lparr>lf_files := fs\<rparr>))"

definition block_name :: "local_state \<Rightarrow> string \<Rightarrow> string" where
  "block_name b key = abs_path (components (lf_baseDir b) @ [key])"

definition local_blocks :: "local_state \<Rightarrow> string \<rightharpoonup> byte list" where
  "local_blocks b key = (if normal key then map_of (lf_files b) (block_name b key) else None)"

definition local_inv :: "local_state \<Rightarrow> bool" where
  "local_inv b \<longleftrightarrow>
     lf_baseDir b \<noteq> '''' \<and> hd (lf_baseDir b) = CHR ''/'' \<and> good_uuid (lf_uuid b) \<and>
     fst ` set (lf_files b) \<subseteq> (\<lambda>n. block_name b (lf_uuid b n)) ` {..<lf_next b}"

lemma map_of_WriteFile: "map_of (WriteFile name raw fs) = (map_of fs)(name \<mapsto> raw)"
proof -
  have "map_of (filter (\<lambda>f. fst f \<noteq> name) fs) n = (if n = name then None else map_of fs n)" for n
    by (induction fs) auto
  then show ?thesis by (auto simp: WriteFile_def fun_eq_iff)
qed

lemma split_on_append: "split_on c (xs @ c # ys) = split_on c xs @ split_on c ys"
  by (induction xs) (auto split: list.splits)

lemma components_below:
  assumes "p \<noteq> ''''" and "hd p = CHR ''/''" and "CHR ''/'' \<notin> set c"
  shows "Join [p, c] = abs_path (clean_step True (components p) c)"
proof -
  have "Join [p, c] = Clean (p @ CHR ''/'' # c)" using assms(1) by (simp add: Join_def)
  also have "\<dots> = abs_path (components (p @ CHR ''/'' # c))"
    using assms(1,2) by (intro Clean_absolute) simp_all
  also have "components (p @ CHR ''/'' # c) = clean_step True (components p) c"
    by (simp add: components_def split_on_append split_on_no_sep [OF assms(3)] clean_elems_def)
  finally show ?thesis .
qed

lemma Join_block:
  assumes "p \<noteq> ''''" and "hd p = CHR ''/''" and "normal c"
  shows "Join [p, c] = abs_path (components p @ [c])"
  using components_below [OF assms(1,2) normalD(2) [OF assms(3)]] assms(3) by (simp add: clean_step_def normal_def)

lemma abs_path_inj:
  assumes "\<forall>c\<in>set xs. normal c" and "\<forall>c\<in>set ys. normal c" and "abs_path xs = abs_path ys"
  shows "xs = ys"
  using assms components_abs_path by metis

lemma block_name_inj:
  assumes "normal c" and "normal c'" and "block_name b c = block_name b c'"
  shows "c = c'"
  using abs_path_inj [of "components (lf_baseDir b) @ [c]" "components (lf_baseDir b) @ [c']"] assms
  by (auto simp: block_name_def)

lemma last_index_tail: "last_index c xs = Some i \<Longrightarrow> c \<notin> set (drop (Suc i) xs)"
proof (induction xs arbitrary: i)
  case (Cons x xs)
  show ?case
  proof (cases "last_index c xs")
    case None
    then have "c \<notin> set xs" by (induction xs) (auto split: option.splits if_splits)
    then show ?thesis using Cons.prems None by (auto split: if_splits dest: in_set_dropD)
  next
    case (Some j)
    then show ?thesis using Cons by auto
  qed
qed simp

lemma last_index_None: "last_index c xs = None \<Longrightarrow> c \<notin> set xs"
  by (induction xs) (auto split: option.splits if_splits)

lemma Base_self:
  assumes "Base ref = ref" and "ref \<noteq> ''''"
  shows "CHR ''/'' \<notin> set ref \<or> ref = ''/''"
proof -
  let ?q = "strip_slashes ref"
  let ?r = "case last_index (CHR ''/'') ?q of Some i \<Rightarrow> drop (i + 1) ?q | None \<Rightarrow> ?q"
  have "CHR ''/'' \<notin> set ?r"
    using last_index_tail [of "CHR ''/''" ?q] last_index_None [of "CHR ''/''" ?q] by (auto split: option.split)
  moreover have "ref = (if ?r = '''' then ''/'' else ?r)"
    using assms unfolding Base_def Let_def by metis
  ultimately show ?thesis by metis
qed

lemma local_name:
  assumes "local_inv b" and "normal key"
  shows "Join [lf_baseDir b, key] = block_name b key"
  using assms Join_block by (simp add: local_inv_def block_name_def)

lemma local_fresh:
  assumes "local_inv b"
  shows "map_of (lf_files b) (block_name b (lf_uuid b (lf_next b))) = None"
proof (rule ccontr)
  let ?k = "lf_uuid b (lf_next b)"
  have g: "good_uuid (lf_uuid b)" using assms by (simp add: local_inv_def)
  assume "map_of (lf_files b) (block_name b ?k) \<noteq> None"
  then have "block_name b ?k \<in> fst ` set (lf_files b)" by (simp add: map_of_eq_None_iff)
  then obtain n where n: "n < lf_next b" "block_name b ?k = block_name b (lf_uuid b n)"
    using assms by (auto simp: local_inv_def)
  then have "?k = lf_uuid b n" using g by (intro block_name_inj [OF _ _ n(2)]) (simp_all add: good_uuid_def)
  then show False using g n(1) by (auto simp: good_uuid_def dest: injD)
qed

text \<open>A reference that passes the check but is no block name stands for no stored file.\<close>

lemma local_other_name:
  assumes inv: "local_inv b" and ref: "ref \<noteq> ''''" "Base ref = ref" "\<not> normal ref"
  shows "Join [lf_baseDir b, ref] \<notin> fst ` set (lf_files b)"
proof -
  let ?p = "lf_baseDir b"
  have p: "?p \<noteq> ''''" "hd ?p = CHR ''/''" using inv by (simp_all add: local_inv_def)
  have "\<exists>cs. Join [?p, ref] = abs_path cs \<and> (\<forall>c\<in>set cs. normal c) \<and> length cs \<le> length (components ?p)"
  proof (cases "CHR ''/'' \<in> set ref")
    case True
    then have "ref = ''/''" using Base_self ref by blast
    then have "Join [?p, ref] = Clean (?p @ CHR ''/'' # ''/'')" using p by (simp add: Join_def)
    also have "\<dots> = abs_path (components (?p @ CHR ''/'' # ''/''))" using p by (intro Clean_absolute) simp_all
    also have "components (?p @ CHR ''/'' # ''/'') = components ?p"
      by (simp add: components_def split_on_append clean_elems_def clean_step_def)
    finally show ?thesis using components_normal by blast
  next
    case False
    then have "ref = ''.'' \<or> ref = ''..''" using ref by (auto simp: normal_def)
    then have "length (clean_step True (components ?p) ref) \<le> length (components ?p)"
      by (auto simp: clean_step_def)
    moreover have "\<forall>c\<in>set (clean_step True (components ?p) ref). normal c"
      by (rule clean_step_rooted_normal) (use False in simp_all)
    ultimately show ?thesis using components_below [OF p False] by blast
  qed
  then obtain cs where cs: "Join [?p, ref] = abs_path cs" "\<forall>c\<in>set cs. normal c" "length cs \<le> length (components ?p)"
    by blast
  show ?thesis
  proof
    assume "Join [?p, ref] \<in> fst ` set (lf_files b)"
    then obtain n where n: "abs_path cs = abs_path (components ?p @ [lf_uuid b n])"
      using inv cs(1) by (auto simp: local_inv_def block_name_def)
    have "normal (lf_uuid b n)" using inv by (simp add: local_inv_def good_uuid_def)
    then have "cs = components ?p @ [lf_uuid b n]"
      by (intro abs_path_inj [OF cs(2) _ n]) simp
    then show False using cs(3) by simp
  qed
qed

lemma map_of_filter_name: "map_of (filter (\<lambda>f. fst f \<noteq> name) fs) n = (if n = name then None else map_of fs n)"
  by (induction fs) auto

lemma local_remove:
  assumes inv: "local_inv b" and ref: "ref \<noteq> ''''" "Base ref = ref"
    and rm: "os_Remove (Join [lf_baseDir b, ref]) (lf_files b) = Inr fs"
  shows "local_inv (b\<lparr>lf_files := fs\<rparr>)" and "local_blocks (b\<lparr>lf_files := fs\<rparr>) = (local_blocks b)(ref := None)"
proof -
  let ?b = "b\<lparr>lf_files := fs\<rparr>" and ?name = "Join [lf_baseDir b, ref]"
  have "set fs \<subseteq> set (lf_files b)" using rm by (auto simp: os_Remove_def split: if_splits)
  moreover have "block_name ?b key = block_name b key" for key by (simp add: block_name_def)
  ultimately show "local_inv ?b" using inv by (simp add: local_inv_def) blast
  have fs: "map_of fs n = (if n = ?name then None else map_of (lf_files b) n)" for n
  proof (cases "?name \<in> fst ` set (lf_files b)")
    case True
    then have "fs = filter (\<lambda>f. fst f \<noteq> ?name) (lf_files b)" using rm by (auto simp: os_Remove_def split: if_splits)
    then show ?thesis using map_of_filter_name [of ?name "lf_files b" n] by metis
  next
    case False
    then have "\<not> (\<exists>f\<in>set (lf_files b). fst f = ?name)" by (metis image_eqI)
    then have "fs = lf_files b" using rm by (auto simp: os_Remove_def split: if_splits)
    then show ?thesis using False by (auto simp: map_of_eq_None_iff)
  qed
  have "local_blocks ?b key = ((local_blocks b)(ref := None)) key" for key
  proof (cases "normal ref")
    case True
    then have "?name = block_name b ref" using local_name [OF inv] by simp
    then show ?thesis
      using fs True block_name_inj [of key ref b] by (auto simp: local_blocks_def block_name_def)
  next
    case False
    have "map_of (lf_files b) ?name = None"
      using local_other_name [OF inv ref False] by (simp add: map_of_eq_None_iff)
    then show ?thesis using fs False by (auto simp: local_blocks_def block_name_def)
  qed
  then show "local_blocks ?b = (local_blocks b)(ref := None)" by blast
qed

lemma localDeleteBlocks_frame:
  "localDeleteBlocks refs b = (res, b') \<Longrightarrow> local_inv b \<Longrightarrow>
     local_inv b' \<and> (\<forall>key. key \<notin> set refs \<longrightarrow> local_blocks b' key = local_blocks b key) \<and>
     (res = Inr () \<longrightarrow> local_blocks b' = local_blocks b |` (- set refs))"
proof (induction refs b rule: localDeleteBlocks.induct)
  case (2 ref refs b)
  show ?case
  proof (cases "ref = '''' \<or> Base ref \<noteq> ref")
    case True
    then show ?thesis using "2.prems" by auto
  next
    case False
    show ?thesis
    proof (cases "os_Remove (Join [lf_baseDir b, ref]) (lf_files b)")
      case (Inl e)
      then show ?thesis using "2.prems" False by auto
    next
      case (Inr fs)
      have rm: "local_inv (b\<lparr>lf_files := fs\<rparr>)" "local_blocks (b\<lparr>lf_files := fs\<rparr>) = (local_blocks b)(ref := None)"
        using local_remove [OF "2.prems"(2) _ _ Inr] False by auto
      have "localDeleteBlocks refs (b\<lparr>lf_files := fs\<rparr>) = (res, b')" using "2.prems"(1) False Inr by simp
      from "2.IH" [OF False Inr this rm(1)] show ?thesis
        unfolding rm(2) by (auto simp: restrict_map_def fun_eq_iff)
    qed
  qed
qed (simp add: restrict_map_def)

lemma localDeleteBlocks_shrinks:
  "localDeleteBlocks refs b = (res, b') \<Longrightarrow> local_inv b \<Longrightarrow> local_blocks b' \<subseteq>\<^sub>m local_blocks b"
proof (induction refs b rule: localDeleteBlocks.induct)
  case (2 ref refs b)
  show ?case
  proof (cases "(ref = '''' \<or> Base ref \<noteq> ref) \<or> (\<exists>e. os_Remove (Join [lf_baseDir b, ref]) (lf_files b) = Inl e)")
    case True
    then have "b' = b" using "2.prems"(1) by (auto split: if_splits)
    then show ?thesis by simp
  next
    case False
    then have ref: "\<not> (ref = '''' \<or> Base ref \<noteq> ref)" by blast
    obtain fs where fs: "os_Remove (Join [lf_baseDir b, ref]) (lf_files b) = Inr fs" using False by (meson sumE)
    have rm: "local_inv (b\<lparr>lf_files := fs\<rparr>)" "local_blocks (b\<lparr>lf_files := fs\<rparr>) = (local_blocks b)(ref := None)"
      using local_remove [OF "2.prems"(2) _ _ fs] ref by auto
    have "localDeleteBlocks refs (b\<lparr>lf_files := fs\<rparr>) = (res, b')" using "2.prems"(1) ref fs by simp
    from "2.IH" [OF ref fs this rm(1)] show ?thesis unfolding rm(2) by (rule map_le_trans [OF _ upd_None_map_le])
  qed
qed simp

lemma localUpload_blocks:
  assumes inv: "local_inv b" and up: "localUpload now r b = Inr (u, b')"
  shows "local_inv b'" and "local_blocks b (ur_FileKey u) = None"
    and "local_blocks b' = (local_blocks b)(ur_FileKey u \<mapsto> rd_data r)"
    and "ur_FileKey u = lf_uuid b (lf_next b)" and "ur_DeleteRef u = ur_FileKey u" and "ur_UploadedAt u = now"
proof -
  let ?k = "lf_uuid b (lf_next b)"
  have k: "normal ?k" using inv by (simp add: local_inv_def good_uuid_def)
  from up have u: "u = \<lparr>ur_FileKey = ?k, ur_DeleteRef = ?k, ur_UploadedAt = now\<rparr>"
    and b': "b' = b\<lparr>lf_files := WriteFile (block_name b ?k) (rd_data r) (lf_files b), lf_next := Suc (lf_next b)\<rparr>"
    using local_name [OF inv k] by (auto simp: localUpload_def Let_def bind_result_Inr_iff ReadAll_def split: if_splits)
  have name: "block_name b' key = block_name b key" for key by (simp add: b' block_name_def)
  show "local_inv b'"
    using inv unfolding local_inv_def name by (auto simp: b' WriteFile_def lessThan_Suc)
  show "local_blocks b (ur_FileKey u) = None" using local_fresh [OF inv] by (simp add: u local_blocks_def)
  show "local_blocks b' = (local_blocks b)(ur_FileKey u \<mapsto> rd_data r)"
    using k block_name_inj [OF _ k, of _ b]
    by (auto simp: local_blocks_def fun_eq_iff name u) (auto simp: b' map_of_WriteFile)
qed (use up in \<open>auto simp: localUpload_def Let_def bind_result_Inr_iff\<close>)

interpretation local: block_store localUpload localDownload localDeleteBlocks local_blocks
  "\<lambda>b. self_owner (local_blocks b)" local_inv
proof
  fix b b' :: local_state and r u now data key pos refs res u'
  show "local_inv b \<Longrightarrow> ReadAll r = Inr data \<Longrightarrow> \<exists>u b'. localUpload now r b = Inr (u, b')"
    by (simp add: localUpload_def Let_def)
  show "localUpload now r b = Inr (u, b') \<Longrightarrow> ReadAll r = Inr (rd_data r)"
    by (auto simp: localUpload_def Let_def bind_result_Inr_iff ReadAll_def split: if_splits)
  assume inv: "local_inv b"
  note upload = localUpload_blocks [OF inv, of now r u b']
  note delete = localDeleteBlocks_frame [OF _ inv, of refs _ b']
  show "localUpload now r b = Inr (u, b') \<Longrightarrow> local_inv b'" using upload by blast
  show "localUpload now r b = Inr (u, b') \<Longrightarrow>
      local_blocks b (ur_FileKey u) = None \<and> local_blocks b' = (local_blocks b)(ur_FileKey u \<mapsto> rd_data r)"
    using upload by blast
  show "localUpload now r b = Inr (u, b') \<Longrightarrow> self_owner (local_blocks b) (ur_DeleteRef u) = None \<and>
      self_owner (local_blocks b') = (self_owner (local_blocks b))(ur_DeleteRef u \<mapsto> ur_FileKey u)"
    using upload by (simp add: self_owner_upd)
  show "localUpload now r b = Inr (u, b') \<Longrightarrow>
      ur_FileKey u \<noteq> '''' \<and> ur_DeleteRef u \<noteq> '''' \<and> ur_UploadedAt u = now"
    using upload inv by (simp add: local_inv_def good_uuid_def normal_def)
  show "local_blocks b key = Some data \<Longrightarrow> localDownload key pos b = Inr (drop pos data)"
    using local_name [OF inv, of key] by (auto simp: localDownload_def local_blocks_def split: if_splits)
  show "localDeleteBlocks refs b = (res, b') \<Longrightarrow> local_inv b'" using delete by blast
  show "localDeleteBlocks refs b = (Inr u', b') \<Longrightarrow>
      local_blocks b' = local_blocks b |` (- {key. \<exists>ref\<in>set refs. self_owner (local_blocks b) ref = Some key})"
    using delete [of "Inr ()"] self_owner_refs by (metis unit.exhaust)
  show "localDeleteBlocks refs b = (res, b') \<Longrightarrow> local_blocks b key = Some data \<Longrightarrow>
      \<forall>ref\<in>set refs. self_owner (local_blocks b) ref \<noteq> Some key \<Longrightarrow> local_blocks b' key = Some data"
    using delete [of res] unfolding self_owner_def by (metis option.distinct(1))
  show "localDeleteBlocks refs b = (res, b') \<Longrightarrow>
      local_blocks b' \<subseteq>\<^sub>m local_blocks b \<and> self_owner (local_blocks b') \<subseteq>\<^sub>m self_owner (local_blocks b)"
    using localDeleteBlocks_shrinks [OF _ inv, of refs res b'] self_owner_mono by blast
  show "self_owner (local_blocks b) ref = Some key \<Longrightarrow> self_owner (local_blocks b') ref = None \<Longrightarrow> local_blocks b' key = None" for ref
    by (auto simp: self_owner_def split: if_splits)
qed

section \<open>The rotating wrapper\<close>

definition normalizeRotate :: "int \<Rightarrow> nat" where
  "normalizeRotate v = (let v = (if v < 0 then - (- v mod 256) else v mod 256)
                        in nat (if v < 0 then v + 256 else v))"

definition rotateByte :: "nat \<Rightarrow> byte \<Rightarrow> byte" where
  "rotateByte v b = word_of_nat ((unat b + v) mod 256)"

definition rotateReader :: "int \<Rightarrow> reader \<Rightarrow> reader" where
  "rotateReader v r = r\<lparr>rd_data := map (rotateByte (normalizeRotate v)) (rd_data r)\<rparr>"

definition rotateUpload ::
  "(int \<Rightarrow> reader \<Rightarrow> 'b \<Rightarrow> (UploadResult \<times> 'b) result) \<Rightarrow> int \<Rightarrow> int \<Rightarrow> reader \<Rightarrow> 'b \<Rightarrow> (UploadResult \<times> 'b) result" where
  "rotateUpload up v now r b = up now (rotateReader v r) b"

definition rotateDownload ::
  "(string \<Rightarrow> nat \<Rightarrow> 'b \<Rightarrow> byte list result) \<Rightarrow> int \<Rightarrow> string \<Rightarrow> nat \<Rightarrow> 'b \<Rightarrow> byte list result" where
  "rotateDownload down v key pos b =
     bind_result (down key pos b) (\<lambda>raw. Inr (map (rotateByte (normalizeRotate (- v))) raw))"

lemma normalizeRotate_mod: "normalizeRotate v = nat (v mod 256)"
proof (cases "v < 0")
  case True
  have m: "0 \<le> - v mod 256" "- v mod 256 < 256" by simp_all
  have "v mod 256 = (if - v mod 256 = 0 then 0 else 256 - - v mod 256)"
    using zmod_zminus1_eq_if [of "- v" 256] by simp
  then show ?thesis using True m by (auto simp: normalizeRotate_def Let_def)
next
  case False
  have "0 \<le> v mod 256" by simp
  then show ?thesis using False by (simp add: normalizeRotate_def Let_def)
qed

lemma normalizeRotate_sum: "(normalizeRotate v + normalizeRotate (- v)) mod 256 = 0"
proof -
  have "int ((nat (v mod 256) + nat (- v mod 256)) mod 256) = (v mod 256 + - v mod 256) mod 256"
    by (simp add: zmod_int)
  also have "\<dots> = 0" by (simp add: mod_add_eq)
  finally show ?thesis by (simp add: normalizeRotate_mod)
qed

lemma rotateByte_rotateByte: "rotateByte k (rotateByte n b) = rotateByte (n + k) b"
proof -
  have "unat (word_of_nat ((unat b + n) mod 256) :: 8 word) = (unat b + n) mod 256"
    by (simp add: unat_of_nat take_bit_eq_mod)
  then show ?thesis by (simp add: rotateByte_def mod_simps add.assoc)
qed

lemma rotateByte_inverse: "rotateByte (normalizeRotate (- v)) (rotateByte (normalizeRotate v) b) = b"
proof -
  let ?s = "normalizeRotate v + normalizeRotate (- v)"
  have "(unat b + ?s) mod 256 = (unat b + ?s mod 256) mod 256" by (simp add: mod_simps)
  also have "\<dots> = unat b" using unsigned_less [of b, where ?'a = nat] by (simp add: normalizeRotate_sum)
  finally show ?thesis by (simp add: rotateByte_rotateByte) (simp add: rotateByte_def)
qed

lemma rotateByte_inverse': "rotateByte (normalizeRotate v) (rotateByte (normalizeRotate (- v)) b) = b"
  using rotateByte_inverse [of "- v" b] by simp

lemma map_rotate_inverse:
  "map (rotateByte (normalizeRotate (- v))) (map (rotateByte (normalizeRotate v)) bs) = bs"
  by (simp add: comp_def rotateByte_inverse)

lemma ReadAll_rotate: "ReadAll (rotateReader v r) = Inr data \<longleftrightarrow>
    ReadAll r = Inr (rd_data r) \<and> data = map (rotateByte (normalizeRotate v)) (rd_data r)"
  by (auto simp: ReadAll_def rotateReader_def)

definition rotated :: "int \<Rightarrow> (string \<rightharpoonup> byte list) \<Rightarrow> string \<rightharpoonup> byte list" where
  "rotated v m key = map_option (map (rotateByte (normalizeRotate (- v)))) (m key)"

text \<open>A backend with a rotation is a backend: its clients see the blocks rotated back.\<close>

locale rotated_store = block_store up down del blocks owner inv
  for up :: "int \<Rightarrow> reader \<Rightarrow> 'b \<Rightarrow> (UploadResult \<times> 'b) result"
    and down :: "string \<Rightarrow> nat \<Rightarrow> 'b \<Rightarrow> byte list result"
    and del :: "string list \<Rightarrow> 'b \<Rightarrow> unit result \<times> 'b"
    and blocks :: "'b \<Rightarrow> string \<rightharpoonup> byte list" and owner :: "'b \<Rightarrow> string \<rightharpoonup> string" and inv :: "'b \<Rightarrow> bool" +
  fixes v :: int

sublocale rotated_store \<subseteq> rot: block_store "rotateUpload up v" "rotateDownload down v" del
  "\<lambda>b. rotated v (blocks b)" owner inv
proof
  fix b b' :: 'b and r u now data key pos refs res u'
  have data: "rd_data (rotateReader v r) = map (rotateByte (normalizeRotate v)) (rd_data r)"
    by (simp add: rotateReader_def)
  show "rotateUpload up v now r b = Inr (u, b') \<Longrightarrow> ReadAll r = Inr (rd_data r)"
    using up_read [of now "rotateReader v r" b u b'] by (simp add: rotateUpload_def ReadAll_rotate)
  assume inv: "inv b"
  show "ReadAll r = Inr data \<Longrightarrow> \<exists>u b'. rotateUpload up v now r b = Inr (u, b')"
    using up_total [OF inv, of "rotateReader v r" "rd_data (rotateReader v r)" now]
    by (auto simp: rotateUpload_def ReadAll_def rotateReader_def split: if_splits)
  show "rotateUpload up v now r b = Inr (u, b') \<Longrightarrow> inv b'"
    using up_inv [OF inv] by (simp add: rotateUpload_def)
  show "rotateUpload up v now r b = Inr (u, b') \<Longrightarrow> rotated v (blocks b) (ur_FileKey u) = None \<and>
      rotated v (blocks b') = (rotated v (blocks b))(ur_FileKey u \<mapsto> rd_data r)"
    using up_blocks [OF inv, of now "rotateReader v r" u b'] data map_rotate_inverse
    by (auto simp: rotateUpload_def rotated_def fun_eq_iff)
  show "rotateUpload up v now r b = Inr (u, b') \<Longrightarrow>
      owner b (ur_DeleteRef u) = None \<and> owner b' = (owner b)(ur_DeleteRef u \<mapsto> ur_FileKey u)"
    using up_owner [OF inv] by (simp add: rotateUpload_def)
  show "rotateUpload up v now r b = Inr (u, b') \<Longrightarrow>
      ur_FileKey u \<noteq> '''' \<and> ur_DeleteRef u \<noteq> '''' \<and> ur_UploadedAt u = now"
    using up_named [OF inv] by (simp add: rotateUpload_def)
  show "rotated v (blocks b) key = Some data \<Longrightarrow> rotateDownload down v key pos b = Inr (drop pos data)"
    using down_blocks [OF inv, of key _ pos] by (auto simp: rotateDownload_def rotated_def drop_map)
  show "del refs b = (res, b') \<Longrightarrow> inv b'" by (rule del_inv [OF inv])
  show "del refs b = (Inr u', b') \<Longrightarrow> rotated v (blocks b') =
      rotated v (blocks b) |` (- {key. \<exists>ref\<in>set refs. owner b ref = Some key})"
    using del_blocks [OF inv, of refs u' b'] by (auto simp: rotated_def restrict_map_def fun_eq_iff)
  show "del refs b = (res, b') \<Longrightarrow> rotated v (blocks b) key = Some data \<Longrightarrow>
      \<forall>ref\<in>set refs. owner b ref \<noteq> Some key \<Longrightarrow> rotated v (blocks b') key = Some data"
    using del_only [OF inv, of refs res b' key] by (auto simp: rotated_def)
  show "del refs b = (res, b') \<Longrightarrow> rotated v (blocks b') \<subseteq>\<^sub>m rotated v (blocks b) \<and> owner b' \<subseteq>\<^sub>m owner b"
    using del_shrinks [OF inv, of refs res b'] by (auto simp: map_le_def rotated_def dom_def)
  show "del refs b = (res, b') \<Longrightarrow> owner b ref = Some key \<Longrightarrow> owner b' ref = None \<Longrightarrow> rotated v (blocks b') key = None" for ref
    using del_lost [OF inv, of refs res b' ref key] by (simp add: rotated_def)
qed

interpretation mem_rotated: rotated_store memUpload memDownload memDeleteBlocks mem_blocks
  "\<lambda>b. self_owner (mem_blocks b)" mem_inv v for v
  by unfold_locales

interpretation local_rotated: rotated_store localUpload localDownload localDeleteBlocks local_blocks
  "\<lambda>b. self_owner (local_blocks b)" local_inv v for v
  by unfold_locales

text \<open>
  The interface value the file manager holds. \<open>MaxFileSize\<close> is the configured block size.
\<close>

record 'b IBlockIO =
  bio_Name :: string
  bio_MaxFileSize :: int
  bio_Upload :: "int \<Rightarrow> reader \<Rightarrow> 'b \<Rightarrow> (UploadResult \<times> 'b) result"
  bio_Download :: "string \<Rightarrow> nat \<Rightarrow> 'b \<Rightarrow> byte list result"
  bio_DeleteBlocks :: "string list \<Rightarrow> 'b \<Rightarrow> unit result \<times> 'b"

definition memBlockIO :: "int \<Rightarrow> mem_state IBlockIO" where
  "memBlockIO bksize =
     \<lparr>bio_Name = ''mem'', bio_MaxFileSize = memNew bksize, bio_Upload = memUpload,
      bio_Download = memDownload, bio_DeleteBlocks = memDeleteBlocks\<rparr>"

definition localFileBlockIO :: "int \<Rightarrow> local_state IBlockIO" where
  "localFileBlockIO blksize =
     \<lparr>bio_Name = ''localfile'', bio_MaxFileSize = blksize, bio_Upload = localUpload,
      bio_Download = localDownload, bio_DeleteBlocks = localDeleteBlocks\<rparr>"

definition NewRotateIO :: "'b IBlockIO \<Rightarrow> int \<Rightarrow> 'b IBlockIO" where
  "NewRotateIO impl rotateVal =
     (if rotateVal \<le> 0 then impl
      else impl\<lparr>bio_Upload := rotateUpload (bio_Upload impl) rotateVal,
                bio_Download := rotateDownload (bio_Download impl) rotateVal\<rparr>)"

end
