(* ===== verification/File_Stream.thy ===== *)
theory File_Stream
  imports Block_IO Storage
begin

text \<open>
  Reading a stored file block by block (\<open>defaultFsIO\<close> of
  \<^verbatim>\<open>filemgr/file_stream.go\<close>). The stream keeps the reader of the current block and opens
  the block that holds the cursor when it has none.

  How many bytes a backend's reader hands out per call is up to the backend, within the
  contract of \<open>io.Reader\<close>. A \<open>read_fun\<close> stands for it: for the bytes that are left and the
  size of the buffer it says how many bytes a call returns and how it ends.
\<close>

section \<open>Readers of a backend\<close>

datatype read_end = More | AtEOF | Broken

type_synonym read_fun = "byte list \<Rightarrow> nat \<Rightarrow> nat \<times> read_end"

definition reader_contract :: "read_fun \<Rightarrow> bool" where
  "reader_contract rf \<longleftrightarrow>
     (\<forall>rest n. case rf rest n of (k, e) \<Rightarrow>
        k \<le> n \<and> k \<le> length rest \<and> e \<noteq> Broken \<and> (e = AtEOF \<longrightarrow> k = length rest) \<and>
        (0 < n \<longrightarrow> 0 < k \<or> e = AtEOF))"

text \<open>The reader of \<open>bytes.NewReader\<close>, which the in-memory backend returns.\<close>

definition bytesRead :: read_fun where
  "bytesRead rest n = (if rest = [] then (0, AtEOF) else (min n (length rest), More))"

lemma bytesRead_contract: "reader_contract bytesRead"
  by (auto simp: reader_contract_def bytesRead_def)

section \<open>The stream\<close>

record fs_stream =
  fs_size :: int
  fs_cursor :: int
  fs_tmp :: "byte list option"
  fs_open :: bool

definition newFileStream :: "int \<Rightarrow> fs_stream" where
  "newFileStream fsize = \<lparr>fs_size = fsize, fs_cursor = 0, fs_tmp = None, fs_open = True\<rparr>"

text \<open>\<open>io.SeekStart\<close>, \<open>io.SeekCurrent\<close> and \<open>io.SeekEnd\<close> are 0, 1 and 2.\<close>

definition calcOffset :: "int \<Rightarrow> nat \<Rightarrow> fs_stream \<Rightarrow> int" where
  "calcOffset offset whence s =
     (if whence = 0 then offset
      else if whence = 1 then fs_cursor s + offset
      else if whence = 2 then fs_size s + offset
      else fs_cursor s)"

definition fsSeek :: "int \<Rightarrow> nat \<Rightarrow> fs_stream \<Rightarrow> (int \<times> err option) \<times> fs_stream" where
  "fsSeek offset whence s =
     (if \<not> fs_open s then ((0, Some ErrFileNotOpen), s)
      else
        let s = s\<lparr>fs_tmp := None\<rparr>;
            cur = calcOffset offset whence s
        in if cur < 0 then ((0, Some ErrInvalidOffset), s)
           else if cur > fs_size s then ((fs_size s, Some ErrSeekPastEnd), s)
           else ((cur, None), s\<lparr>fs_cursor := cur\<rparr>))"

abbreviation (input) maxFilePartCount :: int where "maxFilePartCount \<equiv> 100000"

text \<open>Retrying a download asks the same backend again.\<close>

definition retryGetDownloadStream :: "'b IBlockIO \<Rightarrow> string \<Rightarrow> nat \<Rightarrow> 'b \<Rightarrow> byte list result" where
  "retryGetDownloadStream bk filekey pos b =
     (case bio_Download bk filekey pos b of
        Inr rc \<Rightarrow> Inr rc
      | Inl _ \<Rightarrow> (case bio_Download bk filekey pos b of
          Inr rc \<Rightarrow> Inr rc
        | Inl _ \<Rightarrow> bio_Download bk filekey pos b))"

definition openCurrentPart ::
  "'b IBlockIO \<Rightarrow> (int \<Rightarrow> string result) \<Rightarrow> 'b \<Rightarrow> fs_stream \<Rightarrow> fs_stream result" where
  "openCurrentPart bk b2f b s =
     (if fs_cursor s = fs_size s then Inl EOF
      else
        let blockSize = bio_MaxFileSize bk
        in if blockSize \<le> 0 then Inl ErrInvalidBlockSize
           else
             let blockID = fs_cursor s div blockSize;
                 position = fs_cursor s mod blockSize
             in if blockID < 0 \<or> blockID > maxFilePartCount then Inl ErrInvalidFilePart
                else
                  bind_result (b2f blockID) (\<lambda>fileKey.
                  bind_result (retryGetDownloadStream bk fileKey (nat position) b) (\<lambda>reader.
                  Inr (s\<lparr>fs_tmp := Some reader\<rparr>))))"

definition fsRead ::
  "'b IBlockIO \<Rightarrow> read_fun \<Rightarrow> (int \<Rightarrow> string result) \<Rightarrow> 'b \<Rightarrow> nat \<Rightarrow> fs_stream \<Rightarrow>
   (byte list \<times> err option) \<times> fs_stream" where
  "fsRead bk rf b2f b n s =
     (if \<not> fs_open s then (([], Some ErrFileNotOpen), s)
      else
        case (case fs_tmp s of None \<Rightarrow> openCurrentPart bk b2f b s | Some _ \<Rightarrow> Inr s) of
          Inl e \<Rightarrow> (([], Some e), s)
        | Inr s \<Rightarrow>
            let rest = the (fs_tmp s);
                (k, ending) = rf rest n
            in case ending of
                 Broken \<Rightarrow> ((take k rest, Some ErrRead), s\<lparr>fs_tmp := Some (drop k rest)\<rparr>)
               | More \<Rightarrow> ((take k rest, None), s\<lparr>fs_cursor := fs_cursor s + int k, fs_tmp := Some (drop k rest)\<rparr>)
               | AtEOF \<Rightarrow> ((take k rest, None), s\<lparr>fs_cursor := fs_cursor s + int k, fs_tmp := None\<rparr>))"

definition fsClose :: "fs_stream \<Rightarrow> fs_stream" where
  "fsClose s = s\<lparr>fs_tmp := None, fs_open := False\<rparr>"

text \<open>\<open>io.ReadAll\<close> on the stream, with a buffer of \<open>n\<close> bytes per call.\<close>

primrec readAllStream ::
  "nat \<Rightarrow> 'b IBlockIO \<Rightarrow> read_fun \<Rightarrow> (int \<Rightarrow> string result) \<Rightarrow> 'b \<Rightarrow> nat \<Rightarrow> fs_stream \<Rightarrow> byte list \<Rightarrow> byte list result" where
  "readAllStream 0 bk rf b2f b n s acc = Inl ErrRecursionLimit"
| "readAllStream (Suc fuel) bk rf b2f b n s acc =
     (case fsRead bk rf b2f b n s of
        ((bs, None), s) \<Rightarrow> readAllStream fuel bk rf b2f b n s (acc @ bs)
      | ((bs, Some e), s) \<Rightarrow> if e = EOF then Inr (acc @ bs) else Inl e)"

section \<open>What is stored\<close>

text \<open>
  A file of the given content is stored in blocks of \<open>bs\<close> bytes when the key of block \<open>i\<close>
  leads to the bytes from \<open>i * bs\<close> on.
\<close>

definition block_at :: "nat \<Rightarrow> byte list \<Rightarrow> nat \<Rightarrow> byte list" where
  "block_at bs content i = take bs (drop (i * bs) content)"

definition readable ::
  "'b IBlockIO \<Rightarrow> (int \<Rightarrow> string result) \<Rightarrow> 'b \<Rightarrow> byte list \<Rightarrow> bool" where
  "readable bk b2f b content \<longleftrightarrow>
     0 < bio_MaxFileSize bk \<and> int (length content) \<le> bio_MaxFileSize bk * (maxFilePartCount + 1) \<and>
     (\<forall>i pos. i * nat (bio_MaxFileSize bk) < length content \<longrightarrow>
        (\<exists>key. b2f (int i) = Inr key \<and>
           bio_Download bk key pos b = Inr (drop pos (block_at (nat (bio_MaxFileSize bk)) content i))))"

text \<open>
  The state of an open stream over the content: the cursor lies in it, and an open block
  reader holds the bytes of its block from the cursor on.
\<close>

definition stream_ok :: "nat \<Rightarrow> byte list \<Rightarrow> fs_stream \<Rightarrow> bool" where
  "stream_ok bs content s \<longleftrightarrow>
     fs_open s \<and> fs_size s = int (length content) \<and> 0 \<le> fs_cursor s \<and> fs_cursor s \<le> fs_size s \<and>
     (\<forall>rest. fs_tmp s = Some rest \<longrightarrow>
        (\<exists>i. i * bs < length content \<and> i * bs \<le> nat (fs_cursor s) \<and>
             nat (fs_cursor s) \<le> i * bs + length (block_at bs content i) \<and>
             rest = drop (nat (fs_cursor s) - i * bs) (block_at bs content i)))"

lemma block_at_drop:
  assumes "i * bs \<le> c" and "c \<le> i * bs + length (block_at bs content i)"
  shows "drop (c - i * bs) (block_at bs content i) = take (i * bs + bs - c) (drop c content)"
  using assms by (simp add: block_at_def drop_take add.commute)

lemma newFileStream_ok: "stream_ok bs content (newFileStream (int (length content)))"
  by (simp add: stream_ok_def newFileStream_def)

lemma openCurrentPart_ok:
  assumes stored: "readable bk b2f b content" and s: "stream_ok (nat (bio_MaxFileSize bk)) content s"
    and tmp: "fs_tmp s = None" and more: "fs_cursor s < fs_size s"
  shows "\<exists>rest. openCurrentPart bk b2f b s = Inr (s\<lparr>fs_tmp := Some rest\<rparr>) \<and> rest \<noteq> [] \<and>
    stream_ok (nat (bio_MaxFileSize bk)) content (s\<lparr>fs_tmp := Some rest\<rparr>)"
proof -
  let ?B = "bio_MaxFileSize bk" and ?bs = "nat (bio_MaxFileSize bk)"
  have B: "0 < ?B" and len: "int (length content) \<le> ?B * (maxFilePartCount + 1)" using stored by (auto simp: readable_def)
  obtain c where c: "fs_cursor s = int c" "c < length content"
    using s more by (auto simp: stream_ok_def elim: nonneg_int_cases)
  obtain bs where bs: "?B = int bs" "0 < bs" using B by (auto elim: pos_int_cases)
  define i p where ip: "i = c div bs" "p = c mod bs"
  have div: "fs_cursor s div ?B = int i" and mod: "nat (fs_cursor s mod ?B) = p"
    unfolding c(1) bs(1) ip by (simp_all flip: zdiv_int zmod_int)
  have split: "c = i * bs + p" "p < bs" using bs(2) by (simp_all add: ip)
  have start: "i * bs < length content" using split(1) c(2) by linarith
  have "int c < int (100001 * bs)" using c(2) len unfolding bs(1) by simp
  then have "c < 100001 * bs" by (simp only: of_nat_less_iff)
  then have "c div bs < 100001" by (rule less_mult_imp_div_less)
  then have max: "int i \<le> maxFilePartCount" unfolding ip(1) by linarith
  obtain key where key: "b2f (int i) = Inr key" "bio_Download bk key p b = Inr (drop p (block_at bs content i))"
    using stored start bs(1) unfolding readable_def by auto
  let ?rest = "drop p (block_at bs content i)"
  have ne: "p < length (block_at bs content i)" using split c(2) by (simp add: block_at_def)
  then have "?rest \<noteq> []" by simp
  moreover have "openCurrentPart bk b2f b s = Inr (s\<lparr>fs_tmp := Some ?rest\<rparr>)"
    using more B max key by (simp add: openCurrentPart_def retryGetDownloadStream_def Let_def div mod)
  moreover have "stream_ok bs content (s\<lparr>fs_tmp := Some ?rest\<rparr>)"
  proof -
    have "i * bs \<le> c" "c \<le> i * bs + length (block_at bs content i)" "c - i * bs = p" using split(1) ne by simp_all
    then have "\<exists>i. i * bs < length content \<and> i * bs \<le> c \<and> c \<le> i * bs + length (block_at bs content i) \<and>
        ?rest = drop (c - i * bs) (block_at bs content i)"
      using start by (intro exI [of _ i]) simp
    then show ?thesis using s c unfolding stream_ok_def by simp
  qed
  ultimately show ?thesis using bs(1) by auto
qed

lemma fsRead_ok:
  assumes stored: "readable bk b2f b content" and rf: "reader_contract rf"
    and s: "stream_ok (nat (bio_MaxFileSize bk)) content s" and n: "0 < n"
  shows "fs_tmp s = None \<Longrightarrow> fs_cursor s = fs_size s \<Longrightarrow> fsRead bk rf b2f b n s = (([], Some EOF), s)"
    and "fs_tmp s \<noteq> None \<or> fs_cursor s < fs_size s \<Longrightarrow>
      \<exists>k s'. fsRead bk rf b2f b n s = ((take k (drop (nat (fs_cursor s)) content), None), s') \<and> k \<le> n \<and>
        k \<le> length content - nat (fs_cursor s) \<and> stream_ok (nat (bio_MaxFileSize bk)) content s' \<and>
        fs_cursor s' = fs_cursor s + int k \<and>
        (k = 0 \<longrightarrow> fs_tmp s \<noteq> None \<and> fs_tmp s' = None \<and>
           (nat (fs_cursor s) mod nat (bio_MaxFileSize bk) = 0 \<and> 0 < fs_cursor s \<or> fs_cursor s = fs_size s))"
proof -
  show "fsRead bk rf b2f b n s = (([], Some EOF), s)" if "fs_tmp s = None" "fs_cursor s = fs_size s"
    using that s by (simp add: fsRead_def openCurrentPart_def stream_ok_def)
next
  let ?bs = "nat (bio_MaxFileSize bk)"
  assume "fs_tmp s \<noteq> None \<or> fs_cursor s < fs_size s"
  then obtain rest where opened: "(case fs_tmp s of None \<Rightarrow> openCurrentPart bk b2f b s | Some _ \<Rightarrow> Inr s) = Inr (s\<lparr>fs_tmp := Some rest\<rparr>)"
    and s1: "stream_ok ?bs content (s\<lparr>fs_tmp := Some rest\<rparr>)" and fresh: "fs_tmp s = None \<longrightarrow> rest \<noteq> []"
  proof (cases "fs_tmp s")
    case None
    then show ?thesis using openCurrentPart_ok [OF stored s None] that \<open>fs_tmp s \<noteq> None \<or> _\<close> by auto
  next
    case (Some rest)
    then have same: "s\<lparr>fs_tmp := Some rest\<rparr> = s" by simp
    show ?thesis by (rule that [of rest, unfolded same]) (simp_all add: Some s)
  qed
  obtain k e where call: "rf rest n = (k, e)" by (cases "rf rest n")
  have k: "k \<le> n" "k \<le> length rest" "e \<noteq> Broken" "e = AtEOF \<longrightarrow> k = length rest" "0 < k \<or> e = AtEOF"
    using rf n call unfolding reader_contract_def by (auto dest!: spec [of _ rest] spec [of _ n])
  let ?c = "nat (fs_cursor s)"
  obtain i where i: "i * ?bs < length content" "i * ?bs \<le> ?c" "?c \<le> i * ?bs + length (block_at ?bs content i)"
      "rest = drop (?c - i * ?bs) (block_at ?bs content i)"
    using s1 unfolding stream_ok_def by auto
  have c0: "0 \<le> fs_cursor s" "fs_size s = int (length content)" "fs_open s" "fs_cursor s \<le> fs_size s" using s by (auto simp: stream_ok_def)
  have blen: "length (block_at ?bs content i) = min ?bs (length content - i * ?bs)" by (simp add: block_at_def)
  have rest: "rest = take (i * ?bs + ?bs - ?c) (drop ?c content)" using i block_at_drop by simp
  have len: "length rest = i * ?bs + length (block_at ?bs content i) - ?c" using i(2) unfolding i(4) length_drop by linarith
  have taken: "take k rest = take k (drop ?c content)" using k(2) unfolding rest by simp
  let ?s' = "s\<lparr>fs_cursor := fs_cursor s + int k, fs_tmp := if e = AtEOF then None else Some (drop k rest)\<rparr>"
  have "fsRead bk rf b2f b n s = ((take k (drop ?c content), None), ?s')"
    using opened call k(3) c0(3) taken by (cases e) (simp_all add: fsRead_def)
  moreover have bound: "k \<le> length content - ?c" using k(2) rest by simp
  moreover have "stream_ok ?bs content ?s'"
  proof -
    have c': "nat (fs_cursor s + int k) = ?c + k" using c0(1) by linarith
    have "i * ?bs \<le> ?c + k" "?c + k \<le> i * ?bs + length (block_at ?bs content i)" using i(2,3) k(2) len by linarith+
    moreover have "drop k rest = drop (?c + k - i * ?bs) (block_at ?bs content i)" using i(2,4) by (simp add: add.commute)
    moreover have "fs_cursor s + int k \<le> fs_size s" using bound c0 i(3) blen i(1) by linarith
    ultimately show ?thesis using i(1) c0 unfolding stream_ok_def by (auto simp: c')
  qed
  moreover have "fs_tmp s \<noteq> None \<and> fs_tmp ?s' = None \<and> (?c mod ?bs = 0 \<and> 0 < fs_cursor s \<or> fs_cursor s = fs_size s)" if "k = 0"
  proof -
    have e: "e = AtEOF" "rest = []" using k(4,5) that by auto
    then have ending: "?c = i * ?bs + length (block_at ?bs content i)" using len i(3) by simp
    have "?c mod ?bs = 0 \<and> 0 < fs_cursor s \<or> fs_cursor s = fs_size s"
    proof (cases "?bs \<le> length content - i * ?bs")
      case True
      then have "?c = Suc i * ?bs" using ending blen by simp
      moreover have "0 < ?bs" using stored by (simp add: readable_def)
      ultimately show ?thesis by (metis c0(1) mod_mult_self2_is_0 mult_pos_pos nat_0_iff neq0_conv not_le zero_less_Suc)
    next
      case False
      then show ?thesis using ending blen i(1) c0 by linarith
    qed
    then show ?thesis using fresh e by auto
  qed
  ultimately show "\<exists>k s'. fsRead bk rf b2f b n s = ((take k (drop ?c content), None), s') \<and> k \<le> n \<and>
        k \<le> length content - ?c \<and> stream_ok ?bs content s' \<and>
        fs_cursor s' = fs_cursor s + int k \<and>
        (k = 0 \<longrightarrow> fs_tmp s \<noteq> None \<and> fs_tmp s' = None \<and> (?c mod ?bs = 0 \<and> 0 < fs_cursor s \<or> fs_cursor s = fs_size s))"
    using k(1) by (intro exI [of _ k] exI [of _ ?s']) simp
qed

text \<open>Reading to the end: each call either delivers bytes or closes an exhausted block.\<close>

definition read_measure :: "fs_stream \<Rightarrow> nat" where
  "read_measure s = 2 * nat (fs_size s - fs_cursor s) + (if fs_tmp s = None then 0 else 1)"

lemma readAllStream_ok:
  assumes stored: "readable bk b2f b content" and rf: "reader_contract rf" and n: "0 < n"
  shows "stream_ok (nat (bio_MaxFileSize bk)) content s \<Longrightarrow> read_measure s < fuel \<Longrightarrow>
    readAllStream fuel bk rf b2f b n s acc = Inr (acc @ drop (nat (fs_cursor s)) content)"
proof (induction fuel arbitrary: s acc)
  case (Suc fuel)
  note s = Suc.prems(1)
  have c: "0 \<le> fs_cursor s" "fs_cursor s \<le> fs_size s" "fs_size s = int (length content)" using s by (auto simp: stream_ok_def)
  show ?case
  proof (cases "fs_tmp s = None \<and> fs_cursor s = fs_size s")
    case True
    then show ?thesis using fsRead_ok(1) [OF stored rf s n] c by simp
  next
    case False
    then have "fs_tmp s \<noteq> None \<or> fs_cursor s < fs_size s" using c by auto
    from fsRead_ok(2) [OF stored rf s n this] obtain k s' where r:
      "fsRead bk rf b2f b n s = ((take k (drop (nat (fs_cursor s)) content), None), s')"
      "k \<le> length content - nat (fs_cursor s)" "stream_ok (nat (bio_MaxFileSize bk)) content s'" "fs_cursor s' = fs_cursor s + int k"
      "k = 0 \<longrightarrow> fs_tmp s \<noteq> None \<and> fs_tmp s' = None" by blast
    have "fs_size s' = fs_size s" using r(3) c by (simp add: stream_ok_def)
    then have "read_measure s' < read_measure s" using r(2,4,5) c by (cases "k = 0") (auto simp: read_measure_def)
    then have "readAllStream fuel bk rf b2f b n s' (acc @ take k (drop (nat (fs_cursor s)) content)) =
      Inr (acc @ take k (drop (nat (fs_cursor s)) content) @ drop (nat (fs_cursor s')) content)"
      using Suc.IH [OF r(3)] Suc.prems(2) by simp
    moreover have "nat (fs_cursor s') = k + nat (fs_cursor s)" using r(4) c by simp
    ultimately show ?thesis using r(1) by (simp flip: drop_drop add: append_take_drop_id)
  qed
qed simp

lemma calcOffset_tmp [simp]: "calcOffset offset whence (s\<lparr>fs_tmp := t\<rparr>) = calcOffset offset whence s"
  by (simp add: calcOffset_def)

lemma fsSeek_ok:
  assumes s: "stream_ok bs content s"
  shows "stream_ok bs content (snd (fsSeek offset whence s))"
    and "0 \<le> calcOffset offset whence s \<Longrightarrow> calcOffset offset whence s \<le> fs_size s \<Longrightarrow>
      fst (fsSeek offset whence s) = (calcOffset offset whence s, None) \<and>
      fs_cursor (snd (fsSeek offset whence s)) = calcOffset offset whence s"
    and "calcOffset offset whence s < 0 \<or> fs_size s < calcOffset offset whence s \<Longrightarrow>
      snd (fst (fsSeek offset whence s)) \<noteq> None \<and> fs_cursor (snd (fsSeek offset whence s)) = fs_cursor s"
    and "fs_tmp (snd (fsSeek offset whence s)) = None"
  using s by (auto simp: fsSeek_def stream_ok_def Let_def)

end
