(* ===== verification/File_Manager.thy ===== *)
theory File_Manager
  imports File_Stream References
begin

text \<open>
  Creating files (\<^verbatim>\<open>filemgr/file_manager_impl.go\<close>): a draft row, one uploaded block and
  one part row per block, and the row that makes the file ready. The operations work on the
  database and on the state of the block backend at once, and an error keeps what was done
  before it; \<open>CreateFile\<close> therefore hands a file that could not be finished to the
  deletion of blocks.

  The clock is read once per operation.
\<close>

section \<open>Operations\<close>

type_synonym 'b world = "db \<times> 'b"

definition calculateFileBlockCount :: "int \<Rightarrow> int \<Rightarrow> int result" where
  "calculateFileBlockCount fsize blockSize =
     (if fsize < 0 then Inl ErrInvalidFileSize
      else if blockSize \<le> 0 then Inl ErrInvalidBlockSize
      else if fsize = 0 then Inr 0
      else let count = 1 + (fsize - 1) div blockSize
           in if count > maxFilePartCount then Inl ErrTooManyFileParts else Inr count)"

definition CreateFileDraft ::
  "'b IBlockIO \<Rightarrow> (nat \<Rightarrow> nat) \<Rightarrow> int \<Rightarrow> int \<Rightarrow> db \<Rightarrow> ((nat \<times> int) \<times> db) result" where
  "CreateFileDraft bk idfn now fsize d =
     (let blockSize = bio_MaxFileSize bk
      in bind_result (calculateFileBlockCount fsize blockSize) (\<lambda>blockCount.
         bind_result (CreateFileDraftRow (idfn (id_seq d)) now fsize blockCount (d\<lparr>id_seq := Suc (id_seq d)\<rparr>))
           (\<lambda>(fileid, d). Inr ((fileid, blockSize), d))))"

text \<open>
  The reader that the upload consumes to its end feeds the digest and the byte count. When the
  part cannot be recorded, the block that was just uploaded is deleted again.
\<close>

definition CreateFilePart ::
  "'b IBlockIO \<Rightarrow> int \<Rightarrow> nat \<Rightarrow> int \<Rightarrow> reader \<Rightarrow> 'b world \<Rightarrow> unit result \<times> 'b world" where
  "CreateFilePart bk now fileid partid r w =
     (case w of (d, b) \<Rightarrow>
        if partid < 0 \<or> partid > maxFilePartCount then (Inl ErrInvalidFilePart, (d, b))
        else
          case bio_Upload bk now r b of
            Inl e \<Rightarrow> (Inl e, (d, b))
          | Inr (upload, b) \<Rightarrow>
              if ur_FileKey upload = '''' \<or> ur_DeleteRef upload = '''' \<or> ur_UploadedAt upload \<le> 0
              then (Inl ErrInvalidUploadDeleteReference, (d, b))
              else
                case CreateFilePartRow
                       \<lparr>FileId = fileid, FilePartId = partid, FileKey = ur_FileKey upload,
                        FilePartMd5 = hex_encode (md5 (rd_data r)), FilePartSize = int (length (rd_data r)),
                        BackendKind = bio_Name bk, DeleteRef = ur_DeleteRef upload,
                        UploadedAt = ur_UploadedAt upload\<rparr> now d of
                  Inl e \<Rightarrow> (Inl e, (d, snd (bio_DeleteBlocks bk [ur_DeleteRef upload] b)))
                | Inr d \<Rightarrow> (Inr (), (d, b)))"

definition EmptyFileMD5Sum :: string where
  "EmptyFileMD5Sum = ''d41d8cd98f00b204e9800998ecf8427e''"

text \<open>The digest is a hexadecimal string, which JSON needs not escape.\<close>

definition marshalExtInfo :: "string \<Rightarrow> string" where
  "marshalExtInfo md5v = ''{'' @ [CHR 0x22] @ ''md5'' @ [CHR 0x22] @ '':'' @ [CHR 0x22] @ md5v @ [CHR 0x22] @ ''}''"

definition FinishFileCreate :: "nat \<Rightarrow> int \<Rightarrow> db \<Rightarrow> db" where
  "FinishFileCreate fileid now d =
     (let fps = ListFilePart fileid d;
          md5v = EmptyFileMD5Sum;
          md5v = (if length fps = 1 then pr_md5 (fps ! 0) else md5v);
          md5v = (if length fps > 1
                  then hex_encode (md5 (bytes_of_string (concat (map pr_md5 fps)))) else md5v)
      in MarkFileReady fileid (marshalExtInfo md5v) now d)"

text \<open>The loop over the parts: \<open>n\<close> of them are left, the reader is at \<open>uploadedSize\<close>.\<close>

primrec createParts ::
  "nat \<Rightarrow> 'b IBlockIO \<Rightarrow> int \<Rightarrow> nat \<Rightarrow> int \<Rightarrow> int \<Rightarrow> int \<Rightarrow> int \<Rightarrow> reader \<Rightarrow> 'b world \<Rightarrow> unit result \<times> 'b world" where
  "createParts 0 bk now fileid blksize fsize partID uploadedSize r w = (Inr (), w)"
| "createParts (Suc n) bk now fileid blksize fsize partID uploadedSize r w =
     (let partSize = min blksize (fsize - uploadedSize);
          counted = LimitReader r (nat partSize);
          count = int (length (rd_data counted))
      in case CreateFilePart bk now fileid partID counted w of
           (Inl e, w) \<Rightarrow> (Inl e, w)
         | (Inr _, w) \<Rightarrow>
             if count \<noteq> partSize then (Inl ErrFileShortRead, w)
             else createParts n bk now fileid blksize fsize (partID + 1) (uploadedSize + count)
                    (afterLimit r (nat partSize)) w)"

definition createFile ::
  "'b IBlockIO \<Rightarrow> (nat \<Rightarrow> nat) \<Rightarrow> int \<Rightarrow> int \<Rightarrow> reader \<Rightarrow> 'b world \<Rightarrow> (nat \<times> err option) \<times> 'b world" where
  "createFile bk idfn now fsize r w =
     (case w of (d, b) \<Rightarrow>
        case CreateFileDraft bk idfn now fsize d of
          Inl e \<Rightarrow> ((0, Some e), (d, b))
        | Inr ((fileid, blksize), d) \<Rightarrow>
            case calculateFileBlockCount fsize blksize of
              Inl e \<Rightarrow> ((fileid, Some e), (d, b))
            | Inr blockCount \<Rightarrow>
                case createParts (nat blockCount) bk now fileid blksize fsize 0 0 r (d, b) of
                  (Inl e, w) \<Rightarrow> ((fileid, Some e), w)
                | (Inr _, (d, b)) \<Rightarrow> ((fileid, None), (FinishFileCreate fileid now d, b)))"

text \<open>
  A failed creation reports the first error; the failure of the cleanup, which is joined to
  it, leaves the database unchanged.
\<close>

definition CreateFile ::
  "'b IBlockIO \<Rightarrow> (nat \<Rightarrow> nat) \<Rightarrow> int \<Rightarrow> int \<Rightarrow> reader \<Rightarrow> 'b world \<Rightarrow> (nat \<times> err option) \<times> 'b world" where
  "CreateFile bk idfn now fsize r w =
     (case createFile bk idfn now fsize r w of
        ((fileID, err), (d, b)) \<Rightarrow>
          if err = None \<or> fileID = 0 then ((fileID, err), (d, b))
          else
            case DiscardUnpublishedFile fileID now d of
              Inl _ \<Rightarrow> ((0, err), (d, b))
            | Inr d \<Rightarrow> ((0, err), (d, b)))"

definition internalGetFileInfo :: "nat \<Rightarrow> db \<Rightarrow> file_row option" where
  "internalGetFileInfo fileid d = (case GetFileInfo [fileid] d of [] \<Rightarrow> None | r # _ \<Rightarrow> Some r)"

definition internalGetFilePartInfo :: "nat \<Rightarrow> int \<Rightarrow> db \<Rightarrow> part_row option" where
  "internalGetFilePartInfo fileid partid d =
     (case GetFilePartInfo fileid [partid] d of [] \<Rightarrow> None | r # _ \<Rightarrow> Some r)"

text \<open>The conversion from a block number to its key that \<open>lowlevelIOStream\<close> gives the stream.\<close>

definition lowlevelKey :: "db \<Rightarrow> nat \<Rightarrow> int \<Rightarrow> string result" where
  "lowlevelKey d fileid blkid =
     (case internalGetFilePartInfo fileid blkid d of
        None \<Rightarrow> Inl ErrFilePartNotFound
      | Some pinfo \<Rightarrow> Inr (pr_key pinfo))"

section \<open>The number of blocks\<close>

lemma calculateFileBlockCount_least:
  assumes "calculateFileBlockCount fsize blockSize = Inr count"
  shows "0 \<le> count" "count \<le> maxFilePartCount" "fsize \<le> count * blockSize" "(count - 1) * blockSize < fsize \<or> fsize = 0 \<and> count = 0"
proof -
  have size: "0 \<le> fsize" "0 < blockSize" using assms by (auto simp: calculateFileBlockCount_def split: if_splits)
  show "0 \<le> count" "count \<le> maxFilePartCount"
    using assms size by (auto simp: calculateFileBlockCount_def Let_def pos_imp_zdiv_nonneg_iff split: if_splits)
  have "fsize \<le> count * blockSize \<and> (count - 1) * blockSize < fsize" if "fsize \<noteq> 0"
  proof -
    have count: "count - 1 = (fsize - 1) div blockSize"
      using assms size that by (auto simp: calculateFileBlockCount_def Let_def split: if_splits)
    have "(fsize - 1) div blockSize * blockSize \<le> fsize - 1" "fsize - 1 < ((fsize - 1) div blockSize + 1) * blockSize"
      using size(2) pos_mod_sign [OF size(2), of "fsize - 1"] pos_mod_bound [OF size(2), of "fsize - 1"] by (simp_all add: div_mult2_eq minus_mod_eq_div_mult [symmetric] distrib_right)
    then show ?thesis by (simp flip: count)
  qed
  moreover have "count = 0" if "fsize = 0" using assms size that by (simp add: calculateFileBlockCount_def)
  ultimately show "fsize \<le> count * blockSize" "(count - 1) * blockSize < fsize \<or> fsize = 0 \<and> count = 0"
    by (cases "fsize = 0"; simp)+
qed

section \<open>Stored files\<close>

text \<open>
  The first \<open>n\<close> blocks of a content are recorded and stored: the part rows of the file, in
  their order, carry the block's number, length and digest and a key under which the backend
  has its bytes, and each part has a live deletion state.
\<close>

definition stored_parts ::
  "nat \<Rightarrow> byte list \<Rightarrow> nat \<Rightarrow> nat \<Rightarrow> db \<Rightarrow> (string \<rightharpoonup> byte list) \<Rightarrow> bool" where
  "stored_parts bs content fid n d m \<longleftrightarrow>
     map (\<lambda>r. (pr_part_id r, pr_size r, pr_md5 r, m (pr_key r))) (filter (\<lambda>r. pr_file_id r = fid) (parts d)) =
     map (\<lambda>i. let block = block_at bs content i
              in (int i, int (length block), hex_encode (md5 block), Some block)) [0..<n] \<and>
     map (\<lambda>r. (dr_part_id r, dr_state r)) (filter (\<lambda>r. dr_file_id r = fid) (deletes d)) =
     map (\<lambda>i. (int i, Live)) [0..<n]"

text \<open>Only rows of one file are added, nothing else changes.\<close>

definition adds_parts :: "nat \<Rightarrow> db \<Rightarrow> db \<Rightarrow> bool" where
  "adds_parts fid d d' \<longleftrightarrow>
     (\<exists>ps ds. d' = d\<lparr>parts := parts d @ ps, deletes := deletes d @ ds\<rparr> \<and>
        (\<forall>p\<in>set ps. pr_file_id p = fid) \<and> (\<forall>r\<in>set ds. dr_file_id r = fid \<and> dr_state r = Live))"

lemma adds_parts_refl: "adds_parts fid d d"
  unfolding adds_parts_def by (intro exI [of _ "[]"]) simp

lemma adds_parts_trans:
  assumes "adds_parts fid d d'" and "adds_parts fid d' d''"
  shows "adds_parts fid d d''"
proof -
  obtain ps ds qs es where "d' = d\<lparr>parts := parts d @ ps, deletes := deletes d @ ds\<rparr>"
    "d'' = d'\<lparr>parts := parts d' @ qs, deletes := deletes d' @ es\<rparr>"
    and "\<forall>p\<in>set (ps @ qs). pr_file_id p = fid" "\<forall>r\<in>set (ds @ es). dr_file_id r = fid \<and> dr_state r = Live"
    using assms unfolding adds_parts_def by (auto simp: ball_Un)
  then show ?thesis unfolding adds_parts_def by (intro exI [of _ "ps @ qs"] exI [of _ "ds @ es"]) simp
qed

lemma CreateFilePartRow_adds:
  assumes "CreateFilePartRow req now d = Inr d'"
  shows "adds_parts (FileId req) d d'"
  using assms unfolding adds_parts_def CreateFilePartRow_def bind_result_Inr_iff insert_unique_Inr
  by (elim exE conjE, clarify) (intro exI conjI, rule refl, simp_all)

lemma stored_parts_mono:
  assumes "stored_parts bs content fid n d m" and "\<And>k v. m k = Some v \<Longrightarrow> m' k = Some v"
  shows "stored_parts bs content fid n d m'"
proof -
  let ?P = "filter (\<lambda>r. pr_file_id r = fid) (parts d)"
  let ?row = "\<lambda>m r. (pr_part_id r, pr_size r, pr_md5 r, m (pr_key r))"
  have "m' (pr_key r) = m (pr_key r)" if "r \<in> set ?P" for r
  proof -
    have "?row m r \<in> set (map (?row m) ?P)" using that by simp
    then have "\<exists>v. m (pr_key r) = Some v" using assms(1) unfolding stored_parts_def by (auto simp: Let_def)
    then show ?thesis using assms(2) by auto
  qed
  then have "map (?row m') ?P = map (?row m) ?P" by simp
  then show ?thesis using assms(1) unfolding stored_parts_def by argo
qed

lemma filter_indexed:
  assumes "map f xs = map g [0..<n]" and "\<And>i. key (g i) = int i" and "i < n"
  shows "filter (\<lambda>x. key (f x) = int i) xs = [xs ! i]" and "f (xs ! i) = g i"
proof -
  have len: "length xs = n" using assms(1) by (metis length_map length_upt minus_nat.diff_0)
  have f: "f (xs ! j) = g j" if "j < n" for j using assms(1) that len by (metis nth_map nth_upt length_upt minus_nat.diff_0 plus_nat.add_0)
  then show "f (xs ! i) = g i" using assms(3) by blast
  have "filter (\<lambda>x. key (f x) = int i) (map ((!) xs) [0..<n]) = map ((!) xs) (filter (\<lambda>j. j = i) [0..<n])"
    unfolding filter_map comp_def by (intro arg_cong [of _ _ "map _"] filter_cong) (auto simp: f assms(2))
  also have "filter (\<lambda>j. j = i) [0..<n] = [i]" using assms(3)
    by (induction n) (auto simp: less_Suc_eq)
  finally show "filter (\<lambda>x. key (f x) = int i) xs = [xs ! i]" using map_nth [of xs] unfolding len by simp
qed

text \<open>The key the stream is given for a block leads to the bytes of that block.\<close>

lemma stored_parts_key:
  assumes "stored_parts bs content fid n d m" and "i < n"
  shows "\<exists>key. lowlevelKey d fid (int i) = Inr key \<and> m key = Some (block_at bs content i)"
proof -
  let ?P = "filter (\<lambda>r. pr_file_id r = fid) (parts d)"
  let ?row = "\<lambda>r. (pr_part_id r, pr_size r, pr_md5 r, m (pr_key r))"
  let ?g = "\<lambda>i. let block = block_at bs content i in (int i, int (length block), hex_encode (md5 block), Some block)"
  have "map ?row ?P = map ?g [0..<n]" using assms(1) by (simp add: stored_parts_def)
  note row = filter_indexed [OF this _ assms(2), where key = fst]
  have "GetFilePartInfo fid [int i] d = filter (\<lambda>r. fst (?row r) = int i) ?P"
    by (simp add: GetFilePartInfo_def conj_commute)
  also have "\<dots> = [?P ! i]" by (rule row(1)) (simp add: Let_def)
  finally have "lowlevelKey d fid (int i) = Inr (pr_key (?P ! i))" by (simp add: lowlevelKey_def internalGetFilePartInfo_def)
  moreover have "m (pr_key (?P ! i)) = Some (block_at bs content i)" using row(2) by (simp add: Let_def)
  ultimately show ?thesis by blast
qed

text \<open>A recorded part extends the stored prefix by one block.\<close>

lemma stored_parts_snoc:
  assumes "stored_parts bs content fid n d m"
    and "d' = d\<lparr>parts := parts d @ [p], deletes := deletes d @ [r]\<rparr>"
    and "pr_file_id p = fid" "pr_part_id p = int n" "pr_size p = int (length (block_at bs content n))"
      "pr_md5 p = hex_encode (md5 (block_at bs content n))" "m (pr_key p) = Some (block_at bs content n)"
    and "dr_file_id r = fid" "dr_part_id r = int n" "dr_state r = Live"
  shows "stored_parts bs content fid (Suc n) d' m"
  using assms by (simp add: stored_parts_def Let_def)

lemma stored_parts_next:
  assumes "stored_parts bs content fid i d m"
  shows "\<forall>p\<in>set (parts d). (pr_file_id p, pr_part_id p) \<noteq> (fid, int i)"
    and "\<forall>p\<in>set (deletes d). (dr_file_id p, dr_part_id p) \<noteq> (fid, int i)"
proof -
  note sp = assms [unfolded stored_parts_def]
  have "int i \<notin> fst ` set (map (\<lambda>r. (pr_part_id r, pr_size r, pr_md5 r, m (pr_key r))) (filter (\<lambda>r. pr_file_id r = fid) (parts d)))"
    unfolding sp [THEN conjunct1] by (auto simp: Let_def)
  then show "\<forall>p\<in>set (parts d). (pr_file_id p, pr_part_id p) \<noteq> (fid, int i)" by (force simp: image_iff)
  have "int i \<notin> fst ` set (map (\<lambda>r. (dr_part_id r, dr_state r)) (filter (\<lambda>r. dr_file_id r = fid) (deletes d)))"
    unfolding sp [THEN conjunct2] by auto
  then show "\<forall>p\<in>set (deletes d). (dr_file_id p, dr_part_id p) \<noteq> (fid, int i)" by (force simp: image_iff)
qed

lemma find_snoc: "\<forall>x\<in>set xs. \<not> P x \<Longrightarrow> find P (xs @ [y]) = (if P y then Some y else None)"
  by (induction xs) auto

text \<open>An identifier that no row of the database mentions.\<close>

definition unused :: "nat \<Rightarrow> db \<Rightarrow> bool" where
  "unused fid d \<longleftrightarrow> 0 < fid \<and> (\<forall>r\<in>set (files d). fr_file_id r \<noteq> fid) \<and> (\<forall>p\<in>set (parts d). pr_file_id p \<noteq> fid) \<and>
     (\<forall>r\<in>set (deletes d). dr_file_id r \<noteq> fid) \<and> \<not> fileHasLiveReference d fid"

definition draft_row :: "nat \<Rightarrow> int \<Rightarrow> int \<Rightarrow> int \<Rightarrow> db \<Rightarrow> file_row" where
  "draft_row fid now fsize count d =
     \<lparr>fr_id = Suc (file_seq d), fr_file_id = fid, fr_size = fsize, fr_part_count = count,
      fr_state = FileStateInit, fr_ctime = now, fr_mtime = now, fr_extinfo = ''{}'', fr_layout = 1\<rparr>"

definition drafted :: "nat \<Rightarrow> int \<Rightarrow> int \<Rightarrow> int \<Rightarrow> db \<Rightarrow> db" where
  "drafted fid now fsize count d =
     d\<lparr>files := files d @ [draft_row fid now fsize count d], file_seq := Suc (file_seq d), id_seq := Suc (id_seq d)\<rparr>"

lemma CreateFileDraft_ok:
  assumes "unused (idfn (id_seq d)) d" and "calculateFileBlockCount fsize (bio_MaxFileSize bk) = Inr count"
  shows "CreateFileDraft bk idfn now fsize d =
    Inr ((idfn (id_seq d), bio_MaxFileSize bk), drafted (idfn (id_seq d)) now fsize count d)"
proof -
  have "idfn (id_seq d) \<notin> fr_file_id ` set (files d)" using assms(1) by (auto simp: unused_def)
  then show ?thesis
    using assms(2) by (simp add: CreateFileDraft_def CreateFileDraftRow_def insert_unique_def drafted_def draft_row_def)
qed

lemma drafted_empty:
  assumes "unused fid d"
  shows "stored_parts bs content fid 0 (drafted fid now fsize count d) m"
  using assms by (simp add: stored_parts_def drafted_def unused_def filter_empty_conv)

lemma adds_parts_draft:
  assumes "unused fid d" and "adds_parts fid (drafted fid now fsize count d) d'"
  shows "files d' = files d @ [draft_row fid now fsize count d]" and "\<not> fileHasLiveReference d' fid"
    and "filter (\<lambda>p. pr_file_id p \<noteq> fid) (parts d') = parts d" and "filter (\<lambda>r. dr_file_id r \<noteq> fid) (deletes d') = deletes d"
    and "mappings d' = mappings d" and "segments d' = segments d" and "pins d' = pins d" and "uploads d' = uploads d" and "mparts d' = mparts d"
proof -
  obtain ps ds where d': "d' = drafted fid now fsize count d\<lparr>parts := parts d @ ps, deletes := deletes d @ ds\<rparr>"
    and new: "\<forall>p\<in>set ps. pr_file_id p = fid" "\<forall>r\<in>set ds. dr_file_id r = fid"
    using assms(2) unfolding adds_parts_def by (auto simp: drafted_def)
  have old: "\<forall>p\<in>set (parts d). pr_file_id p \<noteq> fid" "\<forall>r\<in>set (deletes d). dr_file_id r \<noteq> fid" "\<not> fileHasLiveReference d fid"
    using assms(1) by (simp_all add: unused_def)
  show "filter (\<lambda>p. pr_file_id p \<noteq> fid) (parts d') = parts d" "filter (\<lambda>r. dr_file_id r \<noteq> fid) (deletes d') = deletes d"
    using old new by (simp_all add: d')
  show "\<not> fileHasLiveReference d' fid" using old(3) by (simp add: d' drafted_def fileHasLiveReference_def)
  show "files d' = files d @ [draft_row fid now fsize count d]" "mappings d' = mappings d" "segments d' = segments d"
    "pins d' = pins d" "uploads d' = uploads d" "mparts d' = mparts d" by (simp_all add: d' drafted_def)
qed

section \<open>Creating files on a backend\<close>

text \<open>What the file manager achieves on any backend that keeps the promises of the interface.\<close>

locale file_store = block_store "bio_Upload bk" "bio_Download bk" "bio_DeleteBlocks bk" blocks owner inv
  for bk :: "'b IBlockIO" and blocks :: "'b \<Rightarrow> string \<rightharpoonup> byte list" and owner :: "'b \<Rightarrow> string \<rightharpoonup> string"
    and inv :: "'b \<Rightarrow> bool"
begin

lemma CreateFilePart_ok:
  assumes inv: "inv b" and part: "0 \<le> partid" "partid \<le> maxFilePartCount" and data: "\<not> rd_fails r" and now: "0 < now"
    and fresh: "\<forall>p\<in>set (parts d). (pr_file_id p, pr_part_id p) \<noteq> (fid, partid)"
      "\<forall>p\<in>set (deletes d). (dr_file_id p, dr_part_id p) \<noteq> (fid, partid)"
  shows "\<exists>p s b'. CreateFilePart bk now fid partid r (d, b) =
      (Inr (), (d\<lparr>parts := parts d @ [p], deletes := deletes d @ [s]\<rparr>, b')) \<and> inv b' \<and>
      pr_file_id p = fid \<and> pr_part_id p = partid \<and> pr_size p = int (length (rd_data r)) \<and>
      pr_md5 p = hex_encode (md5 (rd_data r)) \<and> blocks b' (pr_key p) = Some (rd_data r) \<and>
      dr_file_id s = fid \<and> dr_part_id s = partid \<and> dr_state s = Live \<and>
      (\<forall>k v. blocks b k = Some v \<longrightarrow> blocks b' k = Some v)"
proof -
  obtain u b' where up: "bio_Upload bk now r b = Inr (u, b')"
    using up_total [OF inv, of r "rd_data r" now] data by (auto simp: ReadAll_def)
  note facts = up_inv [OF inv up] up_named [OF inv up] up_blocks [OF inv up] up_keeps [OF inv up]
  define p where "p = \<lparr>pr_file_id = fid, pr_part_id = partid, pr_key = ur_FileKey u,
    pr_md5 = hex_encode (md5 (rd_data r)), pr_size = int (length (rd_data r)), pr_ctime = now, pr_mtime = now\<rparr>"
  define s where "s = \<lparr>dr_file_id = fid, dr_part_id = partid, dr_backend = bio_Name bk,
    dr_ref = ur_DeleteRef u, dr_uploaded_at = now, dr_state = Live, dr_attempts = 0, dr_next_attempt = 0,
    dr_lease_until = 0, dr_last_attempt = 0, dr_error = '''', dr_deleted_at = 0, dr_ctime = now, dr_mtime = now\<rparr>"
  have "insert_unique (\<lambda>r. (pr_file_id r, pr_part_id r)) p (parts d) = Inr (parts d @ [p])"
    "insert_unique (\<lambda>r. (dr_file_id r, dr_part_id r)) s (deletes d) = Inr (deletes d @ [s])"
    using fresh by (auto simp: insert_unique_def p_def s_def)
  then have "CreateFilePart bk now fid partid r (d, b) =
      (Inr (), (d\<lparr>parts := parts d @ [p], deletes := deletes d @ [s]\<rparr>, b'))"
    using part up facts(2) now by (simp add: CreateFilePart_def CreateFilePartRow_def p_def [symmetric] s_def [symmetric])
  moreover have "blocks b' (pr_key p) = Some (rd_data r)" using facts(3) by (simp add: p_def)
  moreover have "\<forall>k v. blocks b k = Some v \<longrightarrow> blocks b' k = Some v" using facts(4) by blast
  moreover have "pr_file_id p = fid" "pr_part_id p = partid" "pr_size p = int (length (rd_data r))"
    "pr_md5 p = hex_encode (md5 (rd_data r))" "dr_file_id s = fid" "dr_part_id s = partid" "dr_state s = Live"
    by (simp_all add: p_def s_def)
  ultimately show ?thesis using facts(1) by blast
qed

text \<open>A part that cannot be recorded leaves the database and the stored blocks as they were.\<close>

lemma CreateFilePart_failed:
  assumes inv: "inv b" and now: "0 < now" and failed: "CreateFilePart bk now fid partid r (d, b) = (Inl e, (d', b'))"
    and cleanup: "\<And>ref b. ref \<noteq> '''' \<Longrightarrow> inv b \<Longrightarrow> owner b ref \<noteq> None \<Longrightarrow> fst (bio_DeleteBlocks bk [ref] b) = Inr ()"
  shows "d' = d \<and> blocks b' = blocks b"
proof (cases "bio_Upload bk now r b")
  case (Inl e)
  then show ?thesis using failed by (auto simp: CreateFilePart_def split: if_splits)
next
  case (Inr ub)
  obtain u b1 where up: "bio_Upload bk now r b = Inr (u, b1)" using Inr by (cases ub) auto
  note named = up_named [OF inv up] and own = up_owner [OF inv up]
  obtain x b2 where del: "bio_DeleteBlocks bk [ur_DeleteRef u] b1 = (x, b2)" by fastforce
  have "x = Inr ()" using cleanup [of "ur_DeleteRef u" b1] named own up_inv [OF inv up] del by simp
  then have "blocks b2 = blocks b" using up_del [OF inv up] del by blast
  then show ?thesis using failed up named now del by (auto simp: CreateFilePart_def split: if_splits sum.splits)
qed

text \<open>Whatever the outcome, a part adds at most its own rows and keeps the blocks stored before.\<close>

lemma CreateFilePart_frame:
  assumes inv: "inv b" and call: "CreateFilePart bk now fid partid r (d, b) = (res, (d', b'))"
  shows "inv b'" and "adds_parts fid d d'" and "blocks b k = Some v \<Longrightarrow> blocks b' k = Some v"
proof -
  have "inv b' \<and> adds_parts fid d d' \<and> (blocks b k = Some v \<longrightarrow> blocks b' k = Some v)"
  proof (cases "partid < 0 \<or> partid > maxFilePartCount \<or> (\<exists>e. bio_Upload bk now r b = Inl e)")
    case True
    then have "CreateFilePart bk now fid partid r (d, b) = (fst (CreateFilePart bk now fid partid r (d, b)), (d, b))"
      by (auto simp: CreateFilePart_def)
    then have "d' = d \<and> b' = b" unfolding call by simp
    then show ?thesis using inv adds_parts_refl by simp
  next
    case False
    then obtain u b1 where up: "bio_Upload bk now r b = Inr (u, b1)" by (metis old.prod.exhaust sumE)
    note keep = up_keeps [OF inv up] and inv1 = up_inv [OF inv up]
    let ?req = "\<lparr>FileId = fid, FilePartId = partid, FileKey = ur_FileKey u,
      FilePartMd5 = hex_encode (md5 (rd_data r)), FilePartSize = int (length (rd_data r)),
      BackendKind = bio_Name bk, DeleteRef = ur_DeleteRef u, UploadedAt = ur_UploadedAt u\<rparr>"
    consider "d' = d" "b' = b1" | "d' = d" "b' = snd (bio_DeleteBlocks bk [ur_DeleteRef u] b1)"
      | "CreateFilePartRow ?req now d = Inr d'" "b' = b1"
      using call up False by (cases "CreateFilePartRow ?req now d") (auto simp: CreateFilePart_def split: if_splits)
    then show ?thesis
    proof cases
      case 1
      then show ?thesis using inv1 keep adds_parts_refl by blast
    next
      case 2
      obtain x where del: "bio_DeleteBlocks bk [ur_DeleteRef u] b1 = (x, b')" using 2(2) by (cases "bio_DeleteBlocks bk [ur_DeleteRef u] b1") simp
      have "blocks b' k = Some v" if "blocks b k = Some v"
      proof -
        have "k \<noteq> ur_FileKey u" using up_blocks [OF inv up] that by auto
        then have "\<forall>ref\<in>set [ur_DeleteRef u]. owner b1 ref \<noteq> Some k" using up_owner [OF inv up] by auto
        then show ?thesis using del_only [OF inv1 del keep [OF that]] by blast
      qed
      then show ?thesis using del_inv [OF inv1 del] 2(1) adds_parts_refl by blast
    next
      case 3
      have "adds_parts fid d d'" using CreateFilePartRow_adds [OF 3(1)] by simp
      then show ?thesis using inv1 keep 3(2) by blast
    qed
  qed
  then show "inv b'" "adds_parts fid d d'" "blocks b k = Some v \<Longrightarrow> blocks b' k = Some v" by blast+
qed

lemma createParts_frame:
  "inv b \<Longrightarrow> createParts n bk now fid blksize fsize partID uploaded r (d, b) = (res, (d', b')) \<Longrightarrow>
     inv b' \<and> adds_parts fid d d' \<and> (\<forall>k v. blocks b k = Some v \<longrightarrow> blocks b' k = Some v)"
proof (induction n arbitrary: partID uploaded r d b)
  case 0
  then show ?case by (simp add: adds_parts_refl)
next
  case (Suc n)
  let ?size = "min blksize (fsize - uploaded)"
  obtain res1 d1 b1 where part: "CreateFilePart bk now fid partID (LimitReader r (nat ?size)) (d, b) = (res1, (d1, b1))"
    by (metis prod.exhaust)
  note frame = CreateFilePart_frame [OF Suc.prems(1) part]
  have "(d', b') = (d1, b1) \<or> (\<exists>p u r. createParts n bk now fid blksize fsize p u r (d1, b1) = (res, (d', b')))"
    using Suc.prems(2) part by (auto simp: Let_def split: sum.splits if_splits)
  then show ?case
  proof
    assume "(d', b') = (d1, b1)"
    then show ?thesis using frame by blast
  next
    assume "\<exists>p u r. createParts n bk now fid blksize fsize p u r (d1, b1) = (res, (d', b'))"
    then have "inv b' \<and> adds_parts fid d1 d' \<and> (\<forall>k v. blocks b1 k = Some v \<longrightarrow> blocks b' k = Some v)"
      using Suc.IH [OF frame(1)] by blast
    then show ?thesis using frame adds_parts_trans by blast
  qed
qed

lemma createParts_ok:
  fixes bs :: nat
  assumes now: "0 < now" and bs: "0 < bs"
  shows "inv b \<Longrightarrow> stored_parts bs content fid i d (blocks b) \<Longrightarrow> int (i + n) \<le> maxFilePartCount \<Longrightarrow>
    (0 < n \<Longrightarrow> uploaded = int (i * bs) \<and> (i + n - 1) * bs < length content) \<Longrightarrow>
    take (length content - i * bs) (rd_data r) = drop (i * bs) content \<Longrightarrow>
    \<exists>d' b'. createParts n bk now fid (int bs) (int (length content)) (int i) uploaded r (d, b) = (Inr (), (d', b')) \<and>
      inv b' \<and> stored_parts bs content fid (i + n) d' (blocks b') \<and> adds_parts fid d d' \<and>
      (\<forall>k v. blocks b k = Some v \<longrightarrow> blocks b' k = Some v)"
proof (induction n arbitrary: i d b r uploaded)
  case 0
  then show ?case by (intro exI [of _ d] exI [of _ b]) (simp add: adds_parts_refl)
next
  case (Suc n)
  let ?size = "min bs (length content - i * bs)"
  have up: "uploaded = int (i * bs)" and start: "(i + n) * bs < length content" using Suc.prems(4) by simp_all
  have "i * bs \<le> (i + n) * bs" by simp
  then have ib: "i * bs < length content" using start by (rule le_less_trans)
  have "int (length content - i * bs) = int (length content) - int (i * bs)" using ib by (intro of_nat_diff) simp
  then have psize': "min (int bs) (int (length content) - uploaded) = int ?size" unfolding up by (simp only: of_nat_min)
  let ?lim = "LimitReader r ?size"
  have rlen: "length content - i * bs \<le> length (rd_data r)"
    using arg_cong [OF Suc.prems(5), of length] by simp
  have data: "rd_data ?lim = block_at bs content i"
  proof -
    have "take ?size (rd_data r) = take ?size (take (length content - i * bs) (rd_data r))" by (simp add: min_def)
    then show ?thesis unfolding Suc.prems(5) by (simp add: LimitReader_def block_at_def min_def)
  qed
  have ok: "\<not> rd_fails ?lim" using rlen by (simp add: LimitReader_def)
  have len: "length (rd_data ?lim) = ?size" using rlen by (simp add: LimitReader_def)
  note fresh = stored_parts_next [OF Suc.prems(2)]
  have idx: "0 \<le> int i" "int i \<le> maxFilePartCount" using Suc.prems(3) by simp_all
  from CreateFilePart_ok [OF Suc.prems(1) idx ok now fresh] obtain p s b1 where part:
    "CreateFilePart bk now fid (int i) ?lim (d, b) = (Inr (), (d\<lparr>parts := parts d @ [p], deletes := deletes d @ [s]\<rparr>, b1))"
    "inv b1" "pr_file_id p = fid" "pr_part_id p = int i" "pr_size p = int (length (rd_data ?lim))"
    "pr_md5 p = hex_encode (md5 (rd_data ?lim))" "blocks b1 (pr_key p) = Some (rd_data ?lim)"
    "dr_file_id s = fid" "dr_part_id s = int i" "dr_state s = Live" "\<forall>k v. blocks b k = Some v \<longrightarrow> blocks b1 k = Some v"
    by blast
  let ?d1 = "d\<lparr>parts := parts d @ [p], deletes := deletes d @ [s]\<rparr>"
  have sp1: "stored_parts bs content fid (Suc i) ?d1 (blocks b1)"
    using part by (intro stored_parts_snoc [OF stored_parts_mono [OF Suc.prems(2)] refl]) (simp_all add: data)
  have more: "uploaded + int ?size = int (Suc i * bs) \<and> (Suc i + n - 1) * bs < length content" if "0 < n"
  proof -
    have "Suc i * bs \<le> (i + n) * bs" using that by (intro mult_le_mono1) simp
    then show ?thesis using start up by (simp add: min_def)
  qed
  have rest: "take (length content - Suc i * bs) (rd_data (afterLimit r ?size)) = drop (Suc i * bs) content"
  proof (cases "Suc i * bs \<le> length content")
    case True
    then have "?size = bs" by simp
    then have "take (length content - Suc i * bs) (rd_data (afterLimit r ?size)) = drop bs (take (length content - i * bs) (rd_data r))"
      using True by (simp add: afterLimit_def drop_take add.commute)
    then show ?thesis unfolding Suc.prems(5) by (simp add: add.commute)
  qed simp
  have "int (Suc i + n) \<le> maxFilePartCount" using Suc.prems(3) by simp
  from Suc.IH [OF part(2) sp1 this more rest] obtain d' b' where rec:
    "createParts n bk now fid (int bs) (int (length content)) (int (Suc i)) (uploaded + int ?size) (afterLimit r ?size) (?d1, b1) = (Inr (), (d', b'))"
    "inv b'" "stored_parts bs content fid (Suc i + n) d' (blocks b')" "adds_parts fid ?d1 d'"
    "\<forall>k v. blocks b1 k = Some v \<longrightarrow> blocks b' k = Some v" by blast
  have "adds_parts fid d ?d1" using part(3,8,10) unfolding adds_parts_def by (intro exI [of _ "[p]"] exI [of _ "[s]"]) simp
  then have adds: "adds_parts fid d d'" using rec(4) by (rule adds_parts_trans)
  have keep: "\<forall>k v. blocks b k = Some v \<longrightarrow> blocks b' k = Some v" using rec(5) part(11) by blast
  have "stored_parts bs content fid (i + Suc n) d' (blocks b')" using rec(3) by simp
  note this rec(2) adds keep
  moreover have "createParts (Suc n) bk now fid (int bs) (int (length content)) (int i) uploaded r (d, b) = (Inr (), (d', b'))"
    using part(1) rec(1) unfolding createParts.simps Let_def psize' nat_int len by (simp add: add.commute)
  ultimately show ?case by - (rule exI [of _ d'], rule exI [of _ b'], intro conjI; assumption)
qed

text \<open>A loop that reports success has read as many bytes as the file is meant to have.\<close>

lemma createParts_enough:
  assumes "0 < blksize"
  shows "createParts n bk now fid blksize fsize partID uploaded r w = (Inr (), w') \<Longrightarrow> uploaded \<le> fsize \<Longrightarrow>
    min (int n * blksize) (fsize - uploaded) \<le> int (length (rd_data r))"
proof (induction n arbitrary: partID uploaded r w)
  case 0
  then show ?case by simp
next
  case (Suc n)
  let ?size = "min blksize (fsize - uploaded)"
  let ?lim = "LimitReader r (nat ?size)"
  obtain w1 where call: "CreateFilePart bk now fid partID ?lim w = (Inr (), w1)"
    and len: "int (length (rd_data ?lim)) = ?size"
    and rec: "createParts n bk now fid blksize fsize (partID + 1) (uploaded + ?size) (afterLimit r (nat ?size)) w1 = (Inr (), w')"
    using Suc.prems(1) by (auto simp: Let_def split: sum.splits prod.splits if_splits)
  have "uploaded + ?size \<le> fsize" by simp
  from Suc.IH [OF rec this] have "min (int n * blksize) (fsize - (uploaded + ?size)) \<le> int (length (rd_data r) - nat ?size)"
    by (simp add: afterLimit_def)
  moreover have "0 \<le> ?size" using assms Suc.prems(2) by simp
  moreover have "int (nat ?size) \<le> int (length (rd_data r))" using len by (simp add: LimitReader_def min_def split: if_splits)
  moreover have "int (Suc n) * blksize = int n * blksize + blksize" by (simp add: distrib_right)
  ultimately show ?case by (auto simp: min_def of_nat_diff split: if_splits)
qed

lemma createFile_ok:
  assumes content_def: "content = take (nat fsize) (rd_data r)"
    and inv: "inv b" and now: "0 < now" and fid: "fid = idfn (id_seq d)" "unused fid d"
    and count: "calculateFileBlockCount fsize (bio_MaxFileSize bk) = Inr count"
    and enough: "fsize \<le> int (length (rd_data r))"
  shows "\<exists>d1 d' b'. createFile bk idfn now fsize r (d, b) = ((fid, None), (d', b')) \<and> inv b' \<and>
    adds_parts fid (drafted fid now fsize count d) d1 \<and> d' = FinishFileCreate fid now d1 \<and>
    stored_parts (nat (bio_MaxFileSize bk)) content fid (nat count) d' (blocks b') \<and>
    readable bk (lowlevelKey d' fid) b' content \<and> (\<forall>k v. blocks b k = Some v \<longrightarrow> blocks b' k = Some v)"
proof -
  let ?B = "bio_MaxFileSize bk" and ?d = "drafted fid now fsize count d"
  have size: "0 \<le> fsize" "0 < ?B" using count by (auto simp: calculateFileBlockCount_def split: if_splits)
  note least = calculateFileBlockCount_least [OF count]
  have len: "int (length content) = fsize" using enough size unfolding content_def length_take by linarith
  obtain bs where bs: "?B = int bs" "0 < bs" using size(2) by (auto elim: pos_int_cases)
  obtain n where n: "count = int n" using least(1) by (auto elim: nonneg_int_cases)
  have blocks_n: "(0 + n - 1) * bs < length content" if "0 < n"
  proof -
    have "(int n - 1) * int bs < fsize" using least(4) that n bs by auto
    then have "int ((n - 1) * bs) < int (length content)" using that len by (simp add: of_nat_diff)
    then show ?thesis by (simp only: of_nat_less_iff add_0)
  qed
  have "int (0 + n) \<le> maxFilePartCount" using least(2) n by simp
  from createParts_ok [OF now bs(2) inv drafted_empty [OF fid(2)] this, of 0 content r now fsize count]
  obtain d1 b' where loop: "createParts n bk now fid (int bs) fsize 0 0 r (?d, b) = (Inr (), (d1, b'))" "inv b'"
      "stored_parts bs content fid n d1 (blocks b')" "adds_parts fid ?d d1" "\<forall>k v. blocks b k = Some v \<longrightarrow> blocks b' k = Some v"
    using blocks_n len by (auto simp: content_def)
  let ?d' = "FinishFileCreate fid now d1"
  have same: "parts ?d' = parts d1" "deletes ?d' = deletes d1" by (simp_all add: FinishFileCreate_def MarkFileReady_def Let_def)
  have sp: "stored_parts bs content fid n ?d' (blocks b')" using loop(3) by (simp add: stored_parts_def same)
  have "readable bk (lowlevelKey ?d' fid) b' content"
    unfolding readable_def bs(1) nat_int
  proof (intro conjI allI impI)
    show "0 < int bs" using bs by simp
    have "fsize \<le> count * ?B" by (rule least(3))
    also have "\<dots> \<le> maxFilePartCount * ?B" using least(2) size by (intro mult_right_mono) simp_all
    finally show "int (length content) \<le> int bs * (maxFilePartCount + 1)" using len bs by simp
  next
    fix i pos assume i: "i * bs < length content"
    have "int (length content) \<le> int (n * bs)" using least(3) len n bs by simp
    then have "i * bs < n * bs" using i by linarith
    then have "i < n" by simp
    from stored_parts_key [OF sp this] obtain key where
      key: "lowlevelKey ?d' fid (int i) = Inr key" "blocks b' key = Some (block_at bs content i)" by blast
    then show "\<exists>key. lowlevelKey ?d' fid (int i) = Inr key \<and> bio_Download bk key pos b' = Inr (drop pos (block_at bs content i))"
      using down_blocks [OF loop(2) key(2)] by blast
  qed
  moreover have "createFile bk idfn now fsize r (d, b) = ((fid, None), (?d', b'))"
    using CreateFileDraft_ok [of idfn d fsize bk count now] fid count loop(1) n bs by (simp add: createFile_def)
  ultimately show ?thesis using loop(2,4,5) sp n bs by (intro exI conjI) auto
qed

text \<open>
  A source that is too short, or that fails, is reported; what was uploaded is left in the
  state in which the deletion of blocks collects it.
\<close>

lemma CreateFile_short:
  assumes inv: "inv b" and now: "0 < now" and fid: "fid = idfn (id_seq d)" "unused fid d"
    and count: "calculateFileBlockCount fsize (bio_MaxFileSize bk) = Inr count"
    and short: "int (length (rd_data r)) < fsize"
  shows "\<exists>e d1 b'. CreateFile bk idfn now fsize r (d, b) = ((0, Some e), (pend {fid} now d1, b')) \<and> inv b' \<and>
    adds_parts fid (drafted fid now fsize count d) d1 \<and> (\<forall>k v. blocks b k = Some v \<longrightarrow> blocks b' k = Some v)"
proof -
  let ?B = "bio_MaxFileSize bk" and ?d = "drafted fid now fsize count d"
  have size: "0 \<le> fsize" "0 < ?B" using count by (auto simp: calculateFileBlockCount_def split: if_splits)
  note least = calculateFileBlockCount_least [OF count]
  obtain res d1 b' where loop: "createParts (nat count) bk now fid ?B fsize 0 0 r (?d, b) = (res, (d1, b'))"
    by (metis prod.exhaust)
  note frame = createParts_frame [OF inv loop]
  have "res \<noteq> Inr ()"
  proof
    assume "res = Inr ()"
    from createParts_enough [OF size(2) loop [unfolded this] size(1)]
    have "min (count * ?B) fsize \<le> int (length (rd_data r))" using least(1) by simp
    then show False using least(3) short by simp
  qed
  then obtain e where e: "res = Inl e" by (cases res) auto
  have create: "createFile bk idfn now fsize r (d, b) = ((fid, Some e), (d1, b'))"
    using CreateFileDraft_ok [of idfn d fsize bk count now] fid count loop e by (simp add: createFile_def)
  note draft = adds_parts_draft [OF fid(2) frame [THEN conjunct2, THEN conjunct1]]
  have "readStoredFile fid d1 = Some (draft_row fid now fsize count d)"
    using fid(2) unfolding readStoredFile_def draft(1) by (subst find_snoc) (auto simp: unused_def draft_row_def)
  then have "DiscardUnpublishedFile fid now d1 = Inr (pend {fid} now d1)"
    using draft(2) by (simp add: DiscardUnpublishedFile_def markFileTreePendingIfUnreferenced_def markTree.simps(2)
      markPhysicalPending_pend draft_row_def)
  moreover have "0 < fid" using fid(2) by (simp add: unused_def)
  ultimately have "CreateFile bk idfn now fsize r (d, b) = ((0, Some e), (pend {fid} now d1, b'))"
    using create by (simp add: CreateFile_def)
  then show ?thesis using frame by blast
qed

end

section \<open>The backends\<close>

text \<open>
  The in-memory and the local backend, rotated or not, carry files. The blocks a client sees
  are the stored ones rotated back.
\<close>

definition unrotated :: "int \<Rightarrow> (string \<rightharpoonup> byte list) \<Rightarrow> string \<rightharpoonup> byte list" where
  "unrotated v m = (if v \<le> 0 then m else rotated v m)"

lemma unrotated_0 [simp]: "unrotated 0 m = m"
  by (simp add: unrotated_def)

interpretation mem_files: file_store "NewRotateIO (memBlockIO n) v" "\<lambda>b. unrotated v (mem_blocks b)"
  "\<lambda>b. self_owner (mem_blocks b)" mem_inv for n v
proof (cases "v \<le> 0")
  case True
  then show "file_store (NewRotateIO (memBlockIO n) v) (\<lambda>b. unrotated v (mem_blocks b)) (\<lambda>b. self_owner (mem_blocks b)) mem_inv"
    unfolding file_store_def using mem.block_store_axioms by (simp add: NewRotateIO_def memBlockIO_def unrotated_def)
next
  case False
  then show "file_store (NewRotateIO (memBlockIO n) v) (\<lambda>b. unrotated v (mem_blocks b)) (\<lambda>b. self_owner (mem_blocks b)) mem_inv"
    unfolding file_store_def using mem_rotated.rot.block_store_axioms by (simp add: NewRotateIO_def memBlockIO_def unrotated_def)
qed

interpretation local_files: file_store "NewRotateIO (localFileBlockIO n) v" "\<lambda>b. unrotated v (local_blocks b)"
  "\<lambda>b. self_owner (local_blocks b)" local_inv for n v
proof (cases "v \<le> 0")
  case True
  then show "file_store (NewRotateIO (localFileBlockIO n) v) (\<lambda>b. unrotated v (local_blocks b)) (\<lambda>b. self_owner (local_blocks b)) local_inv"
    unfolding file_store_def using local.block_store_axioms by (simp add: NewRotateIO_def localFileBlockIO_def unrotated_def)
next
  case False
  then show "file_store (NewRotateIO (localFileBlockIO n) v) (\<lambda>b. unrotated v (local_blocks b)) (\<lambda>b. self_owner (local_blocks b)) local_inv"
    unfolding file_store_def using local_rotated.rot.block_store_axioms by (simp add: NewRotateIO_def localFileBlockIO_def unrotated_def)
qed

lemma bio_sizes [simp]:
  "bio_MaxFileSize (NewRotateIO bk v) = bio_MaxFileSize bk"
  "bio_MaxFileSize (localFileBlockIO n) = n"
  "bio_MaxFileSize (memBlockIO n) = memNew n"
  by (simp_all add: NewRotateIO_def localFileBlockIO_def memBlockIO_def)

lemma filter_pend_other: "filter (\<lambda>x. dr_file_id x \<noteq> f) (deletes (pend {f} now d)) = filter (\<lambda>x. dr_file_id x \<noteq> f) (deletes d)"
proof -
  have "filter (\<lambda>x. dr_file_id x \<noteq> f) (map (\<lambda>r. if dr_file_id r \<in> {f} \<and> dr_state r = Live then g r else r) rows)
      = filter (\<lambda>x. dr_file_id x \<noteq> f) rows" if "\<And>r. dr_file_id (g r) = dr_file_id r" for g and rows :: "delete_row list"
    by (induction rows) (auto simp: that)
  then show ?thesis by (simp add: pend_def)
qed

text \<open>An empty local backend, whose generator numbers the blocks.\<close>

definition sample_local :: local_state where
  "sample_local = \<lparr>lf_baseDir = ''/data'', lf_files = [], lf_uuid = (\<lambda>n. CHR ''b'' # format_nat n), lf_next = 0\<rparr>"

lemma sample_local_inv: "local_inv sample_local"
proof -
  have "digit_char i \<noteq> CHR ''/''" if "i < 10" for i
  proof
    assume "digit_char i = CHR ''/''"
    then have "of_char (digit_char i) = (47 :: nat)" by simp
    then show False using that by (simp add: digit_char_def)
  qed
  then have "CHR ''/'' \<notin> set (format_nat n)" for n using format_nat_digits by metis
  moreover have "inj format_nat" by (rule injI) (metis digits_val_format_nat option.inject)
  ultimately show ?thesis
    by (simp add: local_inv_def sample_local_def good_uuid_def normal_def inj_def)
qed

lemma unused_empty: "0 < fid \<Longrightarrow> unused fid empty_db"
  by (simp add: unused_def empty_db_def fileHasLiveReference_def)

section \<open>Round trip\<close>

text \<open>
  C2: Creating a file of a given size on the local backend, with any rotation, from a source
  that has at least that many bytes succeeds under the next identifier. The file's row then is
  ready and carries the size and the number of blocks, and reading the new file to its end,
  whatever the block reader's chunks and the size of the buffer are, delivers exactly the
  first bytes of the source.
\<close>

theorem CreateFile_roundtrip:
  assumes "local_inv b" and "0 < now" and "unused (idfn (id_seq d)) d"
    and "calculateFileBlockCount fsize n = Inr count" and "fsize \<le> int (length (rd_data r))"
    and "reader_contract rf" and "0 < k" and "2 * nat fsize < fuel"
  shows "\<exists>d' b' row. CreateFile (NewRotateIO (localFileBlockIO n) v) idfn now fsize r (d, b) = ((idfn (id_seq d), None), (d', b')) \<and> local_inv b' \<and>
    files d' = files d @ [row] \<and> fr_file_id row = idfn (id_seq d) \<and> fr_size row = fsize \<and>
    fr_part_count row = count \<and> fr_state row = FileStateReady \<and>
    readAllStream fuel (NewRotateIO (localFileBlockIO n) v) rf (lowlevelKey d' (idfn (id_seq d))) b' k (newFileStream fsize) [] =
      Inr (take (nat fsize) (rd_data r))"
proof -
  let ?f = "idfn (id_seq d)" and ?bk = "NewRotateIO (localFileBlockIO n) v" and ?content = "take (nat fsize) (rd_data r)"
  from local_files.createFile_ok [where fsize = fsize and r = r and n = n and v = v and count = count and idfn = idfn and d = d,
    OF refl assms(1,2) refl assms(3)]
  obtain d1 d' b' where create: "createFile ?bk idfn now fsize r (d, b) = ((?f, None), (d', b'))" "local_inv b'"
    "adds_parts ?f (drafted ?f now fsize count d) d1" "d' = FinishFileCreate ?f now d1" "readable ?bk (lowlevelKey d' ?f) b' ?content"
    using assms(4,5) by auto
  have len: "fsize = int (length ?content)" using assms(4,5) by (auto simp: calculateFileBlockCount_def split: if_splits)
  have "readAllStream fuel ?bk rf (lowlevelKey d' ?f) b' k (newFileStream fsize) [] = Inr ([] @ drop (nat (fs_cursor (newFileStream fsize))) ?content)"
    using newFileStream_ok [of _ ?content, folded len] assms(8)
    by (intro readAllStream_ok [OF create(5) assms(6,7)]) (simp_all add: read_measure_def newFileStream_def)
  then have "readAllStream fuel ?bk rf (lowlevelKey d' ?f) b' k (newFileStream fsize) [] = Inr ?content" by (simp add: newFileStream_def)
  moreover have "CreateFile ?bk idfn now fsize r (d, b) = ((?f, None), (d', b'))" using create(1) by (simp add: CreateFile_def)
  moreover have "\<exists>row. files d' = files d @ [row] \<and> fr_file_id row = ?f \<and> fr_size row = fsize \<and> fr_part_count row = count \<and> fr_state row = FileStateReady"
  proof -
    have old: "fr_file_id x \<noteq> ?f" if "x \<in> set (files d)" for x using assms(3) that by (auto simp: unused_def)
    show ?thesis
      using adds_parts_draft(1) [OF assms(3) create(3)] old
      by (auto simp: create(4) FinishFileCreate_def MarkFileReady_def Let_def draft_row_def map_idI)
  qed
  ultimately show ?thesis using create(2) by blast
qed

theorem CreateFile_roundtrip_witness:
  "\<exists>d' b' row. CreateFile (NewRotateIO (localFileBlockIO 2) 3) Suc 9 5 \<lparr>rd_data = [1, 2, 3, 4, 5, 6], rd_fails = False\<rparr>
      (empty_db, sample_local) = ((1, None), (d', b')) \<and> local_inv b' \<and>
    files d' = [row] \<and> fr_file_id row = 1 \<and> fr_size row = 5 \<and> fr_part_count row = 3 \<and> fr_state row = FileStateReady \<and>
    readAllStream 20 (NewRotateIO (localFileBlockIO 2) 3) bytesRead (lowlevelKey d' 1) b' 4 (newFileStream 5) [] =
      Inr [1, 2, 3, 4, 5]"
  using CreateFile_roundtrip [of sample_local 9 Suc empty_db 5 2 3 "\<lparr>rd_data = [1, 2, 3, 4, 5, 6], rd_fails = False\<rparr>"
      bytesRead 4 20 3] sample_local_inv unused_empty [of 1] bytesRead_contract
  by (simp add: calculateFileBlockCount_def empty_db_def)



end
