(* ===== verification/Composite_Stream.thy ===== *)
theory Composite_Stream
  imports File_Manager
begin

text \<open>
  Reading a composite file (\<^verbatim>\<open>filemgr/composite_stream.go\<close>): the manifest that lists the
  source files, and the stream that reads them one after the other. Within a source the
  underlying stream reports the end of each block as a read of no bytes, which
  \<open>advancePhysicalBoundary\<close> tells from a source that is too short.

  The loop of \<open>Read\<close> is counted, since it ends only because each turn delivers bytes or
  passes the end of a block; \<open>compositeLoop_ok\<close> shows how much is enough.
\<close>

section \<open>The manifest\<close>

record compositeSegment =
  cg_index :: nat
  cg_source :: nat
  cg_size :: int
  cg_start :: int

text \<open>The source's row is absent when the left join finds none.\<close>

definition validateCompositeSegment ::
  "nat \<Rightarrow> nat \<Rightarrow> int \<Rightarrow> file_row option \<Rightarrow> int \<Rightarrow> int \<Rightarrow> unit result" where
  "validateCompositeSegment index expectedIndex segmentSize source total_size fileSize =
     (if index \<noteq> expectedIndex then Inl ErrInvalidComposite
      else
        case source of
          None \<Rightarrow> Inl ErrInvalidComposite
        | Some f \<Rightarrow>
            if fr_state f \<noteq> FileStateReady then Inl ErrInvalidComposite
            else if fr_layout f \<noteq> 1 then Inl ErrInvalidComposite
            else if fr_size f \<noteq> segmentSize then Inl ErrInvalidComposite
            else if segmentSize < 0 \<or> total_size > fileSize - segmentSize then Inl ErrInvalidComposite
            else Inr ())"

fun manifestLoop ::
  "db \<Rightarrow> int \<Rightarrow> segment_row list \<Rightarrow> compositeSegment list \<Rightarrow> int \<Rightarrow> (compositeSegment list \<times> int) result" where
  "manifestLoop d fileSize [] segs total_size = Inr (segs, total_size)"
| "manifestLoop d fileSize (s # rows) segs total_size =
     bind_result
       (validateCompositeSegment (sr_index s) (length segs) (sr_size s) (readStoredFile (sr_source s) d) total_size fileSize)
       (\<lambda>_. manifestLoop d fileSize rows
              (segs @ [\<lparr>cg_index = sr_index s, cg_source = sr_source s, cg_size = sr_size s, cg_start = total_size\<rparr>])
              (total_size + sr_size s))"

definition loadCompositeManifest :: "nat \<Rightarrow> int \<Rightarrow> db \<Rightarrow> compositeSegment list result" where
  "loadCompositeManifest fileID fileSize d =
     bind_result (manifestLoop d fileSize (manifest fileID d) [] 0) (\<lambda>(segs, total_size).
       if segs = [] then Inl ErrInvalidComposite
       else if total_size \<noteq> fileSize then Inl ErrInvalidComposite
       else Inr segs)"

section \<open>The stream\<close>

record compositeFileStream =
  cs_segments :: "compositeSegment list"
  cs_size :: int
  cs_offset :: int
  cs_current :: "fs_stream option"
  cs_currentIndex :: int
  cs_open :: bool

definition compositeIOStream :: "nat \<Rightarrow> int \<Rightarrow> db \<Rightarrow> compositeFileStream result" where
  "compositeIOStream fileID fileSize d =
     bind_result (loadCompositeManifest fileID fileSize d) (\<lambda>segs.
       Inr \<lparr>cs_segments = segs, cs_size = fileSize, cs_offset = 0, cs_current = None, cs_currentIndex = -1, cs_open = True\<rparr>)"

text \<open>\<open>sort.Search\<close> on \<open>[i, j)\<close>.\<close>

function searchLoop :: "(nat \<Rightarrow> bool) \<Rightarrow> nat \<Rightarrow> nat \<Rightarrow> nat" where
  "searchLoop f i j =
     (if i < j then let h = (i + j) div 2 in if f h then searchLoop f i h else searchLoop f (h + 1) j else i)"
  by pat_completeness auto
termination
  by (relation "measure (\<lambda>(f, i, j). j - i)") auto

declare searchLoop.simps [simp del]

definition segmentAt :: "int \<Rightarrow> compositeFileStream \<Rightarrow> int" where
  "segmentAt offset s =
     (let n = length (cs_segments s);
          index = searchLoop (\<lambda>i. let segment = cs_segments s ! i in cg_start segment + cg_size segment > offset) 0 n
      in if index = n then -1 else int index)"

definition closeCurrent :: "compositeFileStream \<Rightarrow> compositeFileStream" where
  "closeCurrent s = s\<lparr>cs_current := None, cs_currentIndex := -1\<rparr>"

definition openSegment ::
  "nat \<Rightarrow> compositeSegment \<Rightarrow> compositeFileStream \<Rightarrow> err option \<times> compositeFileStream" where
  "openSegment index segment s =
     (if cs_current s \<noteq> None \<and> cs_currentIndex s = int index then (None, s)
      else
        let s = closeCurrent s;
            reader = newFileStream (cg_size segment);
            position = cs_offset s - cg_start segment
        in if position \<noteq> 0 then
             (case fsSeek position 0 reader of
                ((_, Some e), _) \<Rightarrow> (Some e, s)
              | ((_, None), reader) \<Rightarrow> (None, s\<lparr>cs_current := Some reader, cs_currentIndex := int index\<rparr>))
           else (None, s\<lparr>cs_current := Some reader, cs_currentIndex := int index\<rparr>))"

definition advancePhysicalBoundary ::
  "'b IBlockIO \<Rightarrow> compositeSegment \<Rightarrow> compositeFileStream \<Rightarrow> err option \<times> compositeFileStream" where
  "advancePhysicalBoundary bk segment s =
     (let sourceOffset = cs_offset s - cg_start segment;
          blockSize = bio_MaxFileSize bk
      in if blockSize \<le> 0 \<or> sourceOffset \<le> 0 \<or> sourceOffset mod blockSize \<noteq> 0 then (Some ErrUnexpectedEOF, s)
         else
           case fsSeek sourceOffset 0 (the (cs_current s)) of
             ((_, e), cur) \<Rightarrow> (e, s\<lparr>cs_current := Some cur\<rparr>))"

text \<open>\<open>n\<close> is the space left in the buffer.\<close>

definition readSegment ::
  "'b IBlockIO \<Rightarrow> read_fun \<Rightarrow> db \<Rightarrow> 'b \<Rightarrow> nat \<Rightarrow> nat \<Rightarrow> compositeFileStream \<Rightarrow>
   (byte list \<times> err option) \<times> compositeFileStream" where
  "readSegment bk rf d b index n s =
     (let segment = cs_segments s ! index
      in case openSegment index segment s of
           (Some e, s) \<Rightarrow> (([], Some e), s)
         | (None, s) \<Rightarrow>
             let remaining = cg_start segment + cg_size segment - cs_offset s;
                 requestSize = min (int n) remaining
             in case fsRead bk rf (lowlevelKey d (cg_source segment)) b (nat requestSize) (the (cs_current s)) of
                  ((bytes, readErr), cur) \<Rightarrow>
                    let s = s\<lparr>cs_current := Some cur, cs_offset := cs_offset s + int (length bytes)\<rparr>
                    in if readErr \<noteq> None \<and> readErr \<noteq> Some EOF then ((bytes, readErr), s)
                       else if bytes = [] \<and> cs_offset s < cg_start segment + cg_size segment then
                         (case advancePhysicalBoundary bk segment s of (e, s) \<Rightarrow> (([], e), s))
                       else if cs_offset s = cg_start segment + cg_size segment then ((bytes, None), closeCurrent s)
                       else ((bytes, None), s))"

primrec compositeLoop ::
  "nat \<Rightarrow> 'b IBlockIO \<Rightarrow> read_fun \<Rightarrow> db \<Rightarrow> 'b \<Rightarrow> nat \<Rightarrow> byte list \<Rightarrow> compositeFileStream \<Rightarrow>
   (byte list \<times> err option) \<times> compositeFileStream" where
  "compositeLoop 0 bk rf d b n acc s = ((acc, Some ErrRecursionLimit), s)"
| "compositeLoop (Suc fuel) bk rf d b n acc s =
     (if length acc < n \<and> cs_offset s < cs_size s then
        let index = segmentAt (cs_offset s) s
        in if index < 0 then ((acc, Some ErrInvalidComposite), s)
           else
             case readSegment bk rf d b (nat index) (n - length acc) s of
               ((bytes, Some e), s) \<Rightarrow> ((acc @ bytes, Some e), s)
             | ((bytes, None), s) \<Rightarrow> compositeLoop fuel bk rf d b n (acc @ bytes) s
      else ((acc, None), s))"

definition compositeRead ::
  "nat \<Rightarrow> 'b IBlockIO \<Rightarrow> read_fun \<Rightarrow> db \<Rightarrow> 'b \<Rightarrow> nat \<Rightarrow> compositeFileStream \<Rightarrow>
   (byte list \<times> err option) \<times> compositeFileStream" where
  "compositeRead fuel bk rf d b n s =
     (if \<not> cs_open s then (([], Some ErrFileNotOpen), s)
      else if n = 0 then (([], None), s)
      else if cs_offset s = cs_size s then (([], Some EOF), s)
      else compositeLoop fuel bk rf d b n [] s)"

definition compositeSeek :: "int \<Rightarrow> nat \<Rightarrow> compositeFileStream \<Rightarrow> (int \<times> err option) \<times> compositeFileStream" where
  "compositeSeek offset whence s =
     (if \<not> cs_open s then ((0, Some ErrFileNotOpen), s)
      else if whence > 2 then ((cs_offset s, Some ErrInvalidOffset), s)
      else
        let target = (if whence = 0 then offset else if whence = 1 then cs_offset s + offset else cs_size s + offset)
        in if target < 0 then ((cs_offset s, Some ErrInvalidOffset), s)
           else if target > cs_size s then ((cs_size s, Some ErrSeekPastEnd), s)
           else ((target, None), (closeCurrent s)\<lparr>cs_offset := target\<rparr>))"

definition compositeClose :: "compositeFileStream \<Rightarrow> compositeFileStream" where
  "compositeClose s = (if \<not> cs_open s then s else closeCurrent (s\<lparr>cs_open := False\<rparr>))"

section \<open>Binary search\<close>

text \<open>When the predicate holds exactly from some position on, the search returns that position.\<close>

lemma searchLoop_first:
  assumes "\<And>x. x < n \<Longrightarrow> f x \<longleftrightarrow> k \<le> x"
  shows "i \<le> k \<Longrightarrow> k \<le> j \<Longrightarrow> j \<le> n \<Longrightarrow> searchLoop f i j = k"
proof (induction "j - i" arbitrary: i j rule: less_induct)
  case less
  let ?h = "(i + j) div 2"
  show ?case
  proof (cases "i < j")
    case True
    then have h: "i \<le> ?h" "?h < j" "?h < n" using less.prems by linarith+
    have "searchLoop f i j = (if k \<le> ?h then searchLoop f i ?h else searchLoop f (?h + 1) j)"
      using True assms [OF h(3)] by (subst searchLoop.simps) (simp add: Let_def)
    moreover have "searchLoop f i ?h = k" if "k \<le> ?h" by (rule less.hyps) (use that h less.prems in linarith)+
    moreover have "searchLoop f (?h + 1) j = k" if "\<not> k \<le> ?h" by (rule less.hyps) (use that h less.prems in linarith)+
    ultimately show ?thesis by simp
  next
    case False
    then show ?thesis using less.prems by (subst searchLoop.simps) simp
  qed
qed

section \<open>What a composite stream reads\<close>

text \<open>
  The segments lie one after the other: segment \<open>j\<close> has the size of the content of its source
  and starts where the contents before it end.
\<close>

definition start_of :: "byte list list \<Rightarrow> nat \<Rightarrow> nat" where
  "start_of contents j = length (concat (take j contents))"

definition layout_ok :: "byte list list \<Rightarrow> compositeSegment list \<Rightarrow> bool" where
  "layout_ok contents segs \<longleftrightarrow>
     length segs = length contents \<and>
     (\<forall>j<length contents. cg_size (segs ! j) = int (length (contents ! j)) \<and> cg_start (segs ! j) = int (start_of contents j))"

definition sources_readable :: "'b IBlockIO \<Rightarrow> db \<Rightarrow> 'b \<Rightarrow> byte list list \<Rightarrow> compositeSegment list \<Rightarrow> bool" where
  "sources_readable bk d b contents segs \<longleftrightarrow>
     (\<forall>j<length contents. readable bk (lowlevelKey d (cg_source (segs ! j))) b (contents ! j))"

text \<open>An open source stream stands at the composite offset, inside its segment.\<close>

definition composite_ok :: "nat \<Rightarrow> byte list list \<Rightarrow> compositeFileStream \<Rightarrow> bool" where
  "composite_ok bs contents s \<longleftrightarrow>
     cs_open s \<and> layout_ok contents (cs_segments s) \<and> cs_size s = int (length (concat contents)) \<and>
     0 \<le> cs_offset s \<and> cs_offset s \<le> cs_size s \<and>
     (\<forall>cur. cs_current s = Some cur \<longrightarrow>
        (\<exists>j<length contents. cs_currentIndex s = int j \<and> stream_ok bs (contents ! j) cur \<and>
           cs_offset s = int (start_of contents j) + fs_cursor cur \<and> fs_cursor cur < int (length (contents ! j))))"

lemma start_of_Suc: "j < length contents \<Longrightarrow> start_of contents (Suc j) = start_of contents j + length (contents ! j)"
  by (simp add: start_of_def take_Suc_conv_app_nth)

lemma start_of_mono: "i \<le> j \<Longrightarrow> start_of contents i \<le> start_of contents j"
proof -
  assume "i \<le> j"
  then have "take j contents = take i contents @ take (j - i) (drop i contents)" by (metis le_add_diff_inverse take_add)
  then show ?thesis by (simp add: start_of_def)
qed

text \<open>Every offset below the size lies in exactly one segment.\<close>

lemma segment_exists:
  assumes "off < length (concat contents)"
  shows "\<exists>j<length contents. start_of contents j \<le> off \<and> off < start_of contents j + length (contents ! j)"
proof -
  have all: "start_of contents (length contents) = length (concat contents)" by (simp add: start_of_def)
  let ?P = "\<lambda>j. off < start_of contents j"
  have P: "?P (length contents)" using assms all by simp
  define m where "m = (LEAST j. ?P j)"
  have m: "?P m" "m \<le> length contents" unfolding m_def by (rule LeastI [of ?P, OF P], rule Least_le [of ?P, OF P])
  have "m \<noteq> 0" using m(1) by (cases m) (simp_all add: start_of_def)
  then obtain j where j: "m = Suc j" by (cases m) auto
  then have "\<not> ?P j" unfolding m_def by (metis lessI not_less_Least)
  then show ?thesis using m j start_of_Suc [of j contents] by (intro exI [of _ j]) auto
qed

lemma segmentAt_ok:
  assumes "layout_ok contents (cs_segments s)" and "j < length contents"
    and "start_of contents j \<le> off" and "off < start_of contents j + length (contents ! j)"
  shows "segmentAt (int off) s = int j"
proof -
  let ?segs = "cs_segments s"
  have len: "length ?segs = length contents" using assms(1) by (simp add: layout_ok_def)
  have "(let segment = ?segs ! x in cg_start segment + cg_size segment > int off) \<longleftrightarrow> j \<le> x" if "x < length contents" for x
  proof -
    have "(let segment = ?segs ! x in cg_start segment + cg_size segment > int off) \<longleftrightarrow> off < start_of contents (Suc x)"
      using assms(1) that by (auto simp: layout_ok_def Let_def start_of_Suc)
    also have "\<dots> \<longleftrightarrow> j \<le> x"
    proof
      assume "j \<le> x"
      then have "start_of contents (Suc j) \<le> start_of contents (Suc x)" by (intro start_of_mono) simp
      then show "off < start_of contents (Suc x)" using assms(2,4) by (simp add: start_of_Suc)
    next
      assume "off < start_of contents (Suc x)"
      then show "j \<le> x" using assms(3) start_of_mono [of "Suc x" j contents] by (meson not_less_eq_eq order.strict_trans2 not_le)
    qed
    finally show ?thesis .
  qed
  then have "searchLoop (\<lambda>i. let segment = ?segs ! i in cg_start segment + cg_size segment > int off) 0 (length contents) = j"
    by (intro searchLoop_first [where n = "length contents"]) (use assms(2) in simp_all)
  then show ?thesis using assms(2) by (simp add: segmentAt_def Let_def len)
qed

lemma drop_concat:
  assumes "j < length contents" and "c \<le> length (contents ! j)"
  shows "drop (start_of contents j + c) (concat contents) = drop c (contents ! j) @ concat (drop (Suc j) contents)"
proof -
  have "concat contents = concat (take j contents) @ contents ! j @ concat (drop (Suc j) contents)"
    using assms(1) by (metis concat.simps(2) concat_append id_take_nth_drop)
  then show ?thesis using assms(2) by (simp add: start_of_def)
qed

text \<open>Whether the next read may first have to close an exhausted block.\<close>

definition block_open :: "compositeFileStream \<Rightarrow> nat" where
  "block_open s = (case cs_current s of None \<Rightarrow> 0 | Some cur \<Rightarrow> if fs_tmp cur = None then 0 else 1)"

lemma openSegment_ok:
  assumes s: "composite_ok bs contents s" and off: "cs_offset s = int off" and j: "j < length contents"
    "start_of contents j \<le> off" "off < start_of contents j + length (contents ! j)"
  shows "\<exists>cur. openSegment j (cs_segments s ! j) s = (None, s\<lparr>cs_current := Some cur, cs_currentIndex := int j\<rparr>) \<and>
    stream_ok bs (contents ! j) cur \<and> fs_cursor cur = int (off - start_of contents j) \<and>
    (fs_tmp cur \<noteq> None \<longrightarrow> block_open s = 1)"
proof (cases "cs_current s \<noteq> None \<and> cs_currentIndex s = int j")
  case True
  then obtain cur where cur: "cs_current s = Some cur" by blast
  then have "stream_ok bs (contents ! j) cur" "cs_offset s = int (start_of contents j) + fs_cursor cur"
    using s True by (auto simp: composite_ok_def)
  moreover have "s\<lparr>cs_current := Some cur, cs_currentIndex := int j\<rparr> = s" using cur True by simp
  moreover have "openSegment j (cs_segments s ! j) s = (None, s)" using True by (simp add: openSegment_def)
  ultimately show ?thesis using off j(2) cur by (intro exI [of _ cur]) (simp add: block_open_def)
next
  case False
  then have no: "(cs_current s \<noteq> None \<and> cs_currentIndex s = int j) = False" by blast
  let ?new = "newFileStream (int (length (contents ! j)))" and ?p = "int (off - start_of contents j)"
  have seg: "cg_size (cs_segments s ! j) = int (length (contents ! j))" "cs_offset s - cg_start (cs_segments s ! j) = ?p"
    using s j off by (auto simp: composite_ok_def layout_ok_def)
  have ok: "stream_ok bs (contents ! j) ?new" by (rule newFileStream_ok)
  have p: "calcOffset ?p 0 ?new = ?p" "0 \<le> ?p" "?p \<le> fs_size ?new" using j by (simp_all add: calcOffset_def newFileStream_def)
  have seek: "fst (fsSeek ?p 0 ?new) = (?p, None)" "fs_cursor (snd (fsSeek ?p 0 ?new)) = ?p"
      "stream_ok bs (contents ! j) (snd (fsSeek ?p 0 ?new))" "fs_tmp (snd (fsSeek ?p 0 ?new)) = None"
    using fsSeek_ok [OF ok, of ?p 0] p by auto
  show ?thesis
  proof (cases "?p = 0")
    case True
    then show ?thesis
      using seg ok unfolding openSegment_def no if_False
      by (intro exI [of _ ?new]) (simp add: closeCurrent_def newFileStream_def Let_def)
  next
    case p0: False
    obtain cur where cur: "fsSeek ?p 0 ?new = ((?p, None), cur)" using seek(1) by (metis prod.collapse)
    have "(closeCurrent s)\<lparr>cs_current := Some cur, cs_currentIndex := int j\<rparr> = s\<lparr>cs_current := Some cur, cs_currentIndex := int j\<rparr>"
      by (simp add: closeCurrent_def)
    moreover have "cs_offset (closeCurrent s) = cs_offset s" by (simp add: closeCurrent_def)
    ultimately have "openSegment j (cs_segments s ! j) s = (None, s\<lparr>cs_current := Some cur, cs_currentIndex := int j\<rparr>)"
      using p0 cur unfolding openSegment_def no if_False Let_def by (simp add: seg)
    then show ?thesis using seek(2-4) unfolding cur snd_conv by blast
  qed
qed

lemma readSegment_ok:
  assumes s: "composite_ok (nat (bio_MaxFileSize bk)) contents s" and src: "sources_readable bk d b contents (cs_segments s)"
    and rf: "reader_contract rf" and n: "0 < n" and off: "cs_offset s = int off" and j: "j < length contents"
    "start_of contents j \<le> off" "off < start_of contents j + length (contents ! j)"
  shows "\<exists>k s'. readSegment bk rf d b j n s = ((take k (drop off (concat contents)), None), s') \<and> k \<le> n \<and>
    off + k \<le> length (concat contents) \<and> composite_ok (nat (bio_MaxFileSize bk)) contents s' \<and> cs_offset s' = int (off + k) \<and>
    cs_segments s' = cs_segments s \<and> (k = 0 \<longrightarrow> block_open s = 1 \<and> block_open s' = 0)"
proof -
  let ?bs = "nat (bio_MaxFileSize bk)" and ?c = "contents ! j" and ?seg = "cs_segments s ! j" and ?o = "off - start_of contents j"
  from openSegment_ok [OF s off j] obtain cur where opened:
    "openSegment j ?seg s = (None, s\<lparr>cs_current := Some cur, cs_currentIndex := int j\<rparr>)"
    and cur: "stream_ok ?bs ?c cur" "fs_cursor cur = int ?o" "fs_tmp cur \<noteq> None \<longrightarrow> block_open s = 1" by blast
  have seg: "cg_size ?seg = int (length ?c)" "cg_start ?seg = int (start_of contents j)"
    using s j(1) by (auto simp: composite_ok_def layout_ok_def)
  have rd: "readable bk (lowlevelKey d (cg_source ?seg)) b ?c" using src j(1) by (simp add: sources_readable_def)
  let ?m = "min n (start_of contents j + length ?c - off)"
  have m: "0 < ?m" "nat (min (int n) (cg_start ?seg + cg_size ?seg - cs_offset s)) = ?m" using n j(3) by (auto simp: seg off min_def nat_diff_distrib)
  have "fs_cursor cur < fs_size cur" using cur(1,2) j by (auto simp: stream_ok_def)
  from fsRead_ok(2) [OF rd rf cur(1) m(1)] this cur(2) obtain k cur' where read:
    "fsRead bk rf (lowlevelKey d (cg_source ?seg)) b ?m cur = ((take k (drop ?o ?c), None), cur')" "k \<le> ?m" "k \<le> length ?c - ?o"
    "stream_ok ?bs ?c cur'" "fs_cursor cur' = int (?o + k)"
    "k = 0 \<longrightarrow> fs_tmp cur \<noteq> None \<and> fs_tmp cur' = None \<and> (?o mod ?bs = 0 \<and> 0 < int ?o \<or> fs_cursor cur = fs_size cur)"
    by (auto simp del: of_nat_diff)
  have bytes: "take k (drop ?o ?c) = take k (drop off (concat contents))"
    using drop_concat [OF j(1), of ?o] j read(3) by simp
  have inside: "off + k \<le> start_of contents (Suc j)" using read(3) j by (simp add: start_of_Suc)
  also have "\<dots> \<le> start_of contents (length contents)" by (rule start_of_mono) (use j(1) in simp)
  finally have bound: "off + k \<le> length (concat contents)" by (simp add: start_of_def)
  let ?s1 = "s\<lparr>cs_currentIndex := int j, cs_current := Some cur', cs_offset := int (off + k)\<rparr>"
  have base: "composite_ok ?bs contents (closeCurrent ?s1)" using s bound off by (auto simp: composite_ok_def closeCurrent_def)
  have at': "int (off + k) = int (start_of contents j) + fs_cursor cur'" unfolding read(5) using j(2) by simp
  then have at: "cs_offset ?s1 = int (start_of contents j) + fs_cursor cur'" by simp
  have len: "length (take k (drop ?o ?c)) = k" using read(3) by simp
  have pre: "readSegment bk rf d b j n s =
     (if take k (drop ?o ?c) = [] \<and> cs_offset ?s1 < cg_start ?seg + cg_size ?seg then
        (case advancePhysicalBoundary bk ?seg ?s1 of (e, s) \<Rightarrow> (([], e), s))
      else if cs_offset ?s1 = cg_start ?seg + cg_size ?seg then ((take k (drop ?o ?c), None), closeCurrent ?s1)
      else ((take k (drop ?o ?c), None), ?s1))"
    using opened read(1) m(2) off len by (simp add: readSegment_def Let_def)
  show ?thesis
  proof (cases "k = 0")
    case True
    then have z: "fs_tmp cur \<noteq> None" "fs_tmp cur' = None" "?o mod ?bs = 0" "0 < ?o"
      using read(6) \<open>fs_cursor cur < fs_size cur\<close> by auto
    have B: "0 < bio_MaxFileSize bk" using rd by (simp add: readable_def)
    have so: "cs_offset ?s1 - cg_start ?seg = int ?o" using j(2) by (simp add: True seg(2) of_nat_diff)
    have "int ?o mod int ?bs = 0" by (simp only: zmod_int [symmetric] z(3) of_nat_0)
    moreover have "int ?bs = bio_MaxFileSize bk" using B by simp
    ultimately have md: "int ?o mod bio_MaxFileSize bk = 0" by (simp only:)
    have calc: "calcOffset (int ?o) 0 cur' = int ?o" by (simp add: calcOffset_def)
    have range: "int ?o \<le> fs_size cur'" using read(4) j by (simp add: stream_ok_def)
    note sk = fsSeek_ok [OF read(4), of "int ?o" 0, unfolded calc]
    obtain cur'' where seek: "fsSeek (int ?o) 0 cur' = ((int ?o, None), cur'')" "fs_cursor cur'' = int ?o"
        "stream_ok ?bs ?c cur''" "fs_tmp cur'' = None"
      using sk range by (metis of_nat_0_le_iff prod.collapse snd_conv)
    have adv: "advancePhysicalBoundary bk ?seg ?s1 = (None, ?s1\<lparr>cs_current := Some cur''\<rparr>)"
      using B md z(4) seek(1) unfolding advancePhysicalBoundary_def so Let_def by simp
    have lt: "cs_offset ?s1 < cg_start ?seg + cg_size ?seg" using True j(3) seg by simp
    have "readSegment bk rf d b j n s = (([], None), ?s1\<lparr>cs_current := Some cur''\<rparr>)"
      unfolding pre using True lt adv by simp
    moreover have "composite_ok ?bs contents (?s1\<lparr>cs_current := Some cur''\<rparr>)"
      using s bound off seek j True unfolding composite_ok_def by (auto intro!: exI [of _ j])
    ultimately show ?thesis
      using True cur(3) z bound seek(4) by (intro exI [of _ 0] exI [of _ "?s1\<lparr>cs_current := Some cur''\<rparr>"]) (simp add: block_open_def)
  next
    case False
    then have ne: "take k (drop ?o ?c) \<noteq> []" using len by (metis list.size(3))
    show ?thesis
    proof (cases "cs_offset ?s1 = cg_start ?seg + cg_size ?seg")
      case True
      then have "readSegment bk rf d b j n s = ((take k (drop off (concat contents)), None), closeCurrent ?s1)"
        unfolding pre bytes [symmetric] using ne by simp
      then show ?thesis using False base bound read(2)
        by (intro exI [of _ k] exI [of _ "closeCurrent ?s1"]) (simp add: closeCurrent_def)
    next
      case more: False
      then have "int (off + k) \<noteq> int (start_of contents j) + int (length ?c)" by (simp add: seg)
      then have "fs_cursor cur' < int (length ?c)"
        using at' inside unfolding start_of_Suc [OF j(1)] by linarith
      then have "\<exists>i<length contents. cs_currentIndex ?s1 = int i \<and> stream_ok ?bs (contents ! i) cur' \<and>
           cs_offset ?s1 = int (start_of contents i) + fs_cursor cur' \<and> fs_cursor cur' < int (length (contents ! i))"
        using read(4) j(1) at by (intro exI [of _ j]) simp
      then have "composite_ok ?bs contents ?s1" using s bound off unfolding composite_ok_def by simp
      moreover have "readSegment bk rf d b j n s = ((take k (drop off (concat contents)), None), ?s1)"
        unfolding pre bytes [symmetric] using ne more by simp
      ultimately show ?thesis using False bound read(2) by (intro exI [of _ k] exI [of _ ?s1]) simp
    qed
  qed
qed

lemma compositeLoop_ok:
  assumes rf: "reader_contract rf"
  shows "composite_ok (nat (bio_MaxFileSize bk)) contents s \<Longrightarrow> sources_readable bk d b contents (cs_segments s) \<Longrightarrow>
    cs_offset s = int off \<Longrightarrow> length acc \<le> n \<Longrightarrow> 2 * (n - length acc) + block_open s < fuel \<Longrightarrow>
    \<exists>s'. compositeLoop fuel bk rf d b n acc s = ((acc @ take (n - length acc) (drop off (concat contents)), None), s') \<and>
      composite_ok (nat (bio_MaxFileSize bk)) contents s' \<and> cs_segments s' = cs_segments s \<and>
      cs_offset s' = int (min (off + (n - length acc)) (length (concat contents)))"
proof (induction fuel arbitrary: acc s off)
  case (Suc fuel)
  note s = Suc.prems(1)
  have size: "cs_size s = int (length (concat contents))" "off \<le> length (concat contents)"
    using s Suc.prems(3) by (auto simp: composite_ok_def)
  have guard: "(length acc < n \<and> cs_offset s < cs_size s) = (length acc < n \<and> off < length (concat contents))"
    unfolding Suc.prems(3) size(1) of_nat_less_iff ..
  show ?case
  proof (cases "length acc < n \<and> off < length (concat contents)")
    case False
    then have "n - length acc = 0 \<or> off = length (concat contents)" using size(2) by linarith
    then have "take (n - length acc) (drop off (concat contents)) = []" "min (off + (n - length acc)) (length (concat contents)) = off"
      using size(2) by auto
    moreover have "compositeLoop (Suc fuel) bk rf d b n acc s = ((acc, None), s)"
      using False guard by (simp only: compositeLoop.simps if_False)
    ultimately show ?thesis using s Suc.prems(3) by simp
  next
    case True
    then obtain j where j: "j < length contents" "start_of contents j \<le> off" "off < start_of contents j + length (contents ! j)"
      using segment_exists by blast
    have at: "segmentAt (int off) s = int j" using s j by (intro segmentAt_ok) (simp_all add: composite_ok_def)
    have "0 < n - length acc" using True by simp
    from readSegment_ok [OF s Suc.prems(2) rf this Suc.prems(3) j] obtain k s' where step:
      "readSegment bk rf d b j (n - length acc) s = ((take k (drop off (concat contents)), None), s')" "k \<le> n - length acc"
      "off + k \<le> length (concat contents)" "composite_ok (nat (bio_MaxFileSize bk)) contents s'" "cs_offset s' = int (off + k)"
      "cs_segments s' = cs_segments s" "k = 0 \<longrightarrow> block_open s = 1 \<and> block_open s' = 0" by blast
    let ?acc = "acc @ take k (drop off (concat contents))"
    have len: "length ?acc = length acc + k" using step(3) by simp
    have "block_open s' \<le> 1" by (simp add: block_open_def split: option.split)
    then have fuel: "2 * (n - length ?acc) + block_open s' < fuel"
      using step(2,7) Suc.prems(5) unfolding len by (cases "k = 0") (simp, linarith)
    have src: "sources_readable bk d b contents (cs_segments s')" using Suc.prems(2) step(6) by simp
    have "length ?acc \<le> n" using step(2) True unfolding len by linarith
    from Suc.IH [OF step(4) src step(5) this fuel] obtain s'' where rec:
      "compositeLoop fuel bk rf d b n ?acc s' = ((?acc @ take (n - length ?acc) (drop (off + k) (concat contents)), None), s'')"
      "composite_ok (nat (bio_MaxFileSize bk)) contents s''" "cs_segments s'' = cs_segments s'"
      "cs_offset s'' = int (min (off + k + (n - length ?acc)) (length (concat contents)))" by blast
    have "k + (n - (length acc + k)) = n - length acc" using step(2) by linarith
    then have "take k (drop off (concat contents)) @ take (n - (length acc + k)) (drop (off + k) (concat contents)) =
        take (n - length acc) (drop off (concat contents))"
      using take_add [of k "n - (length acc + k)" "drop off (concat contents)"] by (simp add: add.commute [of k off])
    then have bytes: "?acc @ take (n - length ?acc) (drop (off + k) (concat contents)) = acc @ take (n - length acc) (drop off (concat contents))"
      unfolding len by simp
    have "compositeLoop (Suc fuel) bk rf d b n acc s = compositeLoop fuel bk rf d b n ?acc s'"
      using True guard at step(1) Suc.prems(3) by (simp add: Let_def)
    then have "compositeLoop (Suc fuel) bk rf d b n acc s = ((acc @ take (n - length acc) (drop off (concat contents)), None), s'')"
      using rec(1) unfolding bytes by simp
    moreover have eq: "off + k + (n - length ?acc) = off + (n - length acc)" using step(2) unfolding len by linarith
    moreover have "cs_segments s'' = cs_segments s" using rec(3) step(6) by simp
    ultimately show ?thesis using rec(2) rec(4) [unfolded eq] by blast
  qed
qed simp

text \<open>\<open>io.ReadAll\<close> on the composite stream, with a buffer of \<open>n\<close> bytes per call.\<close>

primrec readAllComposite ::
  "nat \<Rightarrow> 'b IBlockIO \<Rightarrow> read_fun \<Rightarrow> db \<Rightarrow> 'b \<Rightarrow> nat \<Rightarrow> compositeFileStream \<Rightarrow> byte list \<Rightarrow> byte list result" where
  "readAllComposite 0 bk rf d b n s acc = Inl ErrRecursionLimit"
| "readAllComposite (Suc fuel) bk rf d b n s acc =
     (case compositeRead (2 * n + 2) bk rf d b n s of
        ((bs, None), s) \<Rightarrow> readAllComposite fuel bk rf d b n s (acc @ bs)
      | ((bs, Some e), s) \<Rightarrow> if e = EOF then Inr (acc @ bs) else Inl e)"

lemma readAllComposite_ok:
  assumes rf: "reader_contract rf" and n: "0 < n"
  shows "composite_ok (nat (bio_MaxFileSize bk)) contents s \<Longrightarrow> sources_readable bk d b contents (cs_segments s) \<Longrightarrow>
    cs_offset s = int off \<Longrightarrow> length (concat contents) - off < fuel \<Longrightarrow>
    readAllComposite fuel bk rf d b n s acc = Inr (acc @ drop off (concat contents))"
proof (induction fuel arbitrary: acc s off)
  case (Suc fuel)
  note s = Suc.prems(1)
  have size: "cs_size s = int (length (concat contents))" "off \<le> length (concat contents)" "cs_open s"
    using s Suc.prems(3) by (auto simp: composite_ok_def)
  show ?case
  proof (cases "off = length (concat contents)")
    case True
    then show ?thesis using size n Suc.prems(3) by (simp add: compositeRead_def)
  next
    case False
    have "block_open s \<le> 1" by (simp add: block_open_def split: option.split)
    then have "2 * (n - length []) + block_open s < 2 * n + 2" by simp
    from compositeLoop_ok [OF rf s Suc.prems(2,3) _ this] obtain s' where loop:
      "compositeLoop (2 * n + 2) bk rf d b n [] s = ((take n (drop off (concat contents)), None), s')"
      "composite_ok (nat (bio_MaxFileSize bk)) contents s'" "cs_segments s' = cs_segments s"
      "cs_offset s' = int (min (off + n) (length (concat contents)))" by auto
    let ?off = "min (off + n) (length (concat contents))"
    have read: "compositeRead (2 * n + 2) bk rf d b n s = ((take n (drop off (concat contents)), None), s')"
      using loop(1) size n Suc.prems(3) False by (simp add: compositeRead_def del: compositeLoop.simps)
    have "length (concat contents) - ?off < fuel" using Suc.prems(4) size(2) False n by linarith
    from Suc.IH [OF loop(2) _ loop(4) this] have
      "readAllComposite fuel bk rf d b n s' (acc @ take n (drop off (concat contents))) =
        Inr ((acc @ take n (drop off (concat contents))) @ drop ?off (concat contents))"
      using Suc.prems(2) loop(3) by simp
    moreover have "drop ?off (concat contents) = drop n (drop off (concat contents))" by (cases "off + n \<le> length (concat contents)") (auto simp: min_def add.commute)
    ultimately show ?thesis using read by (simp only: readAllComposite.simps prod.case option.case append_assoc append_take_drop_id)
  qed
qed simp

text \<open>Seeking moves the offset within the file, or reports the error and leaves it.\<close>

lemma compositeSeek_ok:
  assumes "composite_ok bs contents s" and "0 \<le> off" and "off \<le> cs_size s"
  shows "\<exists>s'. compositeSeek off 0 s = ((off, None), s') \<and> composite_ok bs contents s' \<and> cs_offset s' = off \<and> cs_segments s' = cs_segments s"
  using assms by (simp add: compositeSeek_def composite_ok_def closeCurrent_def)

section \<open>The manifest and the stream\<close>

text \<open>A manifest that loads lists whole ready plain files that add up to the file's size.\<close>

lemma manifestLoop_ok:
  assumes "manifestLoop d fileSize rows segs total_size = Inr (segs', t)"
  shows "\<exists>new. segs' = segs @ new \<and> length new = length rows \<and> t = total_size + sum_list (map cg_size new) \<and>
    (\<forall>j<length new. cg_start (new ! j) = total_size + sum_list (map cg_size (take j new)) \<and> 0 \<le> cg_size (new ! j) \<and>
      (\<exists>f. readStoredFile (cg_source (new ! j)) d = Some f \<and> fr_state f = FileStateReady \<and> fr_layout f = 1 \<and>
         fr_size f = cg_size (new ! j)))"
  using assms
proof (induction d fileSize rows segs total_size rule: manifestLoop.induct)
  case (2 d fileSize s rows segs total_size)
  let ?g = "\<lparr>cg_index = sr_index s, cg_source = sr_source s, cg_size = sr_size s, cg_start = total_size\<rparr>"
  have valid: "validateCompositeSegment (sr_index s) (length segs) (sr_size s) (readStoredFile (sr_source s) d) total_size fileSize = Inr ()"
    and rec: "manifestLoop d fileSize rows (segs @ [?g]) (total_size + sr_size s) = Inr (segs', t)"
    using "2.prems" by (auto simp: bind_result_Inr_iff)
  obtain f where f: "readStoredFile (sr_source s) d = Some f" "fr_state f = FileStateReady" "fr_layout f = 1" "fr_size f = sr_size s" "0 \<le> sr_size s"
    using valid by (auto simp: validateCompositeSegment_def split: if_splits option.splits)
  from "2.IH" [OF valid rec] obtain new where new: "segs' = (segs @ [?g]) @ new" "length new = length rows"
    "t = total_size + sr_size s + sum_list (map cg_size new)"
    "\<forall>j<length new. cg_start (new ! j) = total_size + sr_size s + sum_list (map cg_size (take j new)) \<and> 0 \<le> cg_size (new ! j) \<and>
      (\<exists>f. readStoredFile (cg_source (new ! j)) d = Some f \<and> fr_state f = FileStateReady \<and> fr_layout f = 1 \<and> fr_size f = cg_size (new ! j))"
    by blast
  have "cg_start ((?g # new) ! j) = total_size + sum_list (map cg_size (take j (?g # new))) \<and> 0 \<le> cg_size ((?g # new) ! j) \<and>
      (\<exists>f. readStoredFile (cg_source ((?g # new) ! j)) d = Some f \<and> fr_state f = FileStateReady \<and> fr_layout f = 1 \<and> fr_size f = cg_size ((?g # new) ! j))"
    if "j < length (?g # new)" for j
    using that new(4) f by (cases j) simp_all
  then show ?case using new(1-3) by (intro exI [of _ "?g # new"]) simp
qed simp

lemma sum_list_int_lengths: "sum_list (map (\<lambda>c. int (length c)) cs) = int (length (concat cs))"
  by (induction cs) simp_all

lemma compositeIOStream_ok:
  assumes load: "compositeIOStream fileID fileSize d = Inr s" and len: "length contents = length (cs_segments s)"
    and sizes: "\<forall>j<length contents. int (length (contents ! j)) = cg_size (cs_segments s ! j)"
  shows "composite_ok bs contents s" and "cs_offset s = 0" and "cs_size s = fileSize"
proof -
  obtain segs where loop: "manifestLoop d fileSize (manifest fileID d) [] 0 = Inr (segs, fileSize)"
    and s: "s = \<lparr>cs_segments = segs, cs_size = fileSize, cs_offset = 0, cs_current = None, cs_currentIndex = -1, cs_open = True\<rparr>"
    using load by (auto simp: compositeIOStream_def loadCompositeManifest_def bind_result_Inr_iff split: if_splits)
  from manifestLoop_ok [OF loop] have total: "fileSize = sum_list (map cg_size segs)"
    and starts: "\<forall>j<length segs. cg_start (segs ! j) = sum_list (map cg_size (take j segs))" by auto
  have "map cg_size segs = map (\<lambda>c. int (length c)) contents" using len sizes by (intro nth_equalityI) (simp_all add: s)
  then have pre: "sum_list (map cg_size (take j segs)) = int (start_of contents j)" for j
    using sum_list_int_lengths [of "take j contents"] by (simp only: start_of_def flip: take_map)
  have "fileSize = int (length (concat contents))" using total pre [of "length segs"] len by (simp add: start_of_def s)
  then show "composite_ok bs contents s"
    using len sizes starts pre by (simp add: composite_ok_def layout_ok_def s)
qed (use load in \<open>auto simp: compositeIOStream_def bind_result_Inr_iff\<close>)

section \<open>Properties\<close>

text \<open>
  C3: Opening a composite file whose sources are stored, seeking to any position within it and
  reading to the end, with whatever buffer and whatever chunks the backend delivers, yields
  exactly the concatenation of the sources' contents from that position on, across the
  boundaries of blocks and of segments.
\<close>

theorem Composite_reads_segments:
  assumes "compositeIOStream fileID fileSize d = Inr s" and "length contents = length (cs_segments s)"
    and "\<forall>j<length contents. readable bk (lowlevelKey d (cg_source (cs_segments s ! j))) b (contents ! j) \<and>
          int (length (contents ! j)) = cg_size (cs_segments s ! j)"
    and "reader_contract rf" and "0 < n" and "0 \<le> off" and "off \<le> fileSize"
  shows "fst (compositeSeek off 0 s) = (off, None) \<and>
    readAllComposite (nat (fileSize - off) + 1) bk rf d b n (snd (compositeSeek off 0 s)) [] =
      Inr (drop (nat off) (concat contents))"
proof -
  let ?bs = "nat (bio_MaxFileSize bk)"
  have s: "composite_ok ?bs contents s" "cs_size s = fileSize" using compositeIOStream_ok [OF assms(1,2)] assms(3) by simp_all
  obtain s' where seek: "compositeSeek off 0 s = ((off, None), s')" "composite_ok ?bs contents s'" "cs_offset s' = off"
      "cs_segments s' = cs_segments s"
    using compositeSeek_ok [OF s(1) assms(6)] assms(7) s(2) by auto
  have size: "fileSize = int (length (concat contents))" using s by (simp add: composite_ok_def)
  have src: "sources_readable bk d b contents (cs_segments s')" using assms(3) seek(4) by (simp add: sources_readable_def)
  have "cs_offset s' = int (nat off)" using seek(3) assms(6) by simp
  from readAllComposite_ok [OF assms(4,5) seek(2) src this, of "nat (fileSize - off) + 1" "[]"]
  have "readAllComposite (nat (fileSize - off) + 1) bk rf d b n s' [] = Inr (drop (nat off) (concat contents))"
    unfolding size using assms(6) by (simp add: nat_diff_distrib del: length_concat)
  then show ?thesis using seek(1) by simp
qed

text \<open>Two sources, one of two blocks and one of one block, and the composite of both.\<close>

definition sample_blocks :: mem_state where
  "sample_blocks = \<lparr>mem_blocks = [''a'' \<mapsto> [1, 2], ''b'' \<mapsto> [3], ''c'' \<mapsto> [4, 5]], mem_uuid = format_nat, mem_next = 0\<rparr>"

definition sample_composite :: db where
  "sample_composite =
     (let f = (\<lambda>i k n. \<lparr>fr_id = i, fr_file_id = k, fr_size = n, fr_part_count = 1, fr_state = FileStateReady, fr_ctime = 5,
            fr_mtime = 5, fr_extinfo = ''{}'', fr_layout = 1\<rparr>);
          p = (\<lambda>k i key n. \<lparr>pr_file_id = k, pr_part_id = i, pr_key = key, pr_md5 = '''', pr_size = n, pr_ctime = 5, pr_mtime = 5\<rparr>);
          s = (\<lambda>i k n. \<lparr>sr_file_id = 9, sr_index = i, sr_source = k, sr_size = n, sr_ctime = 5, sr_mtime = 5\<rparr>)
      in empty_db\<lparr>files := [f 1 7 3, f 2 8 2, (f 3 9 5)\<lparr>fr_layout := 2\<rparr>],
           parts := [p 7 0 ''a'' 2, p 7 1 ''b'' 1, p 8 0 ''c'' 2], segments := [s 0 8 2, s 1 7 3]\<rparr>)"

theorem Composite_reads_segments_witness:
  "\<exists>s. compositeIOStream 9 5 sample_composite = Inr s \<and> fst (compositeSeek 1 0 s) = (1, None) \<and>
     readAllComposite 5 (memBlockIO 2) bytesRead sample_composite sample_blocks 4 (snd (compositeSeek 1 0 s)) [] = Inr [5, 1, 2, 3]"
proof -
  let ?segs = "[\<lparr>cg_index = 0, cg_source = 8, cg_size = 2, cg_start = 0\<rparr>, \<lparr>cg_index = 1, cg_source = 7, cg_size = 3, cg_start = 2\<rparr>]"
  let ?s = "\<lparr>cs_segments = ?segs, cs_size = 5, cs_offset = 0, cs_current = None, cs_currentIndex = -1, cs_open = True\<rparr>"
  have load: "compositeIOStream 9 5 sample_composite = Inr ?s" by code_simp
  have key: "lowlevelKey sample_composite 7 0 = Inr ''a''" "lowlevelKey sample_composite 7 1 = Inr ''b''"
    "lowlevelKey sample_composite 8 0 = Inr ''c''" by code_simp+
  have down: "bio_Download (memBlockIO 2) k pos sample_blocks = memDownload k pos sample_blocks" for k pos
    by (simp add: memBlockIO_def)
  have size: "bio_MaxFileSize (memBlockIO 2) = 2" by (simp add: memNew_def)
  have blk: "memDownload ''c'' pos sample_blocks = Inr (drop pos [4, 5])" "memDownload ''a'' pos sample_blocks = Inr (drop pos [1, 2])"
    "memDownload ''b'' pos sample_blocks = Inr (drop pos [3])" for pos by (simp_all add: memDownload_def sample_blocks_def)
  have r8: "readable (memBlockIO 2) (lowlevelKey sample_composite 8) sample_blocks [4, 5]"
    unfolding readable_def size down
  proof (intro conjI allI impI)
    fix i pos assume "i * nat 2 < length [4 :: byte, 5]"
    then have "i = 0" by simp
    then show "\<exists>key. lowlevelKey sample_composite 8 (int i) = Inr key \<and>
        memDownload key pos sample_blocks = Inr (drop pos (block_at (nat 2) [4, 5] i))"
      by (intro exI [of _ "''c''"]) (simp add: key blk block_at_def)
  qed simp_all
  have r7: "readable (memBlockIO 2) (lowlevelKey sample_composite 7) sample_blocks [1, 2, 3]"
    unfolding readable_def size down
  proof (intro conjI allI impI)
    fix i pos assume "i * nat 2 < length [1 :: byte, 2, 3]"
    then have "i = 0 \<or> i = 1" by auto
    then show "\<exists>key. lowlevelKey sample_composite 7 (int i) = Inr key \<and>
        memDownload key pos sample_blocks = Inr (drop pos (block_at (nat 2) [1, 2, 3] i))"
      by (intro exI [of _ "if i = 0 then ''a'' else ''b''"]) (auto simp: key blk block_at_def)
  qed simp_all
  have all: "\<forall>j<length [[4, 5], [1, 2, 3]]. readable (memBlockIO 2) (lowlevelKey sample_composite (cg_source (cs_segments ?s ! j)))
      sample_blocks ([[4, 5], [1, 2, 3]] ! j) \<and> int (length ([[4 :: byte, 5], [1, 2, 3]] ! j)) = cg_size (cs_segments ?s ! j)"
    using r7 r8 by (auto simp: less_Suc_eq)
  show ?thesis
    using Composite_reads_segments [OF load _ all bytesRead_contract, of 4 1] load by (intro exI [of _ ?s]) simp
qed

end
