(* ===== verification/Delete_Worker.thy ===== *)
theory Delete_Worker
  imports File_Manager
begin

text \<open>
  The worker that removes unreferenced blocks from the backend
  (\<^verbatim>\<open>filemgr/block_delete_worker.go\<close>). One round restores expired leases, claims up to 100
  due blocks in a transaction, calls the backend, and records the outcome. Times are
  milliseconds (\<open>UnixMilli\<close>) and durations are converted to them.

  What \<open>errors.As\<close> and \<open>errors.Is\<close> find in an error of the backend depends on the
  backend's libraries; the parameter \<open>describe\<close> stands for it.
\<close>

abbreviation (input) deleteLease :: int where "deleteLease \<equiv> 60000"
abbreviation (input) deleteDeadline :: int where "deleteDeadline \<equiv> 169200000"
abbreviation (input) deleteBatchSize :: nat where "deleteBatchSize \<equiv> 100"

record blockDeleteWork =
  wk_fileID :: nat
  wk_partID :: int
  wk_deleteRef :: string
  wk_uploadedAt :: int
  wk_attemptCount :: int

text \<open>
  An error by what the worker can see of it: the status code and retry delay when it is a
  \<open>blockio.DeleteFailure\<close>, whether it is a \<open>net.Error\<close>, and whether it is a context
  error. (A context deadline also is a \<open>net.Error\<close>.)
\<close>

record delete_error =
  de_failure :: "(int \<times> int) option"
  de_network :: bool
  de_context :: bool

section \<open>Claiming\<close>

definition restoreExpiredDeleteLeases :: "string \<Rightarrow> int \<Rightarrow> db \<Rightarrow> db" where
  "restoreExpiredDeleteLeases backendKind now d =
     d\<lparr>deletes := map (\<lambda>r. if dr_backend r = backendKind \<and> dr_state r = Deleting \<and> dr_lease_until r \<le> now
        then r\<lparr>dr_state := Pending, dr_next_attempt := now, dr_lease_until := 0, dr_mtime := now\<rparr>
        else r) (deletes d)\<rparr>"

definition work_of :: "delete_row \<Rightarrow> blockDeleteWork" where
  "work_of r = \<lparr>wk_fileID = dr_file_id r, wk_partID = dr_part_id r, wk_deleteRef = dr_ref r,
                wk_uploadedAt = dr_uploaded_at r, wk_attemptCount = dr_attempts r\<rparr>"

definition queryPendingDeleteCandidates :: "string \<Rightarrow> int \<Rightarrow> db \<Rightarrow> blockDeleteWork list" where
  "queryPendingDeleteCandidates backendKind now d =
     map work_of (take deleteBatchSize
       (sort_key (\<lambda>r. (dr_uploaded_at r, dr_file_id r, dr_part_id r))
         (filter (\<lambda>r. dr_backend r = backendKind \<and> dr_state r = Pending \<and> dr_next_attempt r \<le> now)
           (deletes d))))"

definition restoreFileDeleteState :: "nat \<Rightarrow> int \<Rightarrow> db \<Rightarrow> db" where
  "restoreFileDeleteState fid now d =
     d\<lparr>deletes := map (\<lambda>r. if dr_file_id r = fid \<and> dr_state r \<in> {Pending, Deleting}
        then r\<lparr>dr_state := Live, dr_next_attempt := 0, dr_lease_until := 0, dr_mtime := now\<rparr>
        else r) (deletes d)\<rparr>"

definition work_row :: "blockDeleteWork \<Rightarrow> delete_row \<Rightarrow> bool" where
  "work_row work r \<longleftrightarrow> dr_file_id r = wk_fileID work \<and> dr_part_id r = wk_partID work"

definition expireBlockDelete :: "blockDeleteWork \<Rightarrow> int \<Rightarrow> db \<Rightarrow> db" where
  "expireBlockDelete work now d =
     d\<lparr>deletes := map (\<lambda>r. if work_row work r \<and> dr_state r \<in> {Pending, Deleting}
        then r\<lparr>dr_state := Expired, dr_error := ''deadline'', dr_lease_until := 0, dr_mtime := now\<rparr>
        else r) (deletes d)\<rparr>"

definition claimDeleteCandidate :: "blockDeleteWork \<Rightarrow> int \<Rightarrow> db \<Rightarrow> bool \<times> db" where
  "claimDeleteCandidate work now d =
     (if fileHasLiveReference d (wk_fileID work) then (False, restoreFileDeleteState (wk_fileID work) now d)
      else if now \<ge> wk_uploadedAt work + deleteDeadline then (False, expireBlockDelete work now d)
      else
        (length (filter (\<lambda>r. work_row work r \<and> dr_state r = Pending) (deletes d)) = 1,
         d\<lparr>deletes := map (\<lambda>r. if work_row work r \<and> dr_state r = Pending
            then r\<lparr>dr_state := Deleting, dr_attempts := dr_attempts r + 1, dr_last_attempt := now,
                   dr_lease_until := now + deleteLease, dr_mtime := now\<rparr>
            else r) (deletes d)\<rparr>))"

fun claimLoop :: "int \<Rightarrow> blockDeleteWork list \<Rightarrow> db \<Rightarrow> blockDeleteWork list \<Rightarrow> blockDeleteWork list \<times> db" where
  "claimLoop now [] d claimed = (claimed, d)"
| "claimLoop now (work # works) d claimed =
     (case claimDeleteCandidate work now d of (wasClaimed, d') \<Rightarrow>
        claimLoop now works d'
          (if wasClaimed then claimed @ [work\<lparr>wk_attemptCount := wk_attemptCount work + 1\<rparr>] else claimed))"

definition claimBlockDeleteWork :: "string \<Rightarrow> int \<Rightarrow> db \<Rightarrow> blockDeleteWork list \<times> db" where
  "claimBlockDeleteWork backendKind now d =
     (let d = restoreExpiredDeleteLeases backendKind now d;
          candidates = queryPendingDeleteCandidates backendKind now d
      in claimLoop now candidates d [])"

section \<open>Executing\<close>

definition deleteBackoff :: "int \<Rightarrow> int" where
  "deleteBackoff attempt =
     (if attempt \<le> 1 then 1000
      else min (2 ^ nat (min (attempt - 1) 4) * 1000) 30000)"

definition classifyDeleteFailure :: "int \<times> int \<Rightarrow> int \<Rightarrow> string \<times> bool \<times> int" where
  "classifyDeleteFailure failure attempt =
     (case failure of (status, retryAfter) \<Rightarrow>
        if status = 429 then (''rate_limited'', True, if retryAfter \<le> 0 then 1000 else retryAfter)
        else if status \<ge> 500 then (''server'', True, deleteBackoff attempt)
        else (''client'', False, 0))"

definition classifyBlockDeleteError :: "delete_error \<Rightarrow> int \<Rightarrow> string \<times> bool \<times> int" where
  "classifyBlockDeleteError e attempt =
     (case de_failure e of
        Some failure \<Rightarrow> classifyDeleteFailure failure attempt
      | None \<Rightarrow>
          if de_network e then (''network'', True, deleteBackoff attempt)
          else if de_context e then (''timeout'', True, deleteBackoff attempt)
          else (''invalid_reference'', False, 0))"

definition finishOne :: "delete_state \<Rightarrow> string \<Rightarrow> int \<Rightarrow> int \<Rightarrow> blockDeleteWork \<Rightarrow> db \<Rightarrow> db" where
  "finishOne state errorCode nextAttemptAt now work d =
     d\<lparr>deletes := map (\<lambda>r. if work_row work r \<and> dr_state r = Deleting
        then r\<lparr>dr_state := state, dr_next_attempt := nextAttemptAt, dr_lease_until := 0,
               dr_error := errorCode, dr_deleted_at := (if state = Deleted then now else 0), dr_mtime := now\<rparr>
        else r) (deletes d)\<rparr>"

definition finishBlockDeleteWork ::
  "blockDeleteWork list \<Rightarrow> delete_state \<Rightarrow> string \<Rightarrow> int \<Rightarrow> int \<Rightarrow> db \<Rightarrow> db" where
  "finishBlockDeleteWork works state errorCode nextAttemptAt now d =
     fold (finishOne state errorCode nextAttemptAt now) works d"

text \<open>The body of the loop that schedules the next attempt of each block, or gives it up.\<close>

definition retryOne :: "string \<Rightarrow> int \<Rightarrow> int \<Rightarrow> blockDeleteWork \<Rightarrow> db \<Rightarrow> db" where
  "retryOne code nextAt now work d =
     (if nextAt \<ge> wk_uploadedAt work + deleteDeadline
      then finishBlockDeleteWork [work] Expired ''deadline'' 0 now d
      else finishBlockDeleteWork [work] Pending code nextAt now d)"

text \<open>
  The backend sees one call with all references. A permanent failure of a call with several
  references is retried one reference at a time, so the recursion is at most one level deep.
\<close>

function executeBlockDeleteWork ::
  "'b IBlockIO \<Rightarrow> (err \<Rightarrow> delete_error) \<Rightarrow> int \<Rightarrow> blockDeleteWork list \<Rightarrow> 'b world \<Rightarrow> 'b world" where
  "executeBlockDeleteWork bk describe now works w =
     (case bio_DeleteBlocks bk (map wk_deleteRef works) (snd w) of
        (Inr _, b) \<Rightarrow> (finishBlockDeleteWork works Deleted '''' 0 now (fst w), b)
      | (Inl e, b) \<Rightarrow>
          (case classifyBlockDeleteError (describe e) (wk_attemptCount (hd works)) of (code, retry, delay) \<Rightarrow>
             if \<not> retry \<and> length works > 1
             then fold (\<lambda>work. executeBlockDeleteWork bk describe now [work]) works (fst w, b)
             else if retry then (fold (retryOne code (now + delay) now) works (fst w), b)
             else (finishBlockDeleteWork works Failed code 0 now (fst w), b)))"
  by pat_completeness auto
termination
  by (relation "measure (\<lambda>(bk, describe, now, works, w). length works)") auto

declare executeBlockDeleteWork.simps [simp del]

definition processBlockDeleteBatch ::
  "'b IBlockIO \<Rightarrow> (err \<Rightarrow> delete_error) \<Rightarrow> int \<Rightarrow> 'b world \<Rightarrow> 'b world" where
  "processBlockDeleteBatch bk describe now w =
     (case claimBlockDeleteWork (bio_Name bk) now (fst w) of (claimed, d) \<Rightarrow>
        if claimed = [] then (d, snd w) else executeBlockDeleteWork bk describe now claimed (d, snd w))"

section \<open>How rows evolve\<close>

text \<open>The transitions the worker makes. The other states are final for it.\<close>

inductive worker_move :: "delete_state \<Rightarrow> delete_state \<Rightarrow> bool" where
  claim: "worker_move Pending Deleting"
| release: "worker_move Deleting Pending"
| revive: "s \<in> {Pending, Deleting} \<Longrightarrow> worker_move s Live"
| expire: "s \<in> {Pending, Deleting} \<Longrightarrow> worker_move s Expired"
| succeed: "worker_move Deleting Deleted"
| give_up: "worker_move Deleting Failed"

inductive_simps worker_move_simps: "worker_move s t"

definition same_block :: "delete_row \<Rightarrow> delete_row \<Rightarrow> bool" where
  "same_block r r' \<longleftrightarrow> dr_file_id r' = dr_file_id r \<and> dr_part_id r' = dr_part_id r \<and> dr_backend r' = dr_backend r \<and>
     dr_ref r' = dr_ref r \<and> dr_uploaded_at r' = dr_uploaded_at r"

definition row_evolves :: "delete_row \<Rightarrow> delete_row \<Rightarrow> bool" where
  "row_evolves r r' \<longleftrightarrow> r' = r \<or> same_block r r' \<and> dr_state r \<in> {Pending, Deleting} \<and> worker_move\<^sup>*\<^sup>* (dr_state r) (dr_state r')"

definition evolves :: "db \<Rightarrow> db \<Rightarrow> bool" where
  "evolves d d' \<longleftrightarrow> (\<exists>rows. d' = d\<lparr>deletes := rows\<rparr> \<and> list_all2 row_evolves (deletes d) rows)"

lemma same_block_refl [simp]: "same_block r r"
  by (simp add: same_block_def)

lemma row_evolves_refl [simp]: "row_evolves r r"
  by (simp add: row_evolves_def)

lemma row_evolves_same: "row_evolves r r' \<Longrightarrow> same_block r r'"
  by (auto simp: row_evolves_def)

lemma row_evolves_trans: "row_evolves r r' \<Longrightarrow> row_evolves r' r'' \<Longrightarrow> row_evolves r r''"
  by (auto simp: row_evolves_def same_block_def)

lemma evolves_refl [simp]: "evolves d d"
  unfolding evolves_def by (intro exI [of _ "deletes d"]) (simp add: list.rel_refl)

lemma evolves_trans: "evolves d d' \<Longrightarrow> evolves d' d'' \<Longrightarrow> evolves d d''"
proof -
  assume "evolves d d'" and "evolves d' d''"
  then obtain rows rows' where "d'' = d\<lparr>deletes := rows'\<rparr>" "list_all2 row_evolves (deletes d) rows" "list_all2 row_evolves rows rows'"
    by (auto simp: evolves_def)
  moreover from this(2,3) have "list_all2 row_evolves (deletes d) rows'"
    using list_all2_trans [of row_evolves row_evolves row_evolves] row_evolves_trans by blast
  ultimately show ?thesis unfolding evolves_def by blast
qed

lemma evolves_map:
  assumes "\<And>r. C r \<Longrightarrow> dr_state r \<in> {Pending, Deleting} \<and> same_block r (U r) \<and> worker_move (dr_state r) (dr_state (U r))"
  shows "evolves d (d\<lparr>deletes := map (\<lambda>r. if C r then U r else r) (deletes d)\<rparr>)"
proof -
  have "row_evolves r (if C r then U r else r)" for r using assms [of r] by (auto simp: row_evolves_def)
  then have "list_all2 row_evolves rs (map (\<lambda>r. if C r then U r else r) rs)" for rs
    by (simp add: list_all2_conv_all_nth)
  then show ?thesis unfolding evolves_def by blast
qed

lemma evolves_refs: "evolves d d' \<Longrightarrow> fileHasLiveReference d' = fileHasLiveReference d"
  by (auto simp: evolves_def)

lemma evolves_keys:
  assumes "evolves d d'"
  shows "map (\<lambda>r. (dr_file_id r, dr_part_id r)) (deletes d') = map (\<lambda>r. (dr_file_id r, dr_part_id r)) (deletes d)"
proof -
  obtain rows where "d' = d\<lparr>deletes := rows\<rparr>" "list_all2 row_evolves (deletes d) rows" using assms by (auto simp: evolves_def)
  moreover have "map (\<lambda>r. (dr_file_id r, dr_part_id r)) rows = map (\<lambda>r. (dr_file_id r, dr_part_id r)) rs" if "list_all2 row_evolves rs rows" for rs
    using that by (induction rule: list_all2_induct) (auto dest: row_evolves_same simp: same_block_def)
  ultimately show ?thesis by simp
qed

lemma restoreExpired_evolves: "evolves d (restoreExpiredDeleteLeases kind now d)"
  unfolding restoreExpiredDeleteLeases_def by (intro evolves_map) (auto simp: same_block_def worker_move_simps)

lemma restoreFile_evolves: "evolves d (restoreFileDeleteState fid now d)"
  unfolding restoreFileDeleteState_def by (intro evolves_map) (auto simp: same_block_def worker_move_simps)

lemma expire_evolves: "evolves d (expireBlockDelete work now d)"
  unfolding expireBlockDelete_def by (intro evolves_map) (auto simp: same_block_def worker_move_simps)

lemma claim_evolves: "evolves d (snd (claimDeleteCandidate work now d))"
proof -
  have "evolves d (d\<lparr>deletes := map (\<lambda>r. if work_row work r \<and> dr_state r = Pending
            then r\<lparr>dr_state := Deleting, dr_attempts := dr_attempts r + 1, dr_last_attempt := now,
                   dr_lease_until := now + deleteLease, dr_mtime := now\<rparr>
            else r) (deletes d)\<rparr>)"
    by (intro evolves_map) (auto simp: same_block_def worker_move_simps)
  then show ?thesis by (simp add: claimDeleteCandidate_def restoreFile_evolves expire_evolves)
qed

lemma claimLoop_evolves: "claimLoop now works d claimed = (claimed', d') \<Longrightarrow> evolves d d'"
proof (induction now works d claimed rule: claimLoop.induct)
  case (2 now work works d claimed)
  obtain ok d1 where claim: "claimDeleteCandidate work now d = (ok, d1)" by fastforce
  have "evolves d1 d'" using 2 claim by simp
  moreover have "evolves d d1" using claim_evolves [of d work now] claim by simp
  ultimately show ?case using evolves_trans by blast
qed simp

lemma finishOne_evolves:
  assumes "state \<in> {Pending, Expired, Deleted, Failed}"
  shows "evolves d (finishOne state code at now work d)"
  unfolding finishOne_def using assms by (intro evolves_map) (auto simp: same_block_def worker_move_simps)

lemma fold_evolves:
  assumes "\<And>work d. evolves d (f work d)"
  shows "evolves d (fold f works d)"
proof (induction works arbitrary: d)
  case (Cons work works)
  show ?case using evolves_trans [OF assms [of d work] Cons [of "f work d"]] by simp
qed simp

lemma finish_evolves: "state \<in> {Pending, Expired, Deleted, Failed} \<Longrightarrow> evolves d (finishBlockDeleteWork works state code at now d)"
  unfolding finishBlockDeleteWork_def by (intro fold_evolves finishOne_evolves)

lemma retry_evolves: "evolves d (retryOne code at now work d)"
  by (simp add: retryOne_def finish_evolves)

lemma execute_single_evolves: "evolves (fst w) (fst (executeBlockDeleteWork bk describe now [work] w))"
  by (subst executeBlockDeleteWork.simps)
    (auto split: prod.split sum.split simp: finish_evolves retry_evolves)

lemma execute_evolves: "evolves (fst w) (fst (executeBlockDeleteWork bk describe now works w))"
proof -
  have fold: "evolves (fst w) (fst (fold (\<lambda>work. executeBlockDeleteWork bk describe now [work]) ws w))" for ws w
  proof (induction ws arbitrary: w)
    case (Cons work ws)
    show ?case using evolves_trans [OF execute_single_evolves [of w bk describe now work] Cons] by simp
  qed simp
  have retry: "evolves d (fold (retryOne code at now) works d)" for code at d by (intro fold_evolves retry_evolves)
  show ?thesis
    using fold [of "(fst w, b)" works for b]
    by (subst executeBlockDeleteWork.simps) (auto split: prod.split sum.split simp: finish_evolves retry)
qed

text \<open>Claiming never marks a block as deleted.\<close>

definition undeleted :: "db \<Rightarrow> db \<Rightarrow> bool" where
  "undeleted d d' \<longleftrightarrow> list_all2 (\<lambda>r r'. dr_state r' = Deleted \<longrightarrow> dr_state r = Deleted) (deletes d) (deletes d')"

lemma undeleted_trans: "undeleted d d' \<Longrightarrow> undeleted d' d'' \<Longrightarrow> undeleted d d''"
  unfolding undeleted_def by (auto simp: list_all2_conv_all_nth)

lemma undeleted_map:
  assumes "\<And>r. C r \<Longrightarrow> dr_state (U r) \<noteq> Deleted"
  shows "undeleted d (d\<lparr>deletes := map (\<lambda>r. if C r then U r else r) (deletes d)\<rparr>)"
  using assms by (auto simp: undeleted_def list_all2_conv_all_nth)

lemma claim_undeleted: "undeleted d (snd (claimDeleteCandidate work now d))"
  unfolding claimDeleteCandidate_def restoreFileDeleteState_def expireBlockDelete_def
  by (cases "fileHasLiveReference d (wk_fileID work)"; cases "now \<ge> wk_uploadedAt work + deleteDeadline") (simp_all add: undeleted_map)

lemma claimLoop_undeleted: "claimLoop now works d claimed = (claimed', d') \<Longrightarrow> undeleted d d'"
proof (induction now works d claimed rule: claimLoop.induct)
  case (1 now d claimed)
  then show ?case by (simp add: undeleted_def list.rel_refl)
next
  case (2 now work works d claimed)
  obtain ok d1 where claim: "claimDeleteCandidate work now d = (ok, d1)" by fastforce
  have "undeleted d1 d'" using 2 claim by simp
  moreover have "undeleted d d1" using claim_undeleted [of d work now] claim by simp
  ultimately show ?case using undeleted_trans by blast
qed

lemma claim_work_undeleted:
  assumes "claimBlockDeleteWork kind now d = (claimed, d')"
  shows "undeleted d d'"
proof -
  have "undeleted d (restoreExpiredDeleteLeases kind now d)" unfolding restoreExpiredDeleteLeases_def by (rule undeleted_map) simp
  then show ?thesis using assms claimLoop_undeleted undeleted_trans by (fastforce simp: claimBlockDeleteWork_def Let_def)
qed

section \<open>What is claimed\<close>

definition claimed_row :: "string \<Rightarrow> int \<Rightarrow> db \<Rightarrow> blockDeleteWork \<Rightarrow> bool" where
  "claimed_row kind now d c \<longleftrightarrow>
     (\<exists>r\<in>set (deletes d). work_row c r \<and> dr_state r = Deleting \<and> dr_lease_until r = now + deleteLease \<and>
        dr_backend r = kind \<and> dr_ref r = wk_deleteRef c \<and> dr_uploaded_at r = wk_uploadedAt c \<and> dr_attempts r = wk_attemptCount c)"

definition candidate_row :: "string \<Rightarrow> db \<Rightarrow> blockDeleteWork \<Rightarrow> bool" where
  "candidate_row kind d c \<longleftrightarrow>
     (\<exists>r\<in>set (deletes d). work_row c r \<and> dr_backend r = kind \<and> dr_ref r = wk_deleteRef c \<and>
        dr_uploaded_at r = wk_uploadedAt c \<and> dr_attempts r = wk_attemptCount c)"

abbreviation work_key :: "blockDeleteWork \<Rightarrow> nat \<times> int" where
  "work_key c \<equiv> (wk_fileID c, wk_partID c)"

abbreviation blocks_unique :: "db \<Rightarrow> bool" where
  "blocks_unique d \<equiv> unique_by (\<lambda>r. (dr_file_id r, dr_part_id r)) (deletes d)"

lemma evolves_unique: "evolves d d' \<Longrightarrow> blocks_unique d' = blocks_unique d"
  by (simp add: unique_by_def evolves_keys)

lemma work_row_other: "work_row c r \<Longrightarrow> work_key c \<noteq> work_key c' \<Longrightarrow> \<not> work_row c' r"
  by (auto simp: work_row_def)

lemma claim_other:
  assumes claim: "claimDeleteCandidate work now d = (ok, d')" and other: "work_key c \<noteq> work_key work"
  shows "candidate_row kind d c \<Longrightarrow> candidate_row kind d' c"
    and "claimed_row kind now d c \<Longrightarrow> \<not> fileHasLiveReference d (wk_fileID c) \<Longrightarrow> claimed_row kind now d' c"
proof -
  assume "candidate_row kind d c"
  then obtain r where r: "r \<in> set (deletes d)" "work_row c r" "dr_backend r = kind" "dr_ref r = wk_deleteRef c"
      "dr_uploaded_at r = wk_uploadedAt c" "dr_attempts r = wk_attemptCount c" by (auto simp: candidate_row_def)
  have nw: "\<not> work_row work r" using r(2) other by (rule work_row_other)
  let ?u = "r\<lparr>dr_state := Live, dr_next_attempt := 0, dr_lease_until := 0, dr_mtime := now\<rparr>"
  have "r \<in> set (deletes d') \<or> ?u \<in> set (deletes d')"
    using claim r(1) nw
    by (force simp: claimDeleteCandidate_def restoreFileDeleteState_def expireBlockDelete_def image_iff split: if_splits)
  then obtain r' where "r' \<in> set (deletes d')" "r' = r \<or> r' = ?u" by blast
  then show "candidate_row kind d' c" using r(2-) unfolding candidate_row_def work_row_def by (intro bexI [of _ r']) auto
next
  assume "claimed_row kind now d c" and free: "\<not> fileHasLiveReference d (wk_fileID c)"
  then obtain r where r: "r \<in> set (deletes d)" "work_row c r" "dr_state r = Deleting" "dr_lease_until r = now + deleteLease"
      "dr_backend r = kind" "dr_ref r = wk_deleteRef c" "dr_uploaded_at r = wk_uploadedAt c" "dr_attempts r = wk_attemptCount c"
    by (auto simp: claimed_row_def)
  have nw: "\<not> work_row work r" using r(2) other by (rule work_row_other)
  have nf: "fileHasLiveReference d (wk_fileID work) \<Longrightarrow> dr_file_id r \<noteq> wk_fileID work" using free r(2) by (auto simp: work_row_def)
  have "r \<in> set (deletes d')"
    using claim r(1) nw nf
    by (force simp: claimDeleteCandidate_def restoreFileDeleteState_def expireBlockDelete_def image_iff split: if_splits)
  then show "claimed_row kind now d' c" using r(2-) unfolding claimed_row_def by blast
qed

lemma claim_self:
  assumes claim: "claimDeleteCandidate work now d = (True, d')" and cand: "candidate_row kind d work" and uniq: "blocks_unique d"
  shows "claimed_row kind now d' (work\<lparr>wk_attemptCount := wk_attemptCount work + 1\<rparr>)"
    and "\<not> fileHasLiveReference d (wk_fileID work)" and "now < wk_uploadedAt work + deleteDeadline"
proof -
  show free: "\<not> fileHasLiveReference d (wk_fileID work)" and "now < wk_uploadedAt work + deleteDeadline"
    using claim by (auto simp: claimDeleteCandidate_def split: if_splits)
  let ?U = "\<lambda>r. r\<lparr>dr_state := Deleting, dr_attempts := dr_attempts r + 1, dr_last_attempt := now,
                   dr_lease_until := now + deleteLease, dr_mtime := now\<rparr>"
  have one: "length (filter (\<lambda>r. work_row work r \<and> dr_state r = Pending) (deletes d)) = 1"
    and d': "d' = d\<lparr>deletes := map (\<lambda>r. if work_row work r \<and> dr_state r = Pending then ?U r else r) (deletes d)\<rparr>"
    using claim by (auto simp: claimDeleteCandidate_def split: if_splits)
  then obtain r where "r \<in> set (filter (\<lambda>r. work_row work r \<and> dr_state r = Pending) (deletes d))"
    by (metis length_0_conv list.set_intros(1) neq_Nil_conv zero_neq_one)
  then have r: "r \<in> set (deletes d)" "work_row work r" "dr_state r = Pending" by simp_all
  obtain q where q: "q \<in> set (deletes d)" "work_row work q" "dr_backend q = kind" "dr_ref q = wk_deleteRef work"
      "dr_uploaded_at q = wk_uploadedAt work" "dr_attempts q = wk_attemptCount work"
    using cand by (auto simp: candidate_row_def)
  have "q = r" using uniq q(1,2) r(1,2) by (intro unique_by_eq [OF uniq]) (auto simp: work_row_def)
  moreover have "?U r \<in> set (deletes d')" unfolding d' using r by (auto simp: image_iff intro!: bexI [of _ r])
  ultimately show "claimed_row kind now d' (work\<lparr>wk_attemptCount := wk_attemptCount work + 1\<rparr>)"
    using q unfolding claimed_row_def by (intro bexI [of _ "?U r"]) (simp_all add: work_row_def)
qed

lemma claimLoop_ok:
  "claimLoop now works d claimed = (claimed', d') \<Longrightarrow> blocks_unique d \<Longrightarrow> distinct (map work_key works @ map work_key claimed) \<Longrightarrow>
   (\<forall>c\<in>set works. candidate_row kind d c) \<Longrightarrow>
   (\<forall>c\<in>set claimed. claimed_row kind now d c \<and> \<not> fileHasLiveReference d (wk_fileID c) \<and> now < wk_uploadedAt c + deleteDeadline) \<Longrightarrow>
   distinct (map work_key claimed') \<and> length claimed' \<le> length claimed + length works \<and>
   (\<forall>c\<in>set claimed'. claimed_row kind now d' c \<and> \<not> fileHasLiveReference d' (wk_fileID c) \<and> now < wk_uploadedAt c + deleteDeadline)"
proof (induction now works d claimed rule: claimLoop.induct)
  case (2 now work works d claimed)
  obtain ok d1 where claim: "claimDeleteCandidate work now d = (ok, d1)" by fastforce
  have ev: "evolves d d1" using claim_evolves [of d work now] claim by simp
  let ?c = "work\<lparr>wk_attemptCount := wk_attemptCount work + 1\<rparr>"
  let ?claimed = "if ok then claimed @ [?c] else claimed"
  have "work_key work \<notin> work_key ` (set works \<union> set claimed)" using "2.prems"(3) by (simp add: image_Un)
  then have keys: "work_key c \<noteq> work_key work" if "c \<in> set works \<union> set claimed" for c
    using that imageI [OF that, of work_key] by metis
  have cand: "\<forall>c\<in>set works. candidate_row kind d1 c" using claim_other(1) [OF claim keys] "2.prems"(4) by simp
  have old: "claimed_row kind now d1 c \<and> \<not> fileHasLiveReference d1 (wk_fileID c) \<and> now < wk_uploadedAt c + deleteDeadline"
    if "c \<in> set claimed" for c
    using that claim_other(2) [OF claim keys] "2.prems"(5) evolves_refs [OF ev] by simp
  have new: "claimed_row kind now d1 ?c \<and> \<not> fileHasLiveReference d1 (wk_fileID ?c) \<and> now < wk_uploadedAt ?c + deleteDeadline" if ok
    using claim_self [of work now d d1 kind] claim that "2.prems"(2,4) evolves_refs [OF ev] by simp
  have all: "\<forall>c\<in>set ?claimed. claimed_row kind now d1 c \<and> \<not> fileHasLiveReference d1 (wk_fileID c) \<and> now < wk_uploadedAt c + deleteDeadline"
    using old new by auto
  have dist: "distinct (map work_key works @ map work_key ?claimed)" using "2.prems"(3) by auto
  have rec: "claimLoop now works d1 ?claimed = (claimed', d')" using "2.prems"(1) claim by simp
  have "blocks_unique d1" using evolves_unique [OF ev] "2.prems"(2) by simp
  from "2.IH" [OF claim [symmetric] rec this dist cand all] show ?case by (auto split: if_splits)
qed simp

lemma claim_ok:
  assumes claim: "claimBlockDeleteWork kind now d = (claimed, d')" and uniq: "blocks_unique d"
  shows "distinct (map work_key claimed)" and "length claimed \<le> deleteBatchSize" and "evolves d d'"
    and "c \<in> set claimed \<Longrightarrow> claimed_row kind now d' c"
    and "c \<in> set claimed \<Longrightarrow> \<not> fileHasLiveReference d' (wk_fileID c)"
    and "c \<in> set claimed \<Longrightarrow> now < wk_uploadedAt c + deleteDeadline"
proof -
  let ?d = "restoreExpiredDeleteLeases kind now d" and ?key = "\<lambda>r. (dr_file_id r, dr_part_id r)"
  let ?rows = "sort_key (\<lambda>r. (dr_uploaded_at r, dr_file_id r, dr_part_id r))
         (filter (\<lambda>r. dr_backend r = kind \<and> dr_state r = Pending \<and> dr_next_attempt r \<le> now) (deletes ?d))"
  let ?cands = "queryPendingDeleteCandidates kind now ?d"
  have ev: "evolves d ?d" by (rule restoreExpired_evolves)
  have uniq': "blocks_unique ?d" using evolves_unique [OF ev] uniq by simp
  have loop: "claimLoop now ?cands ?d [] = (claimed, d')" using claim by (simp add: claimBlockDeleteWork_def Let_def)
  show "evolves d d'" using evolves_trans [OF ev claimLoop_evolves [OF loop]] .
  have keys: "map work_key ?cands = map ?key (take deleteBatchSize ?rows)"
    by (simp add: queryPendingDeleteCandidates_def work_of_def)
  have "distinct (map ?key ?rows)" using uniq' by (simp add: unique_by_def distinct_map inj_on_def)
  then have "distinct (map work_key ?cands @ map work_key [])" unfolding keys by (simp flip: take_map)
  moreover have "\<forall>c\<in>set ?cands. candidate_row kind ?d c"
    by (auto simp: queryPendingDeleteCandidates_def candidate_row_def work_of_def work_row_def dest!: in_set_takeD)
  ultimately have ok: "distinct (map work_key claimed) \<and> length claimed \<le> length ?cands \<and>
     (\<forall>c\<in>set claimed. claimed_row kind now d' c \<and> \<not> fileHasLiveReference d' (wk_fileID c) \<and> now < wk_uploadedAt c + deleteDeadline)"
    using claimLoop_ok [OF loop uniq', of kind] by simp
  moreover have "length ?cands \<le> deleteBatchSize" by (simp add: queryPendingDeleteCandidates_def)
  ultimately show "distinct (map work_key claimed)" "length claimed \<le> deleteBatchSize"
    "c \<in> set claimed \<Longrightarrow> claimed_row kind now d' c" "c \<in> set claimed \<Longrightarrow> \<not> fileHasLiveReference d' (wk_fileID c)"
    "c \<in> set claimed \<Longrightarrow> now < wk_uploadedAt c + deleteDeadline" by auto
qed

section \<open>What execution does\<close>

text \<open>
  How the backend may change while the blocks of the given references are deleted: nothing
  appears, a reference is only lost with its block, and every block that none of the
  references owns stays.
\<close>

definition touches ::
  "('b \<Rightarrow> string \<rightharpoonup> byte list) \<Rightarrow> ('b \<Rightarrow> string \<rightharpoonup> string) \<Rightarrow> string set \<Rightarrow> 'b \<Rightarrow> 'b \<Rightarrow> bool" where
  "touches blk own refs b b' \<longleftrightarrow>
     blk b' \<subseteq>\<^sub>m blk b \<and> own b' \<subseteq>\<^sub>m own b \<and>
     (\<forall>ref key. own b ref = Some key \<longrightarrow> own b' ref = None \<longrightarrow> blk b' key = None) \<and>
     (\<forall>key data. blk b key = Some data \<longrightarrow> (\<forall>ref\<in>refs. own b ref \<noteq> Some key) \<longrightarrow> blk b' key = Some data)"

definition gone ::
  "('b \<Rightarrow> string \<rightharpoonup> byte list) \<Rightarrow> ('b \<Rightarrow> string \<rightharpoonup> string) \<Rightarrow> 'b \<Rightarrow> 'b \<Rightarrow> string \<Rightarrow> bool" where
  "gone blk own b b' ref \<longleftrightarrow> (\<forall>key. own b ref = Some key \<longrightarrow> blk b' key = None)"

lemma touches_refl: "touches blk own refs b b"
  by (simp add: touches_def)

lemma map_le_Some: "m \<subseteq>\<^sub>m m' \<Longrightarrow> m k = Some v \<Longrightarrow> m' k = Some v"
  by (metis domI map_le_def)

lemma map_le_None: "m \<subseteq>\<^sub>m m' \<Longrightarrow> m' k = None \<Longrightarrow> m k = None"
  by (metis map_le_Some not_None_eq)

lemma touches_trans:
  assumes "touches blk own A b b1" and "touches blk own B b1 b2"
  shows "touches blk own (A \<union> B) b b2"
proof -
  have le: "blk b1 \<subseteq>\<^sub>m blk b" "own b1 \<subseteq>\<^sub>m own b" "blk b2 \<subseteq>\<^sub>m blk b1" "own b2 \<subseteq>\<^sub>m own b1"
    using assms by (simp_all add: touches_def)
  have "blk b2 key = None" if "own b ref = Some key" "own b2 ref = None" for ref key
  proof (cases "own b1 ref")
    case None
    then have "blk b1 key = None" using assms(1) that by (auto simp: touches_def)
    then show ?thesis by (rule map_le_None [OF le(3)])
  next
    case (Some k)
    then have "k = key" using map_le_Some [OF le(2)] that(1) by fastforce
    then show ?thesis using assms(2) Some that(2) by (auto simp: touches_def)
  qed
  moreover have "blk b2 key = Some data" if "blk b key = Some data" "\<forall>ref\<in>A \<union> B. own b ref \<noteq> Some key" for key data
  proof -
    have "blk b1 key = Some data" using assms(1) that by (auto simp: touches_def)
    moreover have "\<forall>ref\<in>B. own b1 ref \<noteq> Some key" using that(2) map_le_Some [OF le(2)] by (metis UnI2)
    ultimately show ?thesis using assms(2) by (auto simp: touches_def)
  qed
  ultimately show ?thesis using map_le_trans [OF le(3,1)] map_le_trans [OF le(4,2)] by (simp add: touches_def)
qed

lemma touches_gone_later: "gone blk own b b1 ref \<Longrightarrow> touches blk own B b1 b2 \<Longrightarrow> gone blk own b b2 ref"
  unfolding gone_def touches_def using map_le_None by metis

lemma touches_gone_earlier:
  assumes "touches blk own A b b1" and "touches blk own B b1 b2" and "gone blk own b1 b2 ref"
  shows "gone blk own b b2 ref"
  unfolding gone_def
proof (intro allI impI)
  fix key assume key: "own b ref = Some key"
  show "blk b2 key = None"
  proof (cases "own b1 ref")
    case None
    then show ?thesis using assms(1,2) key map_le_None unfolding touches_def by metis
  next
    case (Some k)
    then have "k = key" using assms(1) key map_le_Some unfolding touches_def by fastforce
    then show ?thesis using assms(3) Some by (simp add: gone_def)
  qed
qed

text \<open>
  What becomes of the rows: those of the given works that were being deleted get a final or a
  new pending state, and \<open>deleted\<close> only when the backend no longer has the block; all others
  stay as they are.
\<close>

definition row_done :: "(string \<Rightarrow> bool) \<Rightarrow> blockDeleteWork list \<Rightarrow> delete_row \<Rightarrow> delete_row \<Rightarrow> bool" where
  "row_done removed works r r' \<longleftrightarrow>
     (if (\<exists>w\<in>set works. work_row w r) \<and> dr_state r = Deleting
      then same_block r r' \<and> dr_state r' \<in> {Deleted, Pending, Expired, Failed} \<and>
           (dr_state r' = Deleted \<longrightarrow> (\<exists>w\<in>set works. work_row w r \<and> removed (wk_deleteRef w)))
      else r' = r)"

definition rows_done :: "(string \<Rightarrow> bool) \<Rightarrow> blockDeleteWork list \<Rightarrow> db \<Rightarrow> db \<Rightarrow> bool" where
  "rows_done removed works d d' \<longleftrightarrow> (\<exists>rows. d' = d\<lparr>deletes := rows\<rparr> \<and> list_all2 (row_done removed works) (deletes d) rows)"

lemma rows_done_Nil: "rows_done removed [] d d"
  unfolding rows_done_def by (intro exI [of _ "deletes d"]) (simp add: list.rel_refl row_done_def)

lemma row_done_append:
  assumes "row_done P ws r r1" and "row_done Q vs r1 r2"
    and "\<And>w. w \<in> set ws \<Longrightarrow> P (wk_deleteRef w) \<Longrightarrow> R (wk_deleteRef w)" and "\<And>w. w \<in> set vs \<Longrightarrow> Q (wk_deleteRef w) \<Longrightarrow> R (wk_deleteRef w)"
  shows "row_done R (ws @ vs) r r2"
proof (cases "(\<exists>w\<in>set ws. work_row w r) \<and> dr_state r = Deleting")
  case True
  then have r1: "same_block r r1" "dr_state r1 \<in> {Deleted, Pending, Expired, Failed}"
      "dr_state r1 = Deleted \<longrightarrow> (\<exists>w\<in>set ws. work_row w r \<and> P (wk_deleteRef w))"
    using assms(1) by (auto simp: row_done_def)
  have "r2 = r1" using assms(2) r1(2) by (auto simp: row_done_def)
  then show ?thesis using True r1 assms(3) unfolding row_done_def by auto
next
  case False
  then have "r1 = r" using assms(1) unfolding row_done_def by argo
  then show ?thesis using assms(2,4) False unfolding row_done_def by (auto split: if_splits)
qed

lemma rows_done_append:
  assumes "rows_done P ws d d1" and "rows_done Q vs d1 d2"
    and "\<And>w. w \<in> set ws \<Longrightarrow> P (wk_deleteRef w) \<Longrightarrow> R (wk_deleteRef w)" and "\<And>w. w \<in> set vs \<Longrightarrow> Q (wk_deleteRef w) \<Longrightarrow> R (wk_deleteRef w)"
  shows "rows_done R (ws @ vs) d d2"
proof -
  obtain rows1 rows2 where "d2 = d\<lparr>deletes := rows2\<rparr>" "list_all2 (row_done P ws) (deletes d) rows1" "list_all2 (row_done Q vs) rows1 rows2"
    using assms(1,2) by (auto simp: rows_done_def)
  moreover have "row_done R (ws @ vs) r r2" if "row_done P ws r r1" "row_done Q vs r1 r2" for r r1 r2
    using that(1,2) assms(3,4) by (rule row_done_append)
  ultimately have "list_all2 (row_done R (ws @ vs)) (deletes d) rows2" "d2 = d\<lparr>deletes := rows2\<rparr>"
    using list_all2_trans [of "row_done P ws" "row_done Q vs" "row_done R (ws @ vs)"] by blast+
  then show ?thesis unfolding rows_done_def by blast
qed

lemma finishOne_done:
  assumes "state \<in> {Deleted, Pending, Expired, Failed}" and "state = Deleted \<Longrightarrow> removed (wk_deleteRef w)"
  shows "rows_done removed [w] d (finishOne state code at now w d)"
proof -
  have "row_done removed [w] r (if work_row w r \<and> dr_state r = Deleting
        then r\<lparr>dr_state := state, dr_next_attempt := at, dr_lease_until := 0,
               dr_error := code, dr_deleted_at := (if state = Deleted then now else 0), dr_mtime := now\<rparr>
        else r)" for r
    using assms by (simp add: row_done_def same_block_def)
  then have "list_all2 (row_done removed [w]) (deletes d) (deletes (finishOne state code at now w d))"
    by (simp add: finishOne_def list_all2_conv_all_nth)
  then show ?thesis unfolding rows_done_def by (intro exI [of _ "deletes (finishOne state code at now w d)"]) (simp add: finishOne_def)
qed

lemma fold_done:
  assumes "\<And>w d. w \<in> set ws \<Longrightarrow> rows_done removed [w] d (f w d)"
  shows "rows_done removed ws d (fold f ws d)"
  using assms
proof (induction ws arbitrary: d)
  case (Cons w ws)
  have "rows_done removed [w] d (f w d)" "rows_done removed ws (f w d) (fold f ws (f w d))" using Cons by simp_all
  from rows_done_append [OF this] show ?case by simp
qed (simp add: rows_done_Nil)

lemma finish_done:
  assumes "state \<in> {Deleted, Pending, Expired, Failed}" and "\<And>w. w \<in> set works \<Longrightarrow> state = Deleted \<Longrightarrow> removed (wk_deleteRef w)"
  shows "rows_done removed works d (finishBlockDeleteWork works state code at now d)"
  unfolding finishBlockDeleteWork_def using assms by (intro fold_done finishOne_done)

lemma retry_done: "rows_done removed [w] d (retryOne code at now w d)"
  using finish_done [of Expired "[w]" removed d "''deadline''" 0 now] finish_done [of Pending "[w]" removed d code at now]
  by (auto simp: retryOne_def)

section \<open>A round on a backend\<close>

context file_store
begin

lemma delete_touches:
  assumes "inv b" and "bio_DeleteBlocks bk refs b = (res, b')"
  shows "inv b' \<and> touches blocks owner (set refs) b b'"
  using del_inv [OF assms] del_shrinks [OF assms] del_lost [OF assms] del_only [OF assms] unfolding touches_def by blast

lemma delete_gone:
  assumes "inv b" and "bio_DeleteBlocks bk refs b = (Inr u, b')" and "ref \<in> set refs"
  shows "gone blocks owner b b' ref"
  using del_blocks [OF assms(1,2)] assms(3) by (auto simp: gone_def restrict_map_def)

lemma execute_one:
  assumes inv: "inv b" and "executeBlockDeleteWork bk describe now [w] (d, b) = (d', b')"
  shows "inv b' \<and> touches blocks owner {wk_deleteRef w} b b' \<and> rows_done (gone blocks owner b b') [w] d d'"
proof -
  obtain res b1 where del: "bio_DeleteBlocks bk [wk_deleteRef w] b = (res, b1)" by fastforce
  note facts = delete_touches [OF inv del]
  show ?thesis
  proof (cases res)
    case (Inr u)
    then have "b' = b1" "d' = finishBlockDeleteWork [w] Deleted '''' 0 now d"
      using assms(2) del by (simp_all add: executeBlockDeleteWork.simps)
    moreover have "gone blocks owner b b1 (wk_deleteRef w)" using delete_gone [OF inv] del Inr by simp
    ultimately show ?thesis using facts finish_done [of Deleted "[w]" "gone blocks owner b b1"] by simp
  next
    case (Inl e)
    obtain code retry delay where c: "classifyBlockDeleteError (describe e) (wk_attemptCount w) = (code, retry, delay)"
      by (metis prod_cases3)
    have "b' = b1" "d' = (if retry then retryOne code (now + delay) now w d else finishBlockDeleteWork [w] Failed code 0 now d)"
      using assms(2) del Inl c by (auto simp: executeBlockDeleteWork.simps split: if_splits)
    then show ?thesis
      using facts retry_done [of "gone blocks owner b b1"] finish_done [of Failed "[w]" "gone blocks owner b b1"] by simp
  qed
qed

lemma execute_each:
  "inv b \<Longrightarrow> fold (\<lambda>w. executeBlockDeleteWork bk describe now [w]) ws (d, b) = (d', b') \<Longrightarrow>
     inv b' \<and> touches blocks owner (wk_deleteRef ` set ws) b b' \<and> rows_done (gone blocks owner b b') ws d d'"
proof (induction ws arbitrary: d b)
  case Nil
  then show ?case by (simp add: touches_refl rows_done_Nil)
next
  case (Cons w ws)
  obtain d1 b1 where one: "executeBlockDeleteWork bk describe now [w] (d, b) = (d1, b1)" by fastforce
  note first = execute_one [OF Cons.prems(1) one]
  have "fold (\<lambda>w. executeBlockDeleteWork bk describe now [w]) ws (d1, b1) = (d', b')" using Cons.prems(2) one by simp
  from Cons.IH [OF first [THEN conjunct1] this]
  have rest: "inv b'" "touches blocks owner (wk_deleteRef ` set ws) b1 b'" "rows_done (gone blocks owner b1 b') ws d1 d'" by blast+
  have t: "touches blocks owner {wk_deleteRef w} b b1" "rows_done (gone blocks owner b b1) [w] d d1" using first by blast+
  have "rows_done (gone blocks owner b b') ([w] @ ws) d d'"
    using t(2) rest(3) touches_gone_later [OF _ rest(2)] touches_gone_earlier [OF t(1) rest(2)] by (rule rows_done_append)
  moreover have "touches blocks owner ({wk_deleteRef w} \<union> wk_deleteRef ` set ws) b b'" using t(1) rest(2) by (rule touches_trans)
  ultimately show ?case using rest(1) by simp
qed

lemma execute_ok:
  assumes inv: "inv b" and "executeBlockDeleteWork bk describe now works (d, b) = (d', b')"
  shows "inv b' \<and> touches blocks owner (wk_deleteRef ` set works) b b' \<and> rows_done (gone blocks owner b b') works d d'"
proof -
  obtain res b1 where del: "bio_DeleteBlocks bk (map wk_deleteRef works) b = (res, b1)" by fastforce
  have facts: "inv b1" "touches blocks owner (wk_deleteRef ` set works) b b1" using delete_touches [OF inv del] by simp_all
  show ?thesis
  proof (cases res)
    case (Inr u)
    then have "b' = b1" "d' = finishBlockDeleteWork works Deleted '''' 0 now d"
      using assms(2) del by (simp_all add: executeBlockDeleteWork.simps)
    moreover have "gone blocks owner b b1 (wk_deleteRef w)" if "w \<in> set works" for w using delete_gone [OF inv] del Inr that by simp
    ultimately show ?thesis using facts finish_done [of Deleted works "gone blocks owner b b1"] by simp
  next
    case (Inl e)
    obtain code retry delay where c: "classifyBlockDeleteError (describe e) (wk_attemptCount (hd works)) = (code, retry, delay)"
      by (metis prod_cases3)
    consider "\<not> retry" "1 < length works" | "retry" | "\<not> retry" "\<not> 1 < length works" by blast
    then show ?thesis
    proof cases
      case 1
      then have "fold (\<lambda>w. executeBlockDeleteWork bk describe now [w]) works (d, b1) = (d', b')"
        using assms(2) del Inl c by (simp add: executeBlockDeleteWork.simps [of bk describe now works])
      from execute_each [OF facts(1) this]
      have each: "inv b'" "touches blocks owner (wk_deleteRef ` set works) b1 b'" "rows_done (gone blocks owner b1 b') works d d'" by blast+
      have "touches blocks owner (wk_deleteRef ` set works \<union> wk_deleteRef ` set works) b b'" using facts(2) each(2) by (rule touches_trans)
      moreover have "rows_done (gone blocks owner b b') ([] @ works) d d'"
        using rows_done_Nil each(3) _ touches_gone_earlier [OF facts(2) each(2)] by (rule rows_done_append) simp
      ultimately show ?thesis using each(1) by simp
    next
      case 2
      then have "b' = b1" "d' = fold (retryOne code (now + delay) now) works d"
        using assms(2) del Inl c by (auto simp: executeBlockDeleteWork.simps)
      then show ?thesis using facts fold_done [of works "gone blocks owner b b1"] retry_done by simp
    next
      case 3
      then have "b' = b1" "d' = finishBlockDeleteWork works Failed code 0 now d"
        using assms(2) del Inl c by (auto simp: executeBlockDeleteWork.simps)
      then show ?thesis using facts finish_done [of Failed works "gone blocks owner b b1"] by simp
    qed
  qed
qed

lemma claimed_origin:
  assumes claim: "claimBlockDeleteWork kind now d = (claimed, d1)" and uniq: "blocks_unique d" and c: "c \<in> set claimed"
  shows "\<exists>r\<in>set (deletes d). work_row c r \<and> dr_ref r = wk_deleteRef c \<and> dr_backend r = kind \<and>
    dr_state r \<in> {Pending, Deleting} \<and> now < dr_uploaded_at r + deleteDeadline \<and> \<not> fileHasLiveReference d (dr_file_id r)"
proof -
  note ok = claim_ok [OF claim uniq]
  obtain r1 where r1: "r1 \<in> set (deletes d1)" "work_row c r1" "dr_state r1 = Deleting" "dr_backend r1 = kind" "dr_ref r1 = wk_deleteRef c"
      "dr_uploaded_at r1 = wk_uploadedAt c"
    using ok(4) [OF c] by (auto simp: claimed_row_def)
  obtain rows where rows: "d1 = d\<lparr>deletes := rows\<rparr>" "list_all2 row_evolves (deletes d) rows" using ok(3) by (auto simp: evolves_def)
  then obtain i where i: "i < length rows" "rows ! i = r1" using r1(1) by (auto simp: in_set_conv_nth)
  let ?r = "deletes d ! i"
  have "?r \<in> set (deletes d)" "row_evolves ?r r1" using rows(2) i by (auto simp: list_all2_conv_all_nth)
  then obtain r where r: "r \<in> set (deletes d)" "row_evolves r r1" by blast
  have "dr_state r \<in> {Pending, Deleting}" using r(2) r1(3) by (auto simp: row_evolves_def)
  moreover have "\<not> fileHasLiveReference d (wk_fileID c)" using ok(5) [OF c] evolves_refs [OF ok(3)] by simp
  ultimately show ?thesis
    using r1 r ok(6) [OF c] row_evolves_same [OF r(2)] by (intro bexI [of _ r]) (auto simp: same_block_def work_row_def)
qed

lemma round_ok:
  assumes inv: "inv b" and uniq: "blocks_unique d" and round: "processBlockDeleteBatch bk describe now (d, b) = (d', b')"
  shows "inv b'" and "evolves d d'"
    and "blocks b key = Some data \<Longrightarrow>
      (\<And>r. r \<in> set (deletes d) \<Longrightarrow> owner b (dr_ref r) = Some key \<Longrightarrow> dr_backend r = bio_Name bk \<Longrightarrow> dr_state r \<in> {Pending, Deleting} \<Longrightarrow>
        now < dr_uploaded_at r + deleteDeadline \<Longrightarrow> fileHasLiveReference d (dr_file_id r)) \<Longrightarrow> blocks b' key = Some data"
    and "i < length (deletes d) \<Longrightarrow> dr_state (deletes d ! i) \<noteq> Deleted \<Longrightarrow> dr_state (deletes d' ! i) = Deleted \<Longrightarrow>
      gone blocks owner b b' (dr_ref (deletes d ! i))"
proof -
  obtain claimed d1 where claim: "claimBlockDeleteWork (bio_Name bk) now d = (claimed, d1)" by fastforce
  note ok = claim_ok [OF claim uniq]
  have exec: "inv b' \<and> touches blocks owner (wk_deleteRef ` set claimed) b b' \<and> rows_done (gone blocks owner b b') claimed d1 d'"
  proof (cases "claimed = []")
    case True
    then show ?thesis using round claim inv by (simp add: processBlockDeleteBatch_def touches_refl rows_done_Nil)
  next
    case False
    then show ?thesis using round claim by (intro execute_ok [OF inv]) (simp add: processBlockDeleteBatch_def)
  qed
  then show "inv b'" by blast
  have "evolves d1 d'"
  proof (cases "claimed = []")
    case True
    then show ?thesis using round claim by (simp add: processBlockDeleteBatch_def)
  next
    case False
    then show ?thesis using round claim execute_evolves [of "(d1, b)" bk describe now claimed] by (simp add: processBlockDeleteBatch_def)
  qed
  then show "evolves d d'" using evolves_trans [OF ok(3)] by blast
  show "blocks b' key = Some data" if key: "blocks b key = Some data"
    and safe: "\<And>r. r \<in> set (deletes d) \<Longrightarrow> owner b (dr_ref r) = Some key \<Longrightarrow> dr_backend r = bio_Name bk \<Longrightarrow>
      dr_state r \<in> {Pending, Deleting} \<Longrightarrow> now < dr_uploaded_at r + deleteDeadline \<Longrightarrow> fileHasLiveReference d (dr_file_id r)"
  proof -
    have "\<forall>ref\<in>wk_deleteRef ` set claimed. owner b ref \<noteq> Some key"
    proof
      fix ref assume "ref \<in> wk_deleteRef ` set claimed"
      then obtain c where c: "c \<in> set claimed" "ref = wk_deleteRef c" by blast
      from claimed_origin [OF claim uniq c(1)] show "owner b ref \<noteq> Some key" using safe c(2) by metis
    qed
    then show ?thesis using exec key unfolding touches_def by blast
  qed
  show "gone blocks owner b b' (dr_ref (deletes d ! i))" if i: "i < length (deletes d)" and before: "dr_state (deletes d ! i) \<noteq> Deleted"
    and after: "dr_state (deletes d' ! i) = Deleted"
  proof -
    have len: "length (deletes d1) = length (deletes d)" using evolves_keys [OF ok(3)] by (metis length_map)
    have mid: "dr_state (deletes d1 ! i) \<noteq> Deleted" using claim_work_undeleted [OF claim] i before by (auto simp: undeleted_def list_all2_conv_all_nth)
    have "row_done (gone blocks owner b b') claimed (deletes d1 ! i) (deletes d' ! i)"
      using exec i len by (auto simp: rows_done_def list_all2_conv_all_nth)
    then obtain w where w: "w \<in> set claimed" "work_row w (deletes d1 ! i)" "gone blocks owner b b' (wk_deleteRef w)"
      using mid after by (auto simp: row_done_def split: if_splits)
    obtain r1 where r1: "r1 \<in> set (deletes d1)" "work_row w r1" "dr_ref r1 = wk_deleteRef w" using ok(4) [OF w(1)] by (auto simp: claimed_row_def)
    have "blocks_unique d1" using evolves_unique [OF ok(3)] uniq by simp
    then have "r1 = deletes d1 ! i" using r1(1,2) w(2) i len by (intro unique_by_eq [OF \<open>blocks_unique d1\<close>]) (auto simp: work_row_def)
    moreover have "same_block (deletes d ! i) (deletes d1 ! i)"
      using ok(3) i by (auto simp: evolves_def list_all2_conv_all_nth intro: row_evolves_same)
    ultimately show ?thesis using r1(3) w(3) by (simp add: same_block_def)
  qed
qed

end

section \<open>Properties\<close>

lemma bio_Name_local [simp]: "bio_Name (NewRotateIO (localFileBlockIO n) v) = ''localfile''"
  by (simp add: NewRotateIO_def localFileBlockIO_def)


text \<open>
  C4: A round only moves rows that were pending or being deleted, along the transitions of the
  worker, and changes no other table; and a row it marks as deleted refers to no block that is
  still stored.
\<close>

theorem Worker_marks_deleted:
  assumes "local_inv b" and "keys_ok d"
    and "processBlockDeleteBatch (NewRotateIO (localFileBlockIO n) v) describe now (d, b) = (d', b')"
  shows "evolves d d' \<and>
    (\<forall>i<length (deletes d). dr_state (deletes d ! i) \<noteq> Deleted \<and> dr_state (deletes d' ! i) = Deleted \<longrightarrow>
       (\<forall>key. self_owner (local_blocks b) (dr_ref (deletes d ! i)) = Some key \<longrightarrow> unrotated v (local_blocks b') key = None))"
proof -
  have uniq: "blocks_unique d" using assms(2) by (simp add: keys_ok_def)
  note round = local_files.round_ok(2,4) [OF assms(1) uniq assms(3)]
  show ?thesis using round unfolding gone_def by blast
qed

text \<open>
  C6: What a round claims is safe to delete: at most 100 distinct blocks, each recorded as being
  deleted by this backend with a lease of one minute, before its deadline, and of a file that
  nothing references.
\<close>

theorem Worker_claims_unreferenced:
  assumes "keys_ok d" and "claimBlockDeleteWork kind now d = (claimed, d')"
  shows "length claimed \<le> 100 \<and> distinct (map work_key claimed) \<and>
    (\<forall>c\<in>set claimed. claimed_row kind now d' c \<and> \<not> fileHasLiveReference d' (wk_fileID c) \<and>
       now < wk_uploadedAt c + deleteDeadline)"
proof -
  have "blocks_unique d" using assms(1) by (simp add: keys_ok_def)
  note ok = claim_ok [OF assms(2) this]
  then show ?thesis by blast
qed

definition sample_delete :: "nat \<Rightarrow> string \<Rightarrow> delete_state \<Rightarrow> delete_row" where
  "sample_delete fid ref st =
     \<lparr>dr_file_id = fid, dr_part_id = 0, dr_backend = ''localfile'', dr_ref = ref, dr_uploaded_at = 5, dr_state = st,
      dr_attempts = 0, dr_next_attempt = 0, dr_lease_until = 0, dr_last_attempt = 0, dr_error = '''', dr_deleted_at = 0,
      dr_ctime = 5, dr_mtime = 5\<rparr>"

text \<open>Two stored blocks, of which only the first belongs to a pending file.\<close>

definition two_blocks :: local_state where
  "two_blocks = sample_local\<lparr>lf_files := [(''/data/b0'', [1]), (''/data/b1'', [2])], lf_next := 2\<rparr>"

definition two_files :: db where
  "two_files = empty_db\<lparr>deletes := [sample_delete 7 ''b0'' Pending, sample_delete 8 ''b1'' Live]\<rparr>"

definition plain_error :: "err \<Rightarrow> delete_error" where
  "plain_error e = \<lparr>de_failure = None, de_network = False, de_context = False\<rparr>"

lemma two_blocks_inv: "local_inv two_blocks"
proof -
  have names: "block_name two_blocks (lf_uuid two_blocks 0) = ''/data/b0''" "block_name two_blocks (lf_uuid two_blocks 1) = ''/data/b1''"
    by code_simp+
  have "fst ` set (lf_files two_blocks) \<subseteq> (\<lambda>n. block_name two_blocks (lf_uuid two_blocks n)) ` {..<lf_next two_blocks}"
  proof
    fix name assume "name \<in> fst ` set (lf_files two_blocks)"
    then have "name = ''/data/b0'' \<or> name = ''/data/b1''" by (auto simp: two_blocks_def)
    moreover have "0 \<in> {..<lf_next two_blocks}" "1 \<in> {..<lf_next two_blocks}" by (simp_all add: two_blocks_def)
    ultimately show "name \<in> (\<lambda>n. block_name two_blocks (lf_uuid two_blocks n)) ` {..<lf_next two_blocks}" using names by (metis image_eqI)
  qed
  then show ?thesis using sample_local_inv unfolding local_inv_def by (simp add: two_blocks_def)
qed

lemma two_files_keys: "keys_ok two_files"
  by code_simp


theorem Worker_marks_deleted_witness:
  "\<exists>d' b'. processBlockDeleteBatch (NewRotateIO (localFileBlockIO 2) 0) plain_error 9 (two_files, two_blocks) = (d', b') \<and>
     map dr_state (deletes d') = [Deleted, Live] \<and> evolves two_files d' \<and> local_blocks b' ''b0'' = None"
proof -
  obtain d' b' where round: "processBlockDeleteBatch (NewRotateIO (localFileBlockIO 2) 0) plain_error 9 (two_files, two_blocks) = (d', b')"
    by fastforce
  note marks = Worker_marks_deleted [OF two_blocks_inv two_files_keys round]
  have "map dr_state (deletes (fst (processBlockDeleteBatch (NewRotateIO (localFileBlockIO 2) 0) plain_error 9 (two_files, two_blocks)))) = [Deleted, Live]"
    by code_simp
  then have states: "map dr_state (deletes d') = [Deleted, Live]" unfolding round by simp
  have "dr_state (deletes two_files ! 0) = Pending" "length (deletes two_files) = 2" "dr_ref (deletes two_files ! 0) = ''b0''"
    by (simp_all add: two_files_def sample_delete_def)
  moreover have "dr_state (deletes d' ! 0) = Deleted" using states by (cases "deletes d'") auto
  moreover have "self_owner (local_blocks two_blocks) ''b0'' = Some ''b0''"
  proof -
    have "local_blocks two_blocks ''b0'' = Some [1]" by code_simp
    then show ?thesis by (simp add: self_owner_def)
  qed
  ultimately have "local_blocks b' ''b0'' = None" using marks [THEN conjunct2, THEN spec, of 0] by simp
  then show ?thesis using round states marks [THEN conjunct1] by (intro exI [of _ d'] exI [of _ b'] conjI)
qed

theorem Worker_claims_unreferenced_witness:
  "map work_key (fst (claimBlockDeleteWork ''localfile'' 9 two_files)) = [(7, 0)] \<and>
   length (fst (claimBlockDeleteWork ''localfile'' 9 two_files)) \<le> 100 \<and>
   \<not> fileHasLiveReference (snd (claimBlockDeleteWork ''localfile'' 9 two_files)) 7"
proof -
  let ?c = "claimBlockDeleteWork ''localfile'' 9 two_files"
  have one: "map work_key (fst ?c) = [(7, 0)]" by code_simp
  then obtain c where c: "fst ?c = [c]" "wk_fileID c = 7" by (auto simp: map_eq_Cons_conv)
  have "\<not> fileHasLiveReference (snd ?c) (wk_fileID c)" "length (fst ?c) \<le> 100"
    using Worker_claims_unreferenced [OF two_files_keys prod.collapse [symmetric]] c(1) by auto
  then show ?thesis using one c(2) by simp
qed

end
