(* ===== verification/Published.thy ===== *)
theory Published
  imports Directory_Spec References
begin

text \<open>
  The promise the storage layer makes to its clients: a file that a directory entry names can be
  served, that is, it is ready and none of its blocks is on its way to deletion. This theory says
  what that means for a database, and how directory operations and the marking of unreferenced
  files affect it. The protocol theories use it for their transactions, and \<open>System\<close> for every
  sequence of them.
\<close>

section \<open>Published files\<close>

definition file_refs :: "db \<Rightarrow> string set" where
  "file_refs d = mr_ref_data ` {m \<in> set (mappings d). mr_kind m = KindFile}"

definition linkable :: "db \<Rightarrow> nat \<Rightarrow> bool" where
  "linkable d fileID \<longleftrightarrow> ensureFileTreeCanBeLinked fileID d = Inr ()"

definition serves :: "db \<Rightarrow> string \<Rightarrow> bool" where
  "serves d ref \<longleftrightarrow> (\<exists>fileID. ParseUint ref = Some fileID \<and> ref = format_nat fileID \<and> linkable d fileID)"

definition published :: "db \<Rightarrow> bool" where
  "published d \<longleftrightarrow> (\<forall>ref\<in>file_refs d. serves d ref)"

lemma linkable_unit: "ensureFileTreeCanBeLinked fileID d = Inr u \<longleftrightarrow> linkable d fileID"
  by (simp add: linkable_def)

lemma file_refsI: "m \<in> set (mappings d) \<Longrightarrow> mr_kind m = KindFile \<Longrightarrow> mr_ref_data m \<in> file_refs d"
  by (auto simp: file_refs_def)

lemma publishedD:
  assumes "published d" and "m \<in> set (mappings d)" and "mr_kind m = KindFile"
  shows "\<exists>fileID. ParseUint (mr_ref_data m) = Some fileID \<and> mr_ref_data m = format_nat fileID \<and> linkable d fileID"
  using assms file_refsI unfolding published_def serves_def by blast

section \<open>Directory operations\<close>

text \<open>What the entries refer to, with whether they are files.\<close>

definition entry_refs :: "db \<Rightarrow> (bool \<times> string) set" where
  "entry_refs d = (\<lambda>m. (mr_kind m = KindFile, mr_ref_data m)) ` set (mappings d)"

text \<open>A change of the directory whose files are the old ones and those of \<open>R\<close>; a new directory refers to nothing.\<close>

definition dir_change :: "string set \<Rightarrow> db \<Rightarrow> db \<Rightarrow> bool" where
  "dir_change R d d' \<longleftrightarrow> dir_frame d d' \<and> entry_refs d' \<subseteq> entry_refs d \<union> {True} \<times> R \<union> {(False, '''')}"

lemma file_refs_entry: "file_refs d = {ref. (True, ref) \<in> entry_refs d}"
  by (auto simp: file_refs_def entry_refs_def)

lemma dir_change_refs: "dir_change R d d' \<Longrightarrow> file_refs d' \<subseteq> file_refs d \<union> R"
  by (auto simp: dir_change_def file_refs_entry)

lemma dir_change_refl [simp]: "dir_change R d d"
  by (auto simp: dir_change_def dir_frame_refl)

lemma dir_change_trans: "dir_change R d e \<Longrightarrow> dir_change R e f \<Longrightarrow> dir_change R d f"
  unfolding dir_change_def using dir_frame_trans by blast

lemma dir_change_mono: "dir_change R d e \<Longrightarrow> R \<subseteq> S \<Longrightarrow> dir_change S d e"
  unfolding dir_change_def by blast

lemma entry_refs_record [simp]: "entry_refs (recordChange p k now d) = entry_refs d"
  by (simp add: entry_refs_def)

lemma dir_change_record [simp]: "dir_change R d (recordChange p k now d)"
  by (auto simp: dir_change_def dir_frame_steps)

lemma dir_change_touch [simp]: "dir_change R d (touchEntryID e t d)"
  by (auto simp: dir_change_def dir_frame_def touchEntryID_def entry_refs_def)

lemma dir_change_remove [simp]: "dir_change R d (txRemove p n d)"
  by (auto simp: dir_change_def dir_frame_def txRemove_def entry_refs_def)

lemma dir_change_touchParent: "touchParent p t d = Inr d' \<Longrightarrow> dir_change R d d'"
  by (auto simp: touchParent_def split: sum.splits if_splits option.splits prod.splits)

lemma create_refs:
  assumes "txCreateEntry idfn pid ent d = Inr (eid, d')"
  shows "entry_refs d' = insert (mr_kind ent = KindFile, mr_ref_data ent) (entry_refs d)"
  using assms by (auto simp: txCreateEntry_def Let_def entry_refs_def split: if_splits)

lemma dir_change_create:
  assumes "txCreateEntry idfn pid ent d = Inr (eid, d')" and "mr_kind ent = KindFile \<or> mr_ref_data ent = ''''"
  shows "dir_change (if mr_kind ent = KindFile then {mr_ref_data ent} else {}) d d'"
  using assms dir_frame_create [OF assms(1)] create_refs [OF assms(1)] by (auto simp: dir_change_def)

lemma dir_change_createDir: "txCreateDir idfn now pid name d = Inr (eid, d') \<Longrightarrow> dir_change R d d'"
  unfolding txCreateDir_def by (drule dir_change_create) (auto simp: new_entry_def elim: dir_change_mono)

lemma dir_change_parent:
  assumes "txChangeParent e p n d = Inr d'"
  shows "dir_change R d d'"
  using assms by (auto simp: dir_change_def dir_frame_def txChangeParent_def entry_refs_def split: if_splits)

lemma dir_change_component:
  assumes "txSelectDirComponent idfn now pid name path allow d = Inr (r, d')"
  shows "dir_change R d d'"
proof (cases "txSearchEntry pid name d")
  case None
  with assms obtain eid e where "txCreateDir idfn now pid name d = Inr (eid, e)"
    and d': "d' = (if pid \<noteq> 0 then touchEntryID pid now (recordChange path ChangeCreated now e) else recordChange path ChangeCreated now e)"
    by (auto simp: txSelectDirComponent_def Let_def bind_result_Inr_iff split: if_splits)
  then have "dir_change R d e" using dir_change_createDir by blast
  moreover have "dir_change R e d'"
    using d' dir_change_trans [OF dir_change_record dir_change_touch, of R e] by simp
  ultimately show ?thesis using dir_change_trans by blast
qed (use assms in \<open>simp add: txSelectDirComponent_def\<close>)

lemma dir_change_selectLoop:
  "selectLoop idfn now allow seen xs pid d = Inr (q, d') \<Longrightarrow> dir_change R d d'"
proof (induction xs arbitrary: seen pid d)
  case (Cons x xs)
  then obtain r e where "txSelectDirComponent idfn now pid x (Join (seen @ [x])) allow d = Inr (r, e)"
    and "selectLoop idfn now allow (seen @ [x]) xs (fst r) e = Inr (q, d')"
    by (auto simp: bind_result_Inr_iff split: if_splits)
  then show ?case using Cons.IH dir_change_component dir_change_trans by blast
qed simp

lemma dir_change_select: "txOnSelectDir idfn now dir allow d = Inr (q, d') \<Longrightarrow> dir_change R d d'"
  by (auto simp: txOnSelectDir_def bind_result_Inr_iff intro: dir_change_selectLoop)

lemma dir_change_txCreate:
  assumes "txCreate idfn now p fsize refdata d = Inr (e, d')"
  shows "dir_change {refdata} d d'"
proof -
  obtain dir name where "splitFilename (TrimSuffixSlash p) = (dir, name, False)"
    using assms by (auto simp: txCreate_def Let_def split: prod.splits if_splits)
  with assms obtain q d1 eid d2 where "txOnSelectDir idfn now dir True d = Inr (q, d1)"
    and "txCreateEntry idfn q (new_entry name refdata KindFile fsize defaultEntryFileMode now) d1 = Inr (eid, d2)"
    and "touchParent (TrimSuffixSlash p) now (recordChange (TrimSuffixSlash p) ChangeCreated now d2) = Inr d'"
    by (auto simp: txCreate_def Let_def bind_result_Inr_iff split: if_splits)
  then have "dir_change {refdata} d d1" "dir_change {refdata} d1 d2"
    "dir_change {refdata} (recordChange (TrimSuffixSlash p) ChangeCreated now d2) d'"
    using dir_change_select dir_change_create dir_change_touchParent by (fastforce simp: new_entry_def)+
  then show ?thesis by (meson dir_change_record dir_change_trans)
qed

lemma dir_change_txMkdir:
  assumes "txMkdir idfn now p d = Inr (e, d')"
  shows "dir_change R d d'"
proof -
  obtain parent name where "splitFilename (TrimSuffixSlash p) = (parent, name, False)"
    using assms by (auto simp: txMkdir_def Let_def split: prod.splits if_splits)
  with assms obtain q eid d1 where "txCreateDir idfn now q name d = Inr (eid, d1)"
    and "touchParent (TrimSuffixSlash p) now (recordChange (TrimSuffixSlash p) ChangeCreated now d1) = Inr d'"
    by (auto simp: txMkdir_def Let_def bind_result_Inr_iff split: if_splits sum.splits option.splits)
  then show ?thesis by (meson dir_change_createDir dir_change_record dir_change_touchParent dir_change_trans)
qed

lemma dir_change_dirMkdir:
  assumes "dirMkdir idfn now p d = Inr d'"
  shows "dir_change R d d'"
proof (cases "splitFilename p")
  case (fields dir name isRoot)
  show ?thesis
  proof (cases isRoot)
    case True
    with assms fields obtain ent where root: "txCreateRoot idfn now d = Inr (ent, d')"
      by (auto simp: dirMkdir_def bind_result_Inr_iff)
    show ?thesis
    proof (cases "txGetRoot d")
      case None
      with root obtain eid where
        "txCreateEntry idfn 0 (new_entry ''/'' '''' KindDir 0 defaultEntryFileMode now) d = Inr (eid, d')"
        by (auto simp: txCreateRoot_def bind_result_Inr_iff split: option.splits)
      then show ?thesis using dir_change_create [THEN dir_change_mono, of idfn 0 _ d eid d' R] by (simp add: new_entry_def)
    qed (use root in \<open>simp add: txCreateRoot_def\<close>)
  next
    case False
    with assms fields obtain q d1 where sel: "txOnSelectDir idfn now dir True d = Inr (q, d1)"
      and rest: "txIsEntryExist q name d1 \<and> d' = d1 \<or>
        (\<exists>eid d2. txCreateDir idfn now q name d1 = Inr (eid, d2) \<and>
           d' = touchEntryID q now (recordChange p ChangeCreated now d2))"
      by (auto simp: dirMkdir_def bind_result_Inr_iff Let_def split: if_splits)
    have "dir_change R d1 d'"
      using rest by (metis dir_change_createDir dir_change_record dir_change_refl dir_change_touch dir_change_trans)
    then show ?thesis using dir_change_select [OF sel] dir_change_trans by blast
  qed
qed

lemma txGetEntryInfo_mem:
  assumes "txGetEntryInfo p d = Inr (q, Some e)"
  shows "e \<in> set (mappings d)"
proof -
  have "txSearchEntry i n d = Some e \<Longrightarrow> e \<in> set (mappings d)" for i n
    by (auto simp: txSearchEntry_def find_Some_iff)
  then show ?thesis
    using assms by (auto simp: txGetEntryInfo_def txGetRoot_def bind_result_Inr_iff split: prod.splits if_splits)
qed

lemma dir_change_txReplace:
  assumes "tree_ok (mappings d)" and "txReplace p fsize refdata mtime now d = Inr (e, d')"
  shows "dir_change {refdata} d d'"
proof -
  obtain q where "txGetEntryInfo p d = Inr (q, Some e)" and
    touch: "touchParent p mtime (recordChange p ChangeUpdated now (d\<lparr>mappings := map (\<lambda>m. if mr_entry_id m = mr_entry_id e
      then m\<lparr>mr_ref_data := refdata, mr_size := fsize, mr_mtime := mtime\<rparr> else m) (mappings d)\<rparr>)) = Inr d'"
    using assms by (auto simp: txReplace_def Let_def bind_result_Inr_iff split: option.splits if_splits)
  have e: "e \<in> set (mappings d)" "mr_kind e \<noteq> KindDir" using txGetEntryInfo_mem assms(2) by (auto simp: txReplace_def Let_def bind_result_Inr_iff split: option.splits if_splits)
  have "mr_kind m = KindFile" if "m \<in> set (mappings d)" "mr_entry_id m = mr_entry_id e" for m
    using that e tree_okD(5) [OF assms(1)] unique_by_eq [OF tree_okD(2) [OF assms(1)]] by blast
  then have "dir_change {refdata} d (d\<lparr>mappings := map (\<lambda>m. if mr_entry_id m = mr_entry_id e
      then m\<lparr>mr_ref_data := refdata, mr_size := fsize, mr_mtime := mtime\<rparr> else m) (mappings d)\<rparr>)"
    by (auto simp: dir_change_def dir_frame_def entry_refs_def)
  then show ?thesis using dir_change_touchParent [OF touch] by (meson dir_change_record dir_change_trans)
qed

lemma dir_change_txTouch: "txTouch p mtime now d = Inr d' \<Longrightarrow> dir_change R d d'"
  by (auto simp: txTouch_def bind_result_Inr_iff split: option.splits intro: dir_change_trans [OF dir_change_touch dir_change_record])

lemma dir_change_collect:
  "collectAndRemove n now p e s = Inr s' \<Longrightarrow> dir_change R (snd s) (snd s')"
proof (induction n arbitrary: p e s s')
  case (Suc n)
  then obtain removed d where mid: "(if mr_kind e = KindDir
        then fold_result (\<lambda>child. collectAndRemove n now (Join [p, mr_name child]) child)
               (txListAllDir (mr_entry_id e) (snd s)) s else Inr s) = Inr (removed, d)"
    and s': "s' = (removed @ [e], txRemove (mr_parent e) (mr_name e) (recordChange p ChangeDeleted now d))"
    by (auto simp: collectAndRemove.simps bind_result_Inr_iff)
  have "dir_change R (snd s) d"
  proof (cases "mr_kind e = KindDir")
    case True
    with mid have "fold_result (\<lambda>child. collectAndRemove n now (Join [p, mr_name child]) child)
               (txListAllDir (mr_entry_id e) (snd s)) s = Inr (removed, d)" by simp
    then have "dir_change R (snd s) (snd (removed, d))"
      by (rule fold_result_invariant) (simp, metis Suc.IH dir_change_trans)
    then show ?thesis by simp
  qed (use mid in simp)
  then show ?case unfolding s' snd_conv by (meson dir_change_record dir_change_remove dir_change_trans)
qed simp

lemma dir_change_remove_tree:
  assumes "txRemoveTree now p d = Inr (removed, d')"
  shows "dir_change R d d'"
proof -
  consider "d' = d" | n q e s where "collectAndRemove n now q e ([], d) = Inr s" "touchParent p now (snd s) = Inr d'"
    using assms by (auto simp: txRemoveTree_def bind_result_Inr_iff split: option.splits)
  then show ?thesis
  proof cases
    case 2
    show ?thesis using dir_change_collect [OF 2(1), of R] dir_change_touchParent [OF 2(2), of R] dir_change_trans by simp
  qed simp
qed

lemma dir_change_walk: "recordTreeWalk n kind now p e d = Inr d' \<Longrightarrow> dir_change R d d'"
proof (induction n arbitrary: p e d d')
  case (Suc n)
  let ?d = "recordChange p kind now d"
  have "dir_change R ?d d'"
  proof (cases "mr_kind e = KindDir")
    case True
    with Suc.prems have "fold_result (\<lambda>child. recordTreeWalk n kind now (Join [p, mr_name child]) child)
        (txListAllDir (mr_entry_id e) ?d) ?d = Inr d'" by (simp add: Let_def recordTreeWalk.simps)
    then show ?thesis
      by (rule fold_result_invariant) (simp, metis Suc.IH dir_change_trans)
  qed (use Suc.prems in \<open>simp add: Let_def recordTreeWalk.simps\<close>)
  then show ?case using dir_change_record dir_change_trans by blast
qed simp

lemma dir_change_tree: "recordTreeChanges p kind now d = Inr d' \<Longrightarrow> dir_change R d d'"
  by (auto simp: recordTreeChanges_def bind_result_Inr_iff split: option.splits intro: dir_change_walk)

lemma dir_change_doMove:
  assumes "txDoMove now src dst overwrite d = Inr d'"
  shows "dir_change R d d'"
proof -
  obtain dir dname isRoot where split: "splitFilename dst = (dir, dname, isRoot)" by (cases "splitFilename dst")
  consider "d' = d" | e p where "txChangeParent e p dname d = Inr d'"
    | n q x r e p where "collectAndRemove n now q x ([], d) = Inr r" "txChangeParent e p dname (snd r) = Inr d'"
    using assms unfolding txDoMove_def
    by (auto simp: split bind_result_Inr_iff split: if_splits option.splits) blast
  then show ?thesis
  proof cases
    case 3
    then show ?thesis using dir_change_collect [OF 3(1), of R] dir_change_parent [OF 3(2), of R] dir_change_trans by simp
  qed (use dir_change_parent in auto)
qed

lemma dir_change_txMove:
  assumes "txMove now src dst overwrite d = Inr (overwritten, d')"
  shows "dir_change R d d'"
proof -
  consider "d' = d" | d1 d2 d3 d4 where "recordTreeChanges src ChangeDeleted now d = Inr d1"
    "txDoMove now src dst overwrite d1 = Inr d2" "recordTreeChanges dst ChangeCreated now d2 = Inr d3"
    "touchParent src now d3 = Inr d4" "touchParent dst now d4 = Inr d'"
    using assms unfolding txMove_def by (auto simp: bind_result_Inr_iff split: if_splits)
  then show ?thesis
  proof cases
    case 2
    then show ?thesis by (meson dir_change_tree dir_change_doMove dir_change_touchParent dir_change_trans)
  qed simp
qed

lemma dir_change_copyIter:
  assumes "txDoIterAndCopy n idfn now e pid p c recursive d = Inr d'"
    and "(mr_kind e = KindFile, mr_ref_data e) \<in> S" and "entry_refs d \<subseteq> S"
  shows "dir_frame d d' \<and> entry_refs d' \<subseteq> S"
  using assms
proof (induction n arbitrary: e pid p c recursive d d')
  case (Suc n)
  from Suc.prems(1) obtain eid d1 where
    new: "txCreateEntry idfn pid (new_entry c (mr_ref_data e) (mr_kind e) (mr_size e) (mr_mode e) now) d = Inr (eid, d1)"
    and rest: "(if mr_kind e = KindFile \<or> \<not> recursive then Inr (recordChange p ChangeCreated now d1)
         else fold_result (\<lambda>item. txDoIterAndCopy n idfn now item eid (Join [p, mr_name item]) (mr_name item) True)
            (txListAllDir (mr_entry_id e) (recordChange p ChangeCreated now d1)) (recordChange p ChangeCreated now d1)) = Inr d'"
    by (auto simp: txDoIterAndCopy.simps bind_result_Inr_iff Let_def)
  let ?d = "recordChange p ChangeCreated now d1"
  have d1: "dir_frame d ?d \<and> entry_refs ?d \<subseteq> S"
    using create_refs [OF new] dir_frame_create [OF new] dir_change_record [of "{}" d1] Suc.prems(2,3) dir_frame_trans
    by (fastforce simp: dir_change_def new_entry_def)
  show ?case
  proof (cases "mr_kind e = KindFile \<or> \<not> recursive")
    case False
    with rest have fold: "fold_result (\<lambda>item. txDoIterAndCopy n idfn now item eid (Join [p, mr_name item]) (mr_name item) True)
            (txListAllDir (mr_entry_id e) ?d) ?d = Inr d'" by simp
    have "(mr_kind x = KindFile, mr_ref_data x) \<in> S" if "x \<in> set (txListAllDir (mr_entry_id e) ?d)" for x
      using that d1 by (auto simp: txListAllDir_children set_children_of entry_refs_def)
    note items = this
    from fold d1 show ?thesis
    proof (rule fold_result_invariant [where P = "\<lambda>t. dir_frame d t \<and> entry_refs t \<subseteq> S"])
      fix x u v
      assume "x \<in> set (txListAllDir (mr_entry_id e) ?d)" and "dir_frame d u \<and> entry_refs u \<subseteq> S"
        and "txDoIterAndCopy n idfn now x eid (Join [p, mr_name x]) (mr_name x) True u = Inr v"
      then show "dir_frame d v \<and> entry_refs v \<subseteq> S"
        using Suc.IH [of x eid "Join [p, mr_name x]" "mr_name x" True u v] items dir_frame_trans by blast
    qed
  qed (use rest d1 in simp)
qed simp

lemma dir_change_doCopy:
  assumes "txDoCopyDepth idfn now src dst overwrite recursive d = Inr d'"
  shows "dir_change R d d'"
proof (cases "precheckMoveCopy src dst = Inr True")
  case False
  then show ?thesis using assms by (cases "precheckMoveCopy src dst") (auto simp: txDoCopyDepth_def)
next
  case True
  obtain dir dname isRoot where split: "splitFilename dst = (dir, dname, isRoot)" by (cases "splitFilename dst")
  let ?clear = "\<lambda>x. case x of None \<Rightarrow> Inr d
      | Some dinfo \<Rightarrow> if \<not> overwrite then Inl ErrDestinationExists
          else bind_result (collectAndRemove (length (mappings d) + 1) now (Clean dst) dinfo ([], d)) (\<lambda>(removed, d). Inr d)"
  obtain q e where src: "txGetEntryInfo src d = Inr (q, Some e)"
    using assms True by (cases "txGetEntryInfo src d") (auto simp: txDoCopyDepth_def split: option.splits)
  obtain pid x where dst: "txGetEntryInfo dst d = Inr (pid, x)" and "\<not> isRoot"
    using assms True src
    by (cases isRoot; cases "txGetEntryInfo dst d") (auto simp: txDoCopyDepth_def split)
  then have "bind_result (?clear x) (\<lambda>d1. bind_result (txDoIterAndCopy (length (mappings d1) + 1) idfn now e pid
      (Clean dst) dname recursive d1) (touchParent dst now)) = Inr d'"
    using assms True src by (simp add: txDoCopyDepth_def split)
  then obtain d1 d2 where clear: "?clear x = Inr d1"
    and copy: "txDoIterAndCopy (length (mappings d1) + 1) idfn now e pid (Clean dst) dname recursive d1 = Inr d2"
    and touch: "touchParent dst now d2 = Inr d'"
    by (blast elim: bind_result_InrE)
  have d1: "dir_change R d d1"
    using clear dir_change_collect [where R = R] by (fastforce simp: bind_result_Inr_iff split: option.splits if_splits)
  have "(mr_kind e = KindFile, mr_ref_data e) \<in> entry_refs d \<union> {True} \<times> R \<union> {(False, '''')}"
    using txGetEntryInfo_mem [OF src] by (auto simp: entry_refs_def)
  from dir_change_copyIter [OF copy this] d1 have "dir_change R d d2"
    unfolding dir_change_def using dir_frame_trans by blast
  then show ?thesis using dir_change_touchParent [OF touch] dir_change_trans by blast
qed

lemma dir_change_txCopy:
  assumes "txCopyDepth idfn now src dst overwrite recursive d = Inr (r, d')"
  shows "dir_change R d d'"
proof -
  have "d' = d \<or> txDoCopyDepth idfn now src dst overwrite recursive d = Inr d'"
    using assms unfolding txCopyDepth_def by (auto simp: bind_result_Inr_iff split: if_splits option.splits)
  then show ?thesis using dir_change_doCopy by auto
qed

lemmas dir_changes = dir_change_txCreate dir_change_txMkdir dir_change_dirMkdir dir_change_txReplace dir_change_txTouch
  dir_change_remove_tree dir_change_txMove dir_change_txCopy

section \<open>What a published file depends on\<close>

text \<open>
  Whether a file can be linked depends on four tables, and there only on the file itself and on
  the sources of its manifest.
\<close>

definition needs :: "db \<Rightarrow> nat \<Rightarrow> nat set" where
  "needs d fileID = {fileID} \<union> set (compositeSourceFileIDs fileID d)"

definition agree_on :: "nat set \<Rightarrow> db \<Rightarrow> db \<Rightarrow> bool" where
  "agree_on F d d' \<longleftrightarrow>
     (\<forall>f\<in>F. (\<forall>r. readStoredFile f d = Some r \<longrightarrow>
               (\<exists>r'. readStoredFile f d' = Some r' \<and> fr_file_id r' = fr_file_id r \<and> fr_state r' = fr_state r \<and> fr_layout r' = fr_layout r \<and>
                     fr_size r' = fr_size r \<and> fr_part_count r' = fr_part_count r)) \<and>
            filter (\<lambda>p. pr_file_id p = f) (parts d') = filter (\<lambda>p. pr_file_id p = f) (parts d) \<and>
            filter (\<lambda>r. dr_file_id r = f) (deletes d') = filter (\<lambda>r. dr_file_id r = f) (deletes d))"

lemma physical_live_cong:
  assumes "filter (\<lambda>r. dr_file_id r = f) (deletes d') = filter (\<lambda>r. dr_file_id r = f) (deletes d)"
  shows "ensurePhysicalFileLive f d' = ensurePhysicalFileLive f d"
proof -
  have rows: "(\<exists>r\<in>set xs. dr_file_id r = f \<and> dr_state r \<noteq> Live) \<longleftrightarrow> (\<exists>r\<in>set (filter (\<lambda>r. dr_file_id r = f) xs). dr_state r \<noteq> Live)" for xs
    by auto
  show ?thesis unfolding ensurePhysicalFileLive_def rows [of "deletes d'"] rows [of "deletes d"] assms ..
qed

lemma agree_live: "agree_on F d d' \<Longrightarrow> f \<in> F \<Longrightarrow> ensurePhysicalFileLive f d' = ensurePhysicalFileLive f d"
  by (rule physical_live_cong) (simp add: agree_on_def)

lemma live_states_filter:
  "pr_file_id p = f \<Longrightarrow> live_states p d = filter (\<lambda>r. dr_part_id r = pr_part_id p \<and> dr_state r = Live) (filter (\<lambda>r. dr_file_id r = f) (deletes d))"
  by (auto simp: live_states_def intro!: filter_cong)

lemma complete_cong:
  assumes agree: "agree_on F d d'" and f: "f \<in> F" and ok: "ensurePhysicalFileDeletionRefsComplete f d = Inr ()"
  shows "ensurePhysicalFileDeletionRefsComplete f d' = Inr ()"
proof -
  obtain r where r: "readStoredFile f d = Some r"
    using ok by (auto simp: ensurePhysicalFileDeletionRefsComplete_def split: option.splits)
  then obtain r' where r': "readStoredFile f d' = Some r'" "fr_part_count r' = fr_part_count r"
    using agree f by (auto simp: agree_on_def)
  have parts: "filter (\<lambda>p. pr_file_id p = f) (parts d') = filter (\<lambda>p. pr_file_id p = f) (parts d)"
    and dels: "filter (\<lambda>r. dr_file_id r = f) (deletes d') = filter (\<lambda>r. dr_file_id r = f) (deletes d)"
    using agree f by (auto simp: agree_on_def)
  have "live_states p d' = live_states p d" if "p \<in> set (filter (\<lambda>p. pr_file_id p = f) (parts d))" for p
  proof -
    have f: "pr_file_id p = f" using that by simp
    show ?thesis unfolding live_states_filter [OF f] dels ..
  qed
  then have "map (\<lambda>p. g (length (live_states p d'))) (filter (\<lambda>p. pr_file_id p = f) (parts d)) =
      map (\<lambda>p. g (length (live_states p d))) (filter (\<lambda>p. pr_file_id p = f) (parts d))" for g :: "nat \<Rightarrow> int"
    by (auto intro!: map_cong)
  note sums = this [of "\<lambda>n. max 1 (int n)"] this [of int]
  show ?thesis
    using ok unfolding ensurePhysicalFileDeletionRefsComplete_def r r'(1) option.case parts Let_def r'(2) sums .
qed

lemma composite_cong:
  assumes agree: "agree_on F d d'"
  shows "set (map sr_source segs) \<subseteq> F \<Longrightarrow> ensureCompositeLoop d n i s segs = Inr () \<Longrightarrow> ensureCompositeLoop d' n i s segs = Inr ()"
proof (induction segs arbitrary: i s)
  case Nil
  then show ?case by simp
next
  case (Cons g segs)
  let ?f = "sr_source g"
  from Cons.prems have valid: "validStoredCompositeSegment g (readStoredFile ?f d) i s n"
    and live: "ensurePhysicalFileLive ?f d = Inr ()" and compl: "ensurePhysicalFileDeletionRefsComplete ?f d = Inr ()"
    and rest: "ensureCompositeLoop d n (i + 1) (s + sr_size g) segs = Inr ()"
    by (auto simp: bind_result_Inr_iff split: if_splits)
  have f: "?f \<in> F" using Cons.prems by simp
  obtain r where r: "readStoredFile ?f d = Some r" using valid by (auto simp: validStoredCompositeSegment_def split: option.splits)
  then obtain r' where "readStoredFile ?f d' = Some r'" "fr_state r' = fr_state r" "fr_layout r' = fr_layout r" "fr_size r' = fr_size r"
    using agree f by (auto simp: agree_on_def)
  then have "validStoredCompositeSegment g (readStoredFile ?f d') i s n" using valid r by (simp add: validStoredCompositeSegment_def)
  moreover have "ensurePhysicalFileLive ?f d' = Inr ()"
    using live agree_live [OF agree f] by simp
  ultimately show ?case
    using Cons.IH [OF _ rest] Cons.prems(1) complete_cong [OF agree f compl] by simp
qed

lemma linkable_agree:
  assumes link: "linkable d fileID" and agree: "agree_on (needs d fileID) d d'"
    and man: "manifest fileID d' = manifest fileID d"
  shows "linkable d' fileID"
proof -
  obtain r where r: "readStoredFile fileID d = Some r" "fr_state r = FileStateReady"
    using link by (auto simp: linkable_def ensureFileTreeCanBeLinked_def split: option.splits if_splits)
  have me: "fileID \<in> needs d fileID" by (simp add: needs_def)
  obtain r' where r': "readStoredFile fileID d' = Some r'" "fr_file_id r' = fr_file_id r" "fr_state r' = fr_state r" "fr_layout r' = fr_layout r" "fr_size r' = fr_size r"
    using agree me r(1) by (auto simp: agree_on_def)
  show ?thesis
  proof (cases "fr_layout r = 2")
    case True
    have "ensureCompositeLoop d (fr_size r) 0 0 (manifest fileID d) = Inr ()"
      using link r True readStoredFile_Some [OF r(1)] by (simp add: linkable_def ensureFileTreeCanBeLinked_def ensureCompositeFileLive_def)
    then have "ensureCompositeLoop d' (fr_size r) 0 0 (manifest fileID d) = Inr ()"
      by (rule composite_cong [OF agree, rotated]) (auto simp: needs_def compositeSourceFileIDs_def)
    then show ?thesis
      using r r' True man readStoredFile_Some [OF r'(1)] by (simp add: linkable_def ensureFileTreeCanBeLinked_def ensureCompositeFileLive_def)
  next
    case False
    then have "fr_layout r = 1" "ensurePhysicalFileLive fileID d = Inr ()"
      using link r by (auto simp: linkable_def ensureFileTreeCanBeLinked_def split: if_splits)
    moreover have "ensurePhysicalFileLive fileID d' = ensurePhysicalFileLive fileID d"
      using agree_live [OF agree me] .
    ultimately show ?thesis using r r' by (simp add: linkable_def ensureFileTreeCanBeLinked_def)
  qed
qed

lemma agree_on_deletes:
  assumes "\<And>f. f \<in> F \<Longrightarrow> filter (\<lambda>r. dr_file_id r = f) rows = filter (\<lambda>r. dr_file_id r = f) (deletes d)"
  shows "agree_on F d (d\<lparr>deletes := rows\<rparr>)"
  using assms by (simp add: agree_on_def)

text \<open>Every file a published file needs has a live reference.\<close>

lemma needs_referenced:
  assumes "format_nat fileID \<in> file_refs d" and "f \<in> needs d fileID"
  shows "fileHasLiveReference d f"
proof -
  obtain m where m: "m \<in> set (mappings d)" "mr_ref_data m = format_nat fileID" using assms(1) by (auto simp: file_refs_def)
  have "f = fileID \<or> (\<exists>s\<in>set (segments d). sr_source s = f \<and> sr_file_id s = fileID)"
    using assms(2) by (auto simp: needs_def compositeSourceFileIDs_def manifest_def)
  then show ?thesis
  proof
    assume "f = fileID"
    then show ?thesis using m unfolding fileHasLiveReference_def by blast
  next
    assume "\<exists>s\<in>set (segments d). sr_source s = f \<and> sr_file_id s = fileID"
    then obtain s where "s \<in> set (segments d)" "sr_source s = f" "sr_file_id s = fileID" by blast
    then have "\<exists>s\<in>set (segments d). sr_source s = f \<and> (\<exists>m\<in>set (mappings d). mr_ref_data m = format_nat (sr_file_id s))"
      using m by (intro bexI [of _ s] conjI bexI [of _ m]) simp_all
    then show ?thesis unfolding fileHasLiveReference_def by blast
  qed
qed

section \<open>Preserving the promise\<close>

lemma linkable_frame: "dir_frame d d' \<Longrightarrow> linkable d' fileID = linkable d fileID"
proof -
  assume frame: "dir_frame d d'"
  have eq: "files d' = files d" "parts d' = parts d" "deletes d' = deletes d" "segments d' = segments d"
    using arg_cong [OF frame [unfolded dir_frame_def], of files] arg_cong [OF frame [unfolded dir_frame_def], of parts]
      arg_cong [OF frame [unfolded dir_frame_def], of deletes] arg_cong [OF frame [unfolded dir_frame_def], of segments] by simp_all
  have "agree_on F d d' \<and> agree_on F d' d" for F by (simp add: agree_on_def eq readStoredFile_def)
  moreover have "manifest fileID d' = manifest fileID d" by (simp add: manifest_def eq)
  ultimately show ?thesis using linkable_agree by metis
qed

lemma published_change:
  assumes "published d" and "dir_change R d d'" and "\<And>ref. ref \<in> R \<Longrightarrow> serves d ref"
  shows "published d'"
proof -
  have "serves d' ref = serves d ref" for ref
    using assms(2) linkable_frame unfolding serves_def dir_change_def by blast
  then show ?thesis using assms(1,3) dir_change_refs [OF assms(2)] unfolding published_def by blast
qed

text \<open>Marking a file tree only touches files without a live reference.\<close>

lemma markTree_pend:
  "markTree n f now d = Inr d' \<Longrightarrow> \<exists>F. d' = pend F now d \<and> (\<forall>g\<in>F. \<not> fileHasLiveReference d g)"
proof (induction n arbitrary: f d d')
  case (Suc n)
  show ?case
  proof (cases "fileHasLiveReference d f")
    case True
    then show ?thesis using Suc.prems by (intro exI [of _ "{}"]) (simp add: markTree.simps(2))
  next
    case False
    then obtain r where "readStoredFile f d = Some r" and
      "fr_layout r = 1 \<and> d' = markPhysicalPending f now d \<or>
       fold_result (\<lambda>source. markTree n source now) (compositeSourceFileIDs f d) d = Inr d'"
      using Suc.prems by (auto simp: markTree.simps(2) split: option.splits if_splits)
    then consider "d' = markPhysicalPending f now d"
      | "fold_result (\<lambda>source. markTree n source now) (compositeSourceFileIDs f d) d = Inr d'" by blast
    then show ?thesis
    proof cases
      case 1
      then show ?thesis using False by (intro exI [of _ "{f}"]) (simp add: markPhysicalPending_pend)
    next
      case 2
      have "\<exists>F. d = pend F now d \<and> (\<forall>g\<in>F. \<not> fileHasLiveReference d g)" by (intro exI [of _ "{}"]) simp
      from 2 this show ?thesis
      proof (rule fold_result_invariant [where P = "\<lambda>t. \<exists>F. t = pend F now d \<and> (\<forall>g\<in>F. \<not> fileHasLiveReference d g)"])
        fix x u v
        assume mark: "markTree n x now u = Inr v" and "\<exists>F. u = pend F now d \<and> (\<forall>g\<in>F. \<not> fileHasLiveReference d g)"
        then obtain F where F: "u = pend F now d" "\<forall>g\<in>F. \<not> fileHasLiveReference d g" by blast
        obtain G where G: "v = pend G now u" "\<forall>g\<in>G. \<not> fileHasLiveReference u g" using Suc.IH [OF mark] by blast
        show "\<exists>F. v = pend F now d \<and> (\<forall>g\<in>F. \<not> fileHasLiveReference d g)"
          using F G by (intro exI [of _ "G \<union> F"]) (auto simp: pend_pend)
      qed
    qed
  qed
qed simp

lemma mark_pend:
  assumes "markFileTreePendingIfUnreferenced fileID now d = Inr d'"
  obtains F where "d' = pend F now d" and "\<forall>f\<in>F. \<not> fileHasLiveReference d f"
  using markTree_pend assms unfolding markFileTreePendingIfUnreferenced_def by blast

lemma pend_agree:
  assumes "\<And>f. f \<in> F \<Longrightarrow> f \<notin> G"
  shows "agree_on F d (pend G now d)"
proof -
  have "filter (\<lambda>r. dr_file_id r = f) (map (\<lambda>r. if dr_file_id r \<in> G \<and> dr_state r = Live
        then r\<lparr>dr_state := Pending, dr_next_attempt := now, dr_lease_until := 0, dr_mtime := now\<rparr>
        else r) rs) = filter (\<lambda>r. dr_file_id r = f) rs" if "f \<in> F" for f rs
    using assms [OF that] by (induction rs) auto
  then show ?thesis unfolding pend_def by (intro agree_on_deletes) blast
qed

lemma published_pend:
  assumes "published d" and "\<forall>f\<in>F. \<not> fileHasLiveReference d f"
  shows "published (pend F now d)"
  unfolding published_def
proof
  fix ref assume "ref \<in> file_refs (pend F now d)"
  then have ref: "ref \<in> file_refs d" by (simp add: file_refs_def pend_def)
  then obtain f where f: "ParseUint ref = Some f" "ref = format_nat f" "linkable d f"
    using assms(1) by (auto simp: published_def serves_def)
  have "agree_on (needs d f) d (pend F now d)"
    using needs_referenced [of f d] ref f(2) assms(2) by (intro pend_agree) blast
  moreover have "manifest f (pend F now d) = manifest f d" by (simp add: pend_def)
  ultimately have "linkable (pend F now d) f" using linkable_agree f(3) by blast
  then show "serves (pend F now d) ref" using f(1,2) by (auto simp: serves_def)
qed

lemma published_mark:
  assumes "published d" and "markFileTreePendingIfUnreferenced fileID now d = Inr d'"
  shows "published d'"
  by (rule mark_pend [OF assms(2)]) (simp add: published_pend assms(1))

text \<open>Tables that neither the directory nor the references depend on.\<close>

lemma linkable_tables:
  assumes "files e = files d" "parts e = parts d" "deletes e = deletes d" "segments e = segments d"
  shows "linkable e f = linkable d f"
proof -
  have "agree_on F d e \<and> agree_on F e d" for F by (simp add: agree_on_def assms readStoredFile_def)
  moreover have "manifest f e = manifest f d" for f by (simp add: manifest_def assms)
  ultimately show ?thesis using linkable_agree by metis
qed

lemma published_same:
  assumes "files e = files d" "parts e = parts d" "deletes e = deletes d" "segments e = segments d" "mappings e = mappings d"
  shows "published e = published d"
  using linkable_tables [OF assms(1-4)] by (simp add: published_def serves_def file_refs_def assms(5))

lemma published_tables [simp]:
  "published (d\<lparr>metas := a\<rparr>) = published d" "published (d\<lparr>props := b\<rparr>) = published d"
  "published (d\<lparr>locks := c\<rparr>) = published d" "published (d\<lparr>uploads := u\<rparr>) = published d"
  "published (d\<lparr>mparts := v\<rparr>) = published d" "published (d\<lparr>completed := w\<rparr>) = published d"
  "published (d\<lparr>pins := n\<rparr>) = published d" "published (d\<lparr>id_seq := i\<rparr>) = published d"
  by (rule published_same; simp)+

end
