(* ===== verification/Sql_Lib.thy ===== *)
theory Sql_Lib
  imports Go_Path
begin

text \<open>
  The text functions of SQLite that the queries use, on UTF-8 encoded strings as lists of bytes.
  SQLite counts code points where Go counts bytes, and its \<open>LIKE\<close> folds the case of ASCII
  letters; both differences matter to the callers. The last definition is the source's own
  \<open>escapeSQLiteLike\<close>.
\<close>

section \<open>Code points\<close>

text \<open>One code point: the first byte, and the continuation bytes if it is a lead byte.\<close>

definition skip_utf8 :: "string \<Rightarrow> string" where
  "skip_utf8 s =
     (case s of
        [] \<Rightarrow> []
      | c # cs \<Rightarrow>
          if (of_char c :: nat) \<ge> 192
          then dropWhile (\<lambda>b. 128 \<le> (of_char b :: nat) \<and> (of_char b :: nat) < 192) cs
          else cs)"

lemma length_skip_utf8 [termination_simp]: "length (skip_utf8 (c # cs)) < Suc (length cs)"
  by (simp add: skip_utf8_def le_imp_less_Suc length_dropWhile_le)

primrec sql_drop :: "nat \<Rightarrow> string \<Rightarrow> string" where
  "sql_drop 0 s = s"
| "sql_drop (Suc n) s = sql_drop n (skip_utf8 s)"

text \<open>\<open>substr(s, n)\<close> for \<open>n \<ge> 1\<close>, \<open>substr(s, 1, n)\<close>, \<open>length(s)\<close> and \<open>instr(s, c)\<close>.\<close>

definition sql_substr :: "string \<Rightarrow> nat \<Rightarrow> string" where
  "sql_substr s n = sql_drop (n - 1) s"

definition sql_left :: "string \<Rightarrow> nat \<Rightarrow> string" where
  "sql_left s n = take (length s - length (sql_drop n s)) s"

fun sql_length :: "string \<Rightarrow> nat" where
  "sql_length [] = 0"
| "sql_length (c # cs) = Suc (sql_length (skip_utf8 (c # cs)))"

definition sql_instr :: "string \<Rightarrow> char \<Rightarrow> nat" where
  "sql_instr s c = (if c \<in> set s then Suc (sql_length (takeWhile (\<lambda>b. b \<noteq> c) s)) else 0)"

definition ascii :: "string \<Rightarrow> bool" where
  "ascii s \<longleftrightarrow> (\<forall>c\<in>set s. (of_char c :: nat) < 128)"

lemma ascii_simps [simp]:
  "ascii []" "ascii (c # s) \<longleftrightarrow> (of_char c :: nat) < 128 \<and> ascii s" "ascii (s @ t) \<longleftrightarrow> ascii s \<and> ascii t"
  by (auto simp: ascii_def)

lemma skip_utf8_ascii: "(of_char c :: nat) < 128 \<Longrightarrow> skip_utf8 (c # cs) = cs"
  by (simp add: skip_utf8_def)

lemma skip_utf8_Nil [simp]: "skip_utf8 [] = []"
  by (simp add: skip_utf8_def)

lemma sql_drop_Nil [simp]: "sql_drop n [] = []"
  by (induction n) auto

lemma sql_drop_ascii: "ascii s \<Longrightarrow> sql_drop (length s) (s @ t) = t"
  by (induction s) (auto simp: skip_utf8_ascii)

lemma sql_length_ascii: "ascii s \<Longrightarrow> sql_length s = length s"
  by (induction s) (auto simp: skip_utf8_ascii)

section \<open>LIKE\<close>

text \<open>
  \<open>like esc p s\<close> is \<open>s LIKE p\<close>, with \<open>ESCAPE c\<close> when \<open>esc = Some c\<close>: \<open>%\<close>
  matches any run of code points, \<open>_\<close> one of them, an escaped byte itself, and every other byte
  itself up to the case of ASCII letters.
\<close>

function like :: "char option \<Rightarrow> string \<Rightarrow> string \<Rightarrow> bool" where
  "like esc [] s = (s = [])"
| "like esc (p # ps) s =
     (if esc = Some p then
        (case (ps, s) of (q # qs, c # cs) \<Rightarrow> lower_char c = lower_char q \<and> like esc qs cs | _ \<Rightarrow> False)
      else if p = CHR ''%'' then
        like esc ps s \<or> (if s = [] then False else like esc (p # ps) (skip_utf8 s))
      else if p = CHR ''_'' then (if s = [] then False else like esc ps (skip_utf8 s))
      else (case s of [] \<Rightarrow> False | c # cs \<Rightarrow> lower_char c = lower_char p \<and> like esc ps cs))"
  by pat_completeness auto
termination
  by (relation "measure (\<lambda>(esc, p, s). length p + length s)")
     (auto simp: neq_Nil_conv length_skip_utf8 less_SucI)

lemma like_byte:
  assumes "esc \<noteq> Some p" and "p \<noteq> CHR ''%''" and "p \<noteq> CHR ''_''"
  shows "like esc (p # ps) s \<longleftrightarrow> (\<exists>c cs. s = c # cs \<and> lower_char c = lower_char p \<and> like esc ps cs)"
  using assms by (cases s) (simp_all add: like.simps(2))

lemma like_escape:
  "like (Some e) (e # p # ps) s \<longleftrightarrow> (\<exists>c cs. s = c # cs \<and> lower_char c = lower_char p \<and> like (Some e) ps cs)"
  by (cases s) (simp_all add: like.simps(2))

declare like.simps(2) [simp del]

definition escapeSQLiteLike :: "string \<Rightarrow> string" where
  "escapeSQLiteLike value =
     concat (map (\<lambda>c. if c = CHR 0x5C then [CHR 0x5C, CHR 0x5C]
                      else if c = CHR ''%'' then [CHR 0x5C, CHR ''%'']
                      else if c = CHR ''_'' then [CHR 0x5C, CHR ''_''] else [c]) value)"

abbreviation backslash :: "char option" where "backslash \<equiv> Some (CHR 0x5C)"

text \<open>Equality up to the case of ASCII letters, and the prefix relation it gives.\<close>

definition starts_fold :: "string \<Rightarrow> string \<Rightarrow> bool" where
  "starts_fold v s \<longleftrightarrow> length v \<le> length s \<and> map lower_char (take (length v) s) = map lower_char v"

lemma starts_fold_Nil [simp]: "starts_fold [] s"
  by (simp add: starts_fold_def)

lemma starts_fold_Cons:
  "starts_fold (v # vs) s \<longleftrightarrow> (\<exists>c cs. s = c # cs \<and> lower_char c = lower_char v \<and> starts_fold vs cs)"
  by (cases s) (auto simp: starts_fold_def)

lemma starts_fold_prefix: "starts_fold v (v @ s)"
  by (simp add: starts_fold_def)

lemma like_any: "esc \<noteq> Some (CHR ''%'') \<Longrightarrow> like esc ''%'' s"
proof (induction s rule: length_induct)
  case (1 s)
  show ?case
  proof (cases s)
    case Nil
    then show ?thesis using "1.prems" by (simp add: like.simps(2))
  next
    case (Cons c cs)
    then have "length (skip_utf8 s) < length s" using length_skip_utf8 by simp
    then have "like esc ''%'' (skip_utf8 s)" using 1 by blast
    then show ?thesis using "1.prems" Cons by (subst like.simps(2)) simp
  qed
qed

lemma like_escaped: "like backslash (escapeSQLiteLike v @ ''%'') s \<longleftrightarrow> starts_fold v s"
proof (induction v arbitrary: s)
  case Nil
  then show ?case by (simp add: escapeSQLiteLike_def like_any)
next
  case (Cons c v)
  have "escapeSQLiteLike (c # v) = (if c \<in> {CHR 0x5C, CHR ''%'', CHR ''_''} then [CHR 0x5C, c] else [c]) @ escapeSQLiteLike v"
    by (simp add: escapeSQLiteLike_def)
  then show ?case
    using like_byte [of backslash c "escapeSQLiteLike v @ ''%''" s]
    by (simp add: like_escape starts_fold_Cons Cons.IH eq_commute [of _ c])
qed

text \<open>A pattern built from a text that is not escaped means the same only without wildcards.\<close>

lemma like_plain:
  assumes "CHR ''%'' \<notin> set v" and "CHR ''_'' \<notin> set v"
  shows "like None (v @ ''%'') s \<longleftrightarrow> starts_fold v s"
  using assms
proof (induction v arbitrary: s)
  case Nil
  then show ?case by (simp add: like_any)
next
  case (Cons c v)
  then show ?case using like_byte [of None c "v @ ''%''" s] by (simp add: starts_fold_Cons eq_commute [of _ c])
qed

end
