(* ===== verification/Mapping_Mutation.thy ===== *)
theory Mapping_Mutation
  imports Published Sql_Lib
begin

text \<open>
  Mutations of the directory that carry the protocol state of the entries along
  (\<^verbatim>\<open>filemgr/webdav_mutation.go\<close> and the helpers at the end of
  \<^verbatim>\<open>filemgr/webdav_protocol.go\<close>): the S3 metadata, the WebDAV properties and the WebDAV locks of
  an entry are dropped, copied or handed over together with it, and the files that lose their last
  reference are marked for deletion. Each operation is one transaction.
\<close>

section \<open>Links\<close>

record FileLinkMeta =
  lk_EntryID :: nat
  lk_FileName :: string
  lk_FileId :: nat
  lk_FileSize :: int
  lk_Mode :: nat
  lk_Ctime :: int
  lk_Mtime :: int
  lk_IsDir :: bool

text \<open>The errors of \<open>strconv.ParseUint\<close> are not told apart by the callers.\<close>

definition parse_file_id :: "string \<Rightarrow> nat result" where
  "parse_file_id s = (case ParseUint s of None \<Rightarrow> Inl ErrSyntax | Some n \<Rightarrow> Inr n)"

text \<open>A link as a directory entry; it has no parent and no row number.\<close>

definition linkDirectoryEntry :: "FileLinkMeta \<Rightarrow> mapping_row" where
  "linkDirectoryEntry link =
     \<lparr>mr_id = 0, mr_entry_id = lk_EntryID link, mr_parent = 0, mr_ref_data = format_nat (lk_FileId link),
      mr_kind = (if lk_IsDir link then KindDir else KindFile), mr_ctime = lk_Ctime link,
      mr_mtime = lk_Mtime link, mr_size = lk_FileSize link, mr_mode = lk_Mode link, mr_name = lk_FileName link\<rparr>"

section \<open>Rows that belong to an entry\<close>

definition deleteS3Metadata :: "nat \<Rightarrow> db \<Rightarrow> db" where
  "deleteS3Metadata entryID d = d\<lparr>metas := filter (\<lambda>r. or_entry_id r \<noteq> entryID) (metas d)\<rparr>"

definition deleteMappingMetadata :: "mapping_row list \<Rightarrow> db \<Rightarrow> db" where
  "deleteMappingMetadata ents d = fold (\<lambda>e. deleteS3Metadata (mr_entry_id e)) ents d"

definition deleteWebDAVProperties :: "mapping_row list \<Rightarrow> db \<Rightarrow> db" where
  "deleteWebDAVProperties ents d =
     fold (\<lambda>e d. d\<lparr>props := filter (\<lambda>r. wr_entry_id r \<noteq> mr_entry_id e) (props d)\<rparr>) ents d"

definition deleteWebDAVLocks :: "mapping_row list \<Rightarrow> db \<Rightarrow> db" where
  "deleteWebDAVLocks ents d =
     fold (\<lambda>e d. d\<lparr>locks := filter (\<lambda>r. lr_root_entry r \<noteq> mr_entry_id e) (locks d)\<rparr>) ents d"

definition insertS3Metadata :: "metadata_row \<Rightarrow> db \<Rightarrow> db result" where
  "insertS3Metadata metadata d =
     bind_result (insert_unique or_entry_id metadata (metas d)) (\<lambda>rows. Inr (d\<lparr>metas := rows\<rparr>))"

definition readS3Metadata :: "nat \<Rightarrow> db \<Rightarrow> metadata_row option" where
  "readS3Metadata entryID d = find (\<lambda>r. or_entry_id r = entryID) (metas d)"

text \<open>\<open>INSERT INTO ... SELECT\<close>: the selected rows under the new entry.\<close>

definition copyMappingMetadata :: "nat \<Rightarrow> nat \<Rightarrow> db \<Rightarrow> db result" where
  "copyMappingMetadata sourceEntryID destinationEntryID d =
     fold_result insertS3Metadata
       (map (\<lambda>r. r\<lparr>or_entry_id := destinationEntryID\<rparr>)
         (filter (\<lambda>r. or_entry_id r = sourceEntryID) (metas d))) d"

definition property_key :: "property_row \<Rightarrow> nat \<times> string \<times> string" where
  "property_key r = (wr_entry_id r, wr_namespace r, wr_local_name r)"

definition insert_property :: "property_row \<Rightarrow> db \<Rightarrow> db result" where
  "insert_property row d =
     bind_result (insert_unique property_key row (props d)) (\<lambda>rows. Inr (d\<lparr>props := rows\<rparr>))"

definition copyWebDAVProperties :: "int \<Rightarrow> (mapping_row \<times> mapping_row) list \<Rightarrow> db \<Rightarrow> db result" where
  "copyWebDAVProperties now copies d =
     fold_result (\<lambda>(source, destination) d.
       fold_result insert_property
         (map (\<lambda>r. r\<lparr>wr_entry_id := mr_entry_id destination, wr_ctime := now, wr_mtime := now\<rparr>)
           (filter (\<lambda>r. wr_entry_id r = mr_entry_id source) (props d))) d) copies d"

text \<open>
  The properties and locks of a replaced entry pass to its successor. (The primary key of the
  property table cannot be violated: the successor is new.)
\<close>

definition rebindWebDAVProtocolState :: "nat \<Rightarrow> nat \<Rightarrow> string \<Rightarrow> db \<Rightarrow> db result" where
  "rebindWebDAVProtocolState sourceEntryID destinationEntryID resourcePath d =
     bind_result (update_unique property_key (\<lambda>r. wr_entry_id r = sourceEntryID)
       (\<lambda>r. r\<lparr>wr_entry_id := destinationEntryID\<rparr>) (props d)) (\<lambda>property_rows.
     bind_result (update_unique lr_root_path (\<lambda>r. lr_root_entry r = sourceEntryID)
       (\<lambda>r. r\<lparr>lr_root_entry := destinationEntryID, lr_root_path := Clean resourcePath\<rparr>) (locks d)) (\<lambda>lock_rows.
     Inr (d\<lparr>props := property_rows, locks := lock_rows\<rparr>)))"

section \<open>Removing entries\<close>

fun fileIDsLoop :: "nat list \<Rightarrow> mapping_row list \<Rightarrow> nat list result" where
  "fileIDsLoop fileIDs [] = Inr fileIDs"
| "fileIDsLoop fileIDs (entry # ents) =
     (if mr_kind entry = KindDir then fileIDsLoop fileIDs ents
      else bind_result (parse_file_id (mr_ref_data entry)) (\<lambda>fileID.
             fileIDsLoop (if fileID \<in> set fileIDs then fileIDs else fileIDs @ [fileID]) ents))"

definition mappingEntryFileIDs :: "mapping_row list \<Rightarrow> nat list result" where
  "mappingEntryFileIDs ents = fileIDsLoop [] ents"

definition markMappingFilesPending :: "int \<Rightarrow> nat list \<Rightarrow> db \<Rightarrow> db result" where
  "markMappingFilesPending now fileIDs d =
     fold_result (\<lambda>fileID. markFileTreePendingIfUnreferenced fileID now) fileIDs d"

definition finalizeRemovedWebDAVEntries :: "int \<Rightarrow> mapping_row list \<Rightarrow> db \<Rightarrow> db result" where
  "finalizeRemovedWebDAVEntries now ents d =
     bind_result (mappingEntryFileIDs ents) (\<lambda>fileIDs.
       markMappingFilesPending now fileIDs
         (deleteWebDAVLocks ents (deleteWebDAVProperties ents (deleteMappingMetadata ents d))))"

section \<open>Transactions of the link interface\<close>

definition removeWebDAVLink :: "int \<Rightarrow> string \<Rightarrow> db \<Rightarrow> db result" where
  "removeWebDAVLink now link d =
     bind_result (txRemoveTree now link d) (\<lambda>(removed, d). finalizeRemovedWebDAVEntries now removed d)"

definition moveWebDAVLink :: "int \<Rightarrow> string \<Rightarrow> string \<Rightarrow> bool \<Rightarrow> db \<Rightarrow> db result" where
  "moveWebDAVLink now source destination overwrite d =
     bind_result (txMove now source destination overwrite d) (\<lambda>(overwritten, d).
       finalizeRemovedWebDAVEntries now overwritten d)"

definition validateWebDAVCopies :: "(mapping_row \<times> mapping_row) list \<Rightarrow> db \<Rightarrow> unit result" where
  "validateWebDAVCopies copies d =
     fold_result (\<lambda>(source, _) _.
       if mr_kind source = KindDir then Inr ()
       else bind_result (parse_file_id (mr_ref_data source)) (\<lambda>fileID. ensureFileTreeCanBeLinked fileID d))
       copies ()"

definition copyWebDAVMetadata :: "(mapping_row \<times> mapping_row) list \<Rightarrow> db \<Rightarrow> db result" where
  "copyWebDAVMetadata copies d =
     fold_result (\<lambda>(source, destination) d.
       if mr_kind source = KindDir then Inr d
       else copyMappingMetadata (mr_entry_id source) (mr_entry_id destination) d) copies d"

definition copyWebDAVLink :: "(nat \<Rightarrow> nat) \<Rightarrow> int \<Rightarrow> string \<Rightarrow> string \<Rightarrow> bool \<Rightarrow> db \<Rightarrow> db result" where
  "copyWebDAVLink idfn now source destination overwrite d =
     bind_result (txCopy idfn now source destination overwrite d) (\<lambda>((copies, overwritten), d).
     bind_result (validateWebDAVCopies copies d) (\<lambda>_.
     bind_result (finalizeRemovedWebDAVEntries now overwritten d) (\<lambda>d.
     bind_result (copyWebDAVMetadata copies d) (\<lambda>d.
     copyWebDAVProperties now copies d))))"

section \<open>They keep published files served\<close>

lemma drop_rows:
  "deleteMappingMetadata ents d = d\<lparr>metas := filter (\<lambda>r. or_entry_id r \<notin> mr_entry_id ` set ents) (metas d)\<rparr>"
  "deleteWebDAVProperties ents d = d\<lparr>props := filter (\<lambda>r. wr_entry_id r \<notin> mr_entry_id ` set ents) (props d)\<rparr>"
  "deleteWebDAVLocks ents d = d\<lparr>locks := filter (\<lambda>r. lr_root_entry r \<notin> mr_entry_id ` set ents) (locks d)\<rparr>"
proof -
  show "deleteMappingMetadata ents d = d\<lparr>metas := filter (\<lambda>r. or_entry_id r \<notin> mr_entry_id ` set ents) (metas d)\<rparr>"
    unfolding deleteMappingMetadata_def by (induction ents arbitrary: d) (simp_all add: deleteS3Metadata_def)
  show "deleteWebDAVProperties ents d = d\<lparr>props := filter (\<lambda>r. wr_entry_id r \<notin> mr_entry_id ` set ents) (props d)\<rparr>"
    unfolding deleteWebDAVProperties_def by (induction ents arbitrary: d) simp_all
  show "deleteWebDAVLocks ents d = d\<lparr>locks := filter (\<lambda>r. lr_root_entry r \<notin> mr_entry_id ` set ents) (locks d)\<rparr>"
    unfolding deleteWebDAVLocks_def by (induction ents arbitrary: d) simp_all
qed

lemma published_deleteS3Metadata [simp]: "published (deleteS3Metadata e d) = published d"
  by (simp add: deleteS3Metadata_def)

lemma published_delete_rows [simp]:
  "published (deleteMappingMetadata ents d) = published d"
  "published (deleteWebDAVProperties ents d) = published d"
  "published (deleteWebDAVLocks ents d) = published d"
  by (simp_all add: drop_rows)

lemma rebind_rows:
  assumes "rebindWebDAVProtocolState a b p d = Inr d'"
  obtains x y where "d' = d\<lparr>props := x, locks := y\<rparr>"
  using assms by (auto simp: rebindWebDAVProtocolState_def bind_result_Inr_iff)

lemma published_rebind: "rebindWebDAVProtocolState a b p d = Inr d' \<Longrightarrow> published d' = published d"
  by (erule rebind_rows) (simp add: published_tables(3) [of _ "d\<lparr>props := _\<rparr>"])

lemma published_insertS3Metadata: "insertS3Metadata r d = Inr d' \<Longrightarrow> published d' = published d"
  by (auto simp: insertS3Metadata_def bind_result_Inr_iff)

lemma published_insert_property: "insert_property r d = Inr d' \<Longrightarrow> published d' = published d"
  by (auto simp: insert_property_def bind_result_Inr_iff)

lemma fold_result_same:
  assumes "fold_result f xs s = Inr t" and "\<And>x u v. x \<in> set xs \<Longrightarrow> f x u = Inr v \<Longrightarrow> g v = g u"
  shows "g t = g s"
  using fold_result_invariant [OF assms(1), where P = "\<lambda>u. g u = g s"] assms(2) by simp

lemma published_copyMetadata: "copyMappingMetadata a b d = Inr d' \<Longrightarrow> published d' = published d"
  unfolding copyMappingMetadata_def by (erule fold_result_same [where g = published]) (auto dest: published_insertS3Metadata)

lemma published_copies:
  "copyWebDAVMetadata copies d = Inr d' \<Longrightarrow> published d' = published d"
  "copyWebDAVProperties now copies d = Inr d' \<Longrightarrow> published d' = published d"
proof -
  show "copyWebDAVMetadata copies d = Inr d' \<Longrightarrow> published d' = published d"
    unfolding copyWebDAVMetadata_def
    by (erule fold_result_same [where g = published]) (auto split: if_splits prod.splits dest: published_copyMetadata)
  have insert: "fold_result insert_property rows u = Inr v \<Longrightarrow> published v = published u" for rows u v
    by (erule fold_result_same [where g = published]) (auto dest: published_insert_property)
  show "copyWebDAVProperties now copies d = Inr d' \<Longrightarrow> published d' = published d"
    unfolding copyWebDAVProperties_def by (erule fold_result_same [where g = published]) (auto split: prod.splits dest: insert)
qed

lemma published_markMapping:
  assumes "markMappingFilesPending now fs d = Inr d'" and "published d"
  shows "published d'"
  using assms unfolding markMappingFilesPending_def by (rule fold_result_invariant) (rule published_mark)

lemma published_finalize:
  assumes "finalizeRemovedWebDAVEntries now ents d = Inr d'" and "published d"
  shows "published d'"
proof -
  obtain fs where "markMappingFilesPending now fs
      (deleteWebDAVLocks ents (deleteWebDAVProperties ents (deleteMappingMetadata ents d))) = Inr d'"
    using assms(1) by (auto simp: finalizeRemovedWebDAVEntries_def bind_result_Inr_iff)
  then show ?thesis by (rule published_markMapping) (simp add: assms(2))
qed

lemma published_dir: "published d \<Longrightarrow> dir_change {} d d' \<Longrightarrow> published d'"
  by (rule published_change) auto

lemma published_removeLink:
  assumes "removeWebDAVLink now link d = Inr d'" and "published d"
  shows "published d'"
proof -
  obtain removed d1 where "txRemoveTree now link d = Inr (removed, d1)" and fin: "finalizeRemovedWebDAVEntries now removed d1 = Inr d'"
    using assms(1) by (auto simp: removeWebDAVLink_def bind_result_Inr_iff)
  then have "published d1" using assms(2) published_dir dir_change_remove_tree by blast
  then show ?thesis using published_finalize [OF fin] by blast
qed

lemma published_moveLink:
  assumes "moveWebDAVLink now src dst overwrite d = Inr d'" and "published d"
  shows "published d'"
proof -
  obtain removed d1 where "txMove now src dst overwrite d = Inr (removed, d1)" and fin: "finalizeRemovedWebDAVEntries now removed d1 = Inr d'"
    using assms(1) by (auto simp: moveWebDAVLink_def bind_result_Inr_iff)
  then have "published d1" using assms(2) published_dir dir_change_txMove by blast
  then show ?thesis using published_finalize [OF fin] by blast
qed

text \<open>The tail shared by the two copying operations.\<close>

lemma published_copyTail:
  assumes "published d1" and "finalizeRemovedWebDAVEntries now overwritten d1 = Inr d2"
    and "copyWebDAVMetadata copies d2 = Inr d3" and "copyWebDAVProperties now copies d3 = Inr d4"
  shows "published d4"
  using published_finalize [OF assms(2,1)] published_copies(1) [OF assms(3)] published_copies(2) [OF assms(4)] by simp

lemma published_copyLink:
  assumes "copyWebDAVLink idfn now src dst overwrite d = Inr d'" and "published d"
  shows "published d'"
proof -
  obtain copies overwritten d1 d2 d3 where copy: "txCopy idfn now src dst overwrite d = Inr ((copies, overwritten), d1)"
    and rest: "finalizeRemovedWebDAVEntries now overwritten d1 = Inr d2"
      "copyWebDAVMetadata copies d2 = Inr d3" "copyWebDAVProperties now copies d3 = Inr d'"
    using assms(1) by (auto simp: copyWebDAVLink_def bind_result_Inr_iff)
  have "published d1"
    using published_dir [OF assms(2)] dir_change_txCopy copy unfolding txCopy_def by blast
  then show ?thesis using published_copyTail rest by blast
qed

end
