(* ===== verification/Directory_Paths.thy ===== *)
theory Directory_Paths
  imports Directory_Spec Sql_Lib
begin

text \<open>
  The recursive queries over the directory. Several statements compute the full path of every
  entry with a recursive common table expression and then select by it, instead of resolving a
  path component by component. \<open>tree_rows\<close> is that expression; on a well-formed tree it
  produces every entry once, with the path that resolves to it, so that both ways of finding an
  entry agree.
\<close>

text \<open>
  \<open>WITH RECURSIVE\<close> has no depth; on a tree the number of rows is enough. The order of its rows
  is not specified and no caller depends on it.
\<close>

definition child_full_path :: "string \<Rightarrow> string \<Rightarrow> string" where
  "child_full_path full_path name = (if full_path = ''/'' then CHR ''/'' # name else full_path @ CHR ''/'' # name)"

primrec treeWalk :: "nat \<Rightarrow> db \<Rightarrow> string \<Rightarrow> mapping_row \<Rightarrow> (mapping_row \<times> string) list" where
  "treeWalk 0 d full_path entry = []"
| "treeWalk (Suc depth) d full_path entry =
     (entry, full_path) #
     concat (map (\<lambda>child. treeWalk depth d (child_full_path full_path (mr_name child)) child)
       (filter (\<lambda>m. mr_parent m = mr_entry_id entry) (mappings d)))"

definition tree_rows :: "db \<Rightarrow> (mapping_row \<times> string) list" where
  "tree_rows d =
     concat (map (treeWalk (length (mappings d)) d ''/'')
       (filter (\<lambda>m. mr_parent m = 0 \<and> mr_name m = ''/'') (mappings d)))"

text \<open>The subtree below an entry, as the counting queries see it.\<close>

definition subtree_rows :: "nat \<Rightarrow> db \<Rightarrow> mapping_row list" where
  "subtree_rows entryID d =
     map fst (concat (map (treeWalk (length (mappings d)) d ''/'')
       (filter (\<lambda>m. mr_entry_id m = entryID) (mappings d))))"

section \<open>Names\<close>

definition names_normal :: "db \<Rightarrow> bool" where
  "names_normal d \<longleftrightarrow> (\<forall>m\<in>set (mappings d). mr_parent m \<noteq> 0 \<longrightarrow> normal (mr_name m))"

lemma row_path_normal:
  assumes ok: "tree_ok (mappings d)" and names: "names_normal d"
  shows "row_path (mappings d) m xs \<Longrightarrow> \<exists>cs. xs = ''/'' # cs \<and> (\<forall>c\<in>set cs. normal c)"
proof (induction rule: row_path.induct)
  case (root m)
  then show ?case using tree_okD(4) [OF ok, of m] by (intro exI [of _ "[]"]) simp
next
  case (child p xs m)
  then obtain cs where "xs = ''/'' # cs" "\<forall>c\<in>set cs. normal c" by blast
  moreover have "mr_parent m \<noteq> 0"
    using child.hyps tree_okD(3) [OF ok row_path_in [OF child.hyps(1)]] by simp
  then have "normal (mr_name m)" using names child.hyps by (simp add: names_normal_def)
  ultimately show ?case by (intro exI [of _ "cs @ [mr_name m]"]) auto
qed

lemma child_full_path_abs:
  assumes "\<forall>c\<in>set cs. normal c"
  shows "child_full_path (abs_path cs) n = abs_path (cs @ [n])"
  using abs_path_eq_root [OF assms] by (simp add: child_full_path_def abs_path_snoc)

section \<open>Every entry once, with its path\<close>

lemma file_childless:
  assumes ok: "tree_ok (mappings d)" and e: "row_path (mappings d) e xs" and "mr_kind e \<noteq> KindDir"
  shows "filter (\<lambda>m. mr_parent m = mr_entry_id e) (mappings d) = []"
proof -
  have "mr_parent m \<noteq> mr_entry_id e" if m: "m \<in> set (mappings d)" for m
  proof
    assume par: "mr_parent m = mr_entry_id e"
    obtain zs where "row_path (mappings d) m zs" using tree_okD(6) [OF ok m] by blast
    then obtain p ys where "row_path (mappings d) p ys" "mr_kind p = KindDir" "mr_parent m = mr_entry_id p"
      using par tree_okD(3) [OF ok row_path_in [OF e]] by (cases rule: row_path.cases) auto
    then have "p = e" using same_entry_id [OF ok] row_path_in e par by metis
    then show False using \<open>mr_kind p = KindDir\<close> assms(3) by simp
  qed
  then show ?thesis by (simp add: filter_empty_conv)
qed

lemma child_path_mem:
  assumes ok: "tree_ok (mappings d)" and e: "row_path (mappings d) e xs"
    and c: "c \<in> set (mappings d)" "mr_parent c = mr_entry_id e"
  shows "row_path (mappings d) c (xs @ [mr_name c])"
proof -
  have "filter (\<lambda>m. mr_parent m = mr_entry_id e) (mappings d) \<noteq> []" using c by (auto simp: filter_empty_conv)
  then have "mr_kind e = KindDir" using file_childless [OF ok e] by blast
  then show ?thesis using row_path.child [OF e _ c] by blast
qed

lemma treeWalk_sound:
  assumes ok: "tree_ok (mappings d)" and names: "names_normal d"
  shows "row_path (mappings d) e (''/'' # cs) \<Longrightarrow> (m, p) \<in> set (treeWalk n d (abs_path cs) e) \<Longrightarrow>
    \<exists>bs. row_path (mappings d) m (''/'' # cs @ bs) \<and> p = abs_path (cs @ bs)"
proof (induction n arbitrary: cs e)
  case (Suc n)
  have norm: "\<forall>c\<in>set cs. normal c" using row_path_normal [OF ok names Suc.prems(1)] by simp
  from Suc.prems(2) consider "m = e" "p = abs_path cs"
    | c where "c \<in> set (mappings d)" "mr_parent c = mr_entry_id e"
        "(m, p) \<in> set (treeWalk n d (child_full_path (abs_path cs) (mr_name c)) c)" by auto
  then show ?case
  proof cases
    case 1
    then show ?thesis using Suc.prems(1) by (intro exI [of _ "[]"]) simp
  next
    case 2
    have "row_path (mappings d) c (''/'' # (cs @ [mr_name c]))"
      using child_path_mem [OF ok Suc.prems(1) 2(1,2)] by simp
    from Suc.IH [OF this] 2(3) obtain bs where
      "row_path (mappings d) m (''/'' # (cs @ [mr_name c]) @ bs)" "p = abs_path ((cs @ [mr_name c]) @ bs)"
      unfolding child_full_path_abs [OF norm] by blast
    then show ?thesis by (intro exI [of _ "mr_name c # bs"]) simp
  qed
qed simp

lemma treeWalk_complete:
  assumes ok: "tree_ok (mappings d)" and names: "names_normal d"
  shows "row_path (mappings d) e (''/'' # cs) \<Longrightarrow> row_path (mappings d) m (''/'' # cs @ bs) \<Longrightarrow>
    length bs < n \<Longrightarrow> (m, abs_path (cs @ bs)) \<in> set (treeWalk n d (abs_path cs) e)"
proof (induction n arbitrary: cs bs e)
  case (Suc n)
  have norm: "\<forall>c\<in>set cs. normal c" using row_path_normal [OF ok names Suc.prems(1)] by simp
  show ?case
  proof (cases bs)
    case Nil
    then have "m = e" using row_path_inj [OF ok] Suc.prems by fastforce
    then show ?thesis using Nil by simp
  next
    case (Cons b bs')
    have "row_path (mappings d) m ((''/'' # cs @ [b]) @ bs')" using Suc.prems(2) Cons by simp
    from row_path_prefix [OF this] obtain c where c: "row_path (mappings d) c ((''/'' # cs) @ [b])" by auto
    from row_path_snoc [OF c] obtain p where p: "c \<in> set (mappings d)" "mr_name c = b"
        "row_path (mappings d) p (''/'' # cs)" "mr_parent c = mr_entry_id p" by auto
    have "p = e" using row_path_inj [OF ok p(3) Suc.prems(1)] .
    moreover have "(m, abs_path ((cs @ [b]) @ bs')) \<in> set (treeWalk n d (abs_path (cs @ [b])) c)"
      using Suc.IH [of c "cs @ [b]" bs'] c Suc.prems(2,3) Cons by simp
    ultimately have walk: "(m, abs_path (cs @ bs)) \<in> set (treeWalk n d (child_full_path (abs_path cs) (mr_name c)) c)"
      and c: "c \<in> set (filter (\<lambda>m. mr_parent m = mr_entry_id e) (mappings d))"
      using Cons p child_full_path_abs [OF norm, of b] by simp_all
    have "(m, abs_path (cs @ bs)) \<in> (\<Union>x\<in>set (filter (\<lambda>m. mr_parent m = mr_entry_id e) (mappings d)).
        set (treeWalk n d (child_full_path (abs_path cs) (mr_name x)) x))" using c walk by blast
    then show ?thesis by simp
  qed
qed simp

lemma tree_rows_paths:
  assumes ok: "tree_ok (mappings d)" and names: "names_normal d"
  shows "(m, p) \<in> set (tree_rows d) \<longleftrightarrow> (\<exists>cs. row_path (mappings d) m (''/'' # cs) \<and> p = abs_path cs)"
proof
  assume "(m, p) \<in> set (tree_rows d)"
  then obtain r where "r \<in> set (mappings d)" "mr_parent r = 0" and walk: "(m, p) \<in> set (treeWalk (length (mappings d)) d (abs_path []) r)"
    and "mr_name r = ''/''" by (auto simp: tree_rows_def abs_path_def)
  then have "row_path (mappings d) r (''/'' # [])" using row_path.root [of r "mappings d"] by simp
  from treeWalk_sound [OF ok names this walk] show "\<exists>cs. row_path (mappings d) m (''/'' # cs) \<and> p = abs_path cs" by auto
next
  assume "\<exists>cs. row_path (mappings d) m (''/'' # cs) \<and> p = abs_path cs"
  then obtain cs where m: "row_path (mappings d) m (''/'' # cs)" and p: "p = abs_path cs" by blast
  then have "row_path (mappings d) m ([''/''] @ cs)" by simp
  from row_path_prefix [OF this] obtain r where r: "row_path (mappings d) r ([] @ [''/''])" by auto
  have "length cs < length (mappings d)" using row_path_length [OF ok m] by simp
  then have walk: "(m, abs_path ([] @ cs)) \<in> set (treeWalk (length (mappings d)) d (abs_path []) r)"
    using treeWalk_complete [OF ok names, of r "[]" m cs] r m by simp
  have "r \<in> set (filter (\<lambda>m. mr_parent m = 0 \<and> mr_name m = ''/'') (mappings d))" using row_path_snoc [OF r] by simp
  moreover have "(m, p) \<in> set (treeWalk (length (mappings d)) d ''/'' r)"
    using walk p by (simp add: abs_path_def [of "[]"])
  ultimately have "(m, p) \<in> (\<Union>x\<in>set (filter (\<lambda>m. mr_parent m = 0 \<and> mr_name m = ''/'') (mappings d)).
      set (treeWalk (length (mappings d)) d ''/'' x))" by blast
  then show "(m, p) \<in> set (tree_rows d)" by (simp add: tree_rows_def)
qed

text \<open>Selecting by the full path finds what resolving the path finds.\<close>

definition select_path :: "string \<Rightarrow> db \<Rightarrow> mapping_row option" where
  "select_path full_path d = map_option fst (find (\<lambda>(m, p). p = full_path) (tree_rows d))"

lemma select_path_lookup:
  assumes ok: "tree_ok (mappings d)" and names: "names_normal d" and p: "absolute p"
  shows "select_path (Clean p) d = lookup d (items p)"
proof -
  have clean: "Clean p = abs_path (components p)" using Clean_components [OF p] .
  have inj: "abs_path cs = abs_path (components p) \<longleftrightarrow> cs = components p" if "\<forall>c\<in>set cs. normal c" for cs
    using components_abs_path [OF that] components_abs_path [OF components_normal] by metis
  show ?thesis
  proof (cases "find (\<lambda>(m, p'). p' = Clean p) (tree_rows d)")
    case None
    have "\<not> row_path (mappings d) m (items p)" for m
    proof
      assume "row_path (mappings d) m (items p)"
      then have "(m, Clean p) \<in> set (tree_rows d)" using tree_rows_paths [OF ok names] clean by (auto simp: items_def)
      then show False using None by (auto simp: find_None_iff)
    qed
    then have "lookup d (items p) = None" using lookup_None [OF ok] by blast
    then show ?thesis using None by (simp add: select_path_def)
  next
    case (Some mp)
    then obtain m where mp: "mp = (m, Clean p)" "(m, Clean p) \<in> set (tree_rows d)"
      by (cases mp) (auto simp: find_Some_iff dest!: nth_mem)
    then obtain cs where cs: "row_path (mappings d) m (''/'' # cs)" "abs_path (components p) = abs_path cs"
      using tree_rows_paths [OF ok names] clean by auto
    have "\<forall>c\<in>set cs. normal c" using row_path_normal [OF ok names cs(1)] by simp
    then have "cs = components p" using inj cs(2) by metis
    then have "lookup d (items p) = Some m" using cs(1) lookup_path [OF ok] by (simp add: items_def)
    then show ?thesis using Some mp by (simp add: select_path_def)
  qed
qed

end
