(* ===== verification/S3_Object.thy ===== *)
theory S3_Object
  imports Mapping_Mutation Directory_Paths
begin

text \<open>
  Objects of the S3 interface (\<^verbatim>\<open>filemgr/s3_object.go\<close>): an object is a file entry of the
  directory with a row of metadata. Publishing, copying and deleting are transactions that check
  the caller's preconditions against the current object first. Times are milliseconds; the
  comparison of conditional requests truncates them to seconds. The content type of an object
  without metadata comes from the package \<open>mimetype\<close>, the parameter \<open>mime\<close> below
  (\<open>LookupWithDefault\<close>).
\<close>

definition defaultS3CacheControl :: string where
  "defaultS3CacheControl = ''public, max-age=604800''"

record S3ObjectInfo =
  oi_Link :: FileLinkMeta
  oi_Metadata :: metadata_row

record S3Condition =
  sc_IfMatch :: string
  sc_IfNoneMatch :: string
  sc_IfModifiedSince :: "int option"
  sc_IfUnmodifiedSince :: "int option"

section \<open>Reading an object\<close>

definition directoryEntryToLink :: "string \<Rightarrow> mapping_row \<Rightarrow> FileLinkMeta result" where
  "directoryEntryToLink objectPath entry =
     bind_result (parse_file_id (mr_ref_data entry)) (\<lambda>fileID.
       Inr \<lparr>lk_EntryID = mr_entry_id entry, lk_FileName = objectPath, lk_FileId = fileID,
            lk_FileSize = mr_size entry, lk_Mode = mr_mode entry, lk_Ctime = mr_ctime entry,
            lk_Mtime = mr_mtime entry, lk_IsDir = False\<rparr>)"

definition extension_of :: "string \<Rightarrow> string" where
  "extension_of name = (case last_index (CHR ''.'') name of None \<Rightarrow> '''' | Some i \<Rightarrow> drop i name)"

definition legacyS3Metadata :: "(string \<Rightarrow> string \<Rightarrow> string) \<Rightarrow> FileLinkMeta \<Rightarrow> metadata_row" where
  "legacyS3Metadata mime link =
     \<lparr>or_entry_id = lk_EntryID link, or_etag = ''W/'' @ [CHR 0x22] @ format_nat (lk_FileId link) @ [CHR 0x22],
      or_sha256 = '''', or_checksum_algorithm = '''', or_checksum_value = '''', or_checksum_type = '''',
      or_content_type = mime (extension_of (lk_FileName link)) ''application/octet-stream'',
      or_cache_control = defaultS3CacheControl, or_content_disposition = '''', or_content_encoding = '''',
      or_content_language = '''', or_expires = '''', or_user_metadata = ''{}'',
      or_ctime = lk_Ctime link, or_mtime = lk_Mtime link\<rparr>"

definition object_info :: "(string \<Rightarrow> string \<Rightarrow> string) \<Rightarrow> string \<Rightarrow> mapping_row \<Rightarrow> db \<Rightarrow> S3ObjectInfo result" where
  "object_info mime objectPath entry d =
     bind_result (directoryEntryToLink objectPath entry) (\<lambda>link.
       Inr \<lparr>oi_Link = link,
            oi_Metadata = (case readS3Metadata (mr_entry_id entry) d of
               Some metadata \<Rightarrow> metadata | None \<Rightarrow> legacyS3Metadata mime link)\<rparr>)"

definition StatS3Object :: "(string \<Rightarrow> string \<Rightarrow> string) \<Rightarrow> string \<Rightarrow> db \<Rightarrow> S3ObjectInfo result" where
  "StatS3Object mime objectPath d =
     bind_result (dirStat objectPath d) (\<lambda>entry.
       if mr_kind entry = KindDir then Inl ErrNotExist else object_info mime objectPath entry d)"

definition statS3ObjectTx :: "(string \<Rightarrow> string \<Rightarrow> string) \<Rightarrow> string \<Rightarrow> db \<Rightarrow> S3ObjectInfo option result" where
  "statS3ObjectTx mime objectPath d =
     bind_result (txStat objectPath d) (\<lambda>found.
       case found of
         None \<Rightarrow> Inr None
       | Some entry \<Rightarrow>
           if mr_kind entry = KindDir then Inr None
           else bind_result (object_info mime objectPath entry d) (\<lambda>obj. Inr (Some obj)))"

section \<open>Preconditions\<close>

fun etag_listed :: "bool \<Rightarrow> string \<Rightarrow> string list \<Rightarrow> bool" where
  "etag_listed weak etag [] = False"
| "etag_listed weak etag (candidate # rest) =
     (let candidate = TrimSpace candidate;
          candidate = (if weak then TrimPrefix candidate ''W/'' else candidate)
      in candidate = etag \<or> etag_listed weak etag rest)"

definition s3ETagListContains :: "string \<Rightarrow> string \<Rightarrow> bool \<Rightarrow> bool" where
  "s3ETagListContains value etag weak =
     etag_listed weak (if weak then TrimPrefix etag ''W/'' else etag) (split_on (CHR '','') value)"

definition s3IfMatchSatisfied :: "S3ObjectInfo option \<Rightarrow> string \<Rightarrow> bool" where
  "s3IfMatchSatisfied obj value =
     (if value = '''' then True
      else case obj of
        None \<Rightarrow> False
      | Some i \<Rightarrow>
          if value = ''*'' then True
          else if HasPrefix (or_etag (oi_Metadata i)) ''W/'' then False
          else s3ETagListContains value (or_etag (oi_Metadata i)) False)"

definition s3IfNoneMatchSatisfied :: "S3ObjectInfo option \<Rightarrow> string \<Rightarrow> bool" where
  "s3IfNoneMatchSatisfied obj value =
     (if value = '''' then True
      else case obj of
        None \<Rightarrow> True
      | Some i \<Rightarrow> value \<noteq> ''*'' \<and> \<not> s3ETagListContains value (or_etag (oi_Metadata i)) True)"

text \<open>\<open>t.Truncate(time.Second)\<close> on milliseconds.\<close>

definition truncate_second :: "int \<Rightarrow> int" where
  "truncate_second t = t - t mod 1000"

definition evaluateS3Condition :: "S3ObjectInfo option \<Rightarrow> S3Condition option \<Rightarrow> unit result" where
  "evaluateS3Condition obj condition =
     (case condition of
        None \<Rightarrow> Inr ()
      | Some c \<Rightarrow>
          if \<not> s3IfMatchSatisfied obj (sc_IfMatch c) then Inl ErrS3Precondition
          else if \<not> s3IfNoneMatchSatisfied obj (sc_IfNoneMatch c) then Inl ErrS3Precondition
          else case obj of
            None \<Rightarrow> Inr ()
          | Some i \<Rightarrow>
              let modifiedAt = truncate_second (lk_Mtime (oi_Link i))
              in if sc_IfMatch c = '''' \<and> (case sc_IfUnmodifiedSince c of None \<Rightarrow> False | Some t \<Rightarrow> modifiedAt > truncate_second t)
                 then Inl ErrS3Precondition
                 else if sc_IfNoneMatch c = '''' \<and> (case sc_IfModifiedSince c of None \<Rightarrow> False | Some t \<Rightarrow> \<not> modifiedAt > truncate_second t)
                 then Inl ErrS3Precondition
                 else Inr ())"


section \<open>Publishing\<close>

text \<open>The identifier of the replaced file, 0 if there was none.\<close>

definition removeReplacedS3Object :: "int \<Rightarrow> string \<Rightarrow> S3ObjectInfo option \<Rightarrow> db \<Rightarrow> (nat \<times> db) result" where
  "removeReplacedS3Object now objectPath current d =
     (case current of
        None \<Rightarrow> Inr (0, d)
      | Some obj \<Rightarrow>
          bind_result (txRemoveTree now objectPath d) (\<lambda>(_, d).
            Inr (lk_FileId (oi_Link obj), deleteS3Metadata (lk_EntryID (oi_Link obj)) d)))"

definition publishS3ObjectTx ::
  "(nat \<Rightarrow> nat) \<Rightarrow> (string \<Rightarrow> string \<Rightarrow> string) \<Rightarrow> int \<Rightarrow> string \<Rightarrow> nat \<Rightarrow> int \<Rightarrow> metadata_row
     \<Rightarrow> S3Condition option \<Rightarrow> db \<Rightarrow> (S3ObjectInfo \<times> db) result" where
  "publishS3ObjectTx idfn mime now objectPath fileID fsize metadata condition d =
     bind_result (statS3ObjectTx mime objectPath d) (\<lambda>current.
     bind_result (evaluateS3Condition current condition) (\<lambda>_.
     bind_result (ensureFileTreeCanBeLinked fileID d) (\<lambda>_.
     bind_result (removeReplacedS3Object now objectPath current d) (\<lambda>(replacedFileID, d).
     bind_result (txCreate idfn now objectPath fsize (format_nat fileID) d) (\<lambda>(entry, d).
     bind_result (case current of
                    None \<Rightarrow> Inr d
                  | Some obj \<Rightarrow> rebindWebDAVProtocolState (lk_EntryID (oi_Link obj)) (mr_entry_id entry) objectPath d) (\<lambda>d.
     let stored = metadata\<lparr>or_entry_id := mr_entry_id entry, or_ctime := now, or_mtime := now\<rparr>
     in bind_result (insertS3Metadata stored d) (\<lambda>d.
        bind_result
          (if replacedFileID \<noteq> 0 \<and> replacedFileID \<noteq> fileID
           then markFileTreePendingIfUnreferenced replacedFileID now d else Inr d) (\<lambda>d.
        bind_result (directoryEntryToLink objectPath entry) (\<lambda>link.
        Inr (\<lparr>oi_Link = link, oi_Metadata = stored\<rparr>, d))))))))))"

definition PublishS3Object ::
  "(nat \<Rightarrow> nat) \<Rightarrow> (string \<Rightarrow> string \<Rightarrow> string) \<Rightarrow> int \<Rightarrow> string \<Rightarrow> nat \<Rightarrow> int \<Rightarrow> metadata_row
     \<Rightarrow> S3Condition option \<Rightarrow> db \<Rightarrow> (S3ObjectInfo \<times> db) result" where
  "PublishS3Object idfn mime now objectPath fileID fsize metadata condition d =
     publishS3ObjectTx idfn mime now objectPath fileID fsize metadata condition d"

section \<open>Copying\<close>

definition copySameS3ObjectTx ::
  "int \<Rightarrow> string \<Rightarrow> S3ObjectInfo \<Rightarrow> metadata_row option \<Rightarrow> db \<Rightarrow> (S3ObjectInfo \<times> db) result" where
  "copySameS3ObjectTx now source sourceInfo metadata d =
     (case metadata of
        None \<Rightarrow> Inr (sourceInfo, d)
      | Some m \<Rightarrow>
          let stored = m\<lparr>or_entry_id := lk_EntryID (oi_Link sourceInfo),
                         or_ctime := or_ctime (oi_Metadata sourceInfo), or_mtime := now\<rparr>
          in bind_result (insertS3Metadata stored (deleteS3Metadata (or_entry_id stored) d)) (\<lambda>d.
             bind_result (txTouch source now now d) (\<lambda>d.
             Inr (\<lparr>oi_Link = (oi_Link sourceInfo)\<lparr>lk_Mtime := now\<rparr>, oi_Metadata = stored\<rparr>, d))))"

definition copyDifferentS3ObjectTx ::
  "(nat \<Rightarrow> nat) \<Rightarrow> int \<Rightarrow> string \<Rightarrow> S3ObjectInfo \<Rightarrow> S3ObjectInfo option \<Rightarrow> metadata_row option
     \<Rightarrow> db \<Rightarrow> (S3ObjectInfo \<times> db) result" where
  "copyDifferentS3ObjectTx idfn now destination sourceInfo destinationInfo metadata d =
     bind_result (removeReplacedS3Object now destination destinationInfo d) (\<lambda>(replacedFileID, d).
     let d = (case destinationInfo of
                None \<Rightarrow> d
              | Some obj \<Rightarrow>
                  let overwritten = [linkDirectoryEntry (oi_Link obj)]
                  in deleteWebDAVLocks overwritten (deleteWebDAVProperties overwritten d));
         fileID = lk_FileId (oi_Link sourceInfo)
     in bind_result (ensureFileTreeCanBeLinked fileID d) (\<lambda>_.
        bind_result (txCreate idfn now destination (lk_FileSize (oi_Link sourceInfo)) (format_nat fileID) d) (\<lambda>(entry, d).
        let stored = (case metadata of None \<Rightarrow> oi_Metadata sourceInfo | Some m \<Rightarrow> m)
              \<lparr>or_entry_id := mr_entry_id entry, or_ctime := now, or_mtime := now\<rparr>
        in bind_result (insertS3Metadata stored d) (\<lambda>d.
           bind_result (copyWebDAVProperties now [(linkDirectoryEntry (oi_Link sourceInfo), entry)] d) (\<lambda>d.
           bind_result
             (if replacedFileID \<noteq> 0 \<and> replacedFileID \<noteq> fileID
              then markFileTreePendingIfUnreferenced replacedFileID now d else Inr d) (\<lambda>d.
           bind_result (directoryEntryToLink destination entry) (\<lambda>link.
           Inr (\<lparr>oi_Link = link, oi_Metadata = stored\<rparr>, d))))))))"

definition CopyS3Object ::
  "(nat \<Rightarrow> nat) \<Rightarrow> (string \<Rightarrow> string \<Rightarrow> string) \<Rightarrow> int \<Rightarrow> string \<Rightarrow> string \<Rightarrow> metadata_row option
     \<Rightarrow> S3Condition option \<Rightarrow> S3Condition option \<Rightarrow> db \<Rightarrow> (S3ObjectInfo \<times> db) result" where
  "CopyS3Object idfn mime now source destination metadata sourceCondition destinationCondition d =
     bind_result (statS3ObjectTx mime source d) (\<lambda>sourceFound.
     case sourceFound of
       None \<Rightarrow> Inl ErrNotExist
     | Some sourceInfo \<Rightarrow>
         bind_result (evaluateS3Condition (Some sourceInfo) sourceCondition) (\<lambda>_.
         bind_result (statS3ObjectTx mime destination d) (\<lambda>destinationInfo.
         bind_result (evaluateS3Condition destinationInfo destinationCondition) (\<lambda>_.
         if source = destination then copySameS3ObjectTx now source sourceInfo metadata d
         else copyDifferentS3ObjectTx idfn now destination sourceInfo destinationInfo metadata d))))"

section \<open>Deleting\<close>

definition DeleteS3Object ::
  "(string \<Rightarrow> string \<Rightarrow> string) \<Rightarrow> int \<Rightarrow> string \<Rightarrow> S3Condition option \<Rightarrow> db \<Rightarrow> (bool \<times> db) result" where
  "DeleteS3Object mime now objectPath condition d =
     bind_result (statS3ObjectTx mime objectPath d) (\<lambda>current.
     bind_result (evaluateS3Condition current condition) (\<lambda>_.
     case current of
       None \<Rightarrow> Inr (False, d)
     | Some obj \<Rightarrow>
         bind_result (txRemoveTree now objectPath d) (\<lambda>(_, d).
         let removed = [linkDirectoryEntry (oi_Link obj)];
             d = deleteS3Metadata (lk_EntryID (oi_Link obj)) d;
             d = deleteWebDAVProperties removed d;
             d = deleteWebDAVLocks removed d
         in bind_result (markFileTreePendingIfUnreferenced (lk_FileId (oi_Link obj)) now d) (\<lambda>d.
            Inr (True, d)))))"

section \<open>Listing\<close>

record S3ListRequest =
  lq_Bucket :: string
  lq_Prefix :: string
  lq_Delimiter :: string
  lq_StartAfter :: string
  lq_ContinuationToken :: string
  lq_MaxKeys :: nat

record s3ListPageEntry =
  le_key :: string
  le_common :: nat
  le_entryID :: nat
  le_refData :: string
  le_ctime :: int
  le_mtime :: int
  le_fileSize :: int

record S3ListItem =
  li_Key :: string
  li_Size :: int
  li_LastModified :: int
  li_ETag :: string
  li_ChecksumAlgorithm :: string
  li_ChecksumType :: string

record S3ListResult =
  lt_Items :: "S3ListItem list"
  lt_CommonPrefixes :: "string list"
  lt_NextKey :: string
  lt_IsTruncated :: bool

text \<open>The steps of the query: \<open>objects\<close>, \<open>classified\<close> with \<open>projected\<close>, \<open>deduplicated\<close>.\<close>

definition list_objects :: "string \<Rightarrow> string \<Rightarrow> db \<Rightarrow> (mapping_row \<times> string) list" where
  "list_objects pathPrefix prfx d =
     map (\<lambda>(m, full_path). (m, sql_substr full_path (length pathPrefix + 1)))
       (filter (\<lambda>(m, full_path). mr_kind m = 2 \<and>
          like backslash (escapeSQLiteLike (pathPrefix @ prfx) @ ''%'') full_path) (tree_rows d))"

definition list_project :: "string \<Rightarrow> string \<Rightarrow> mapping_row \<times> string \<Rightarrow> s3ListPageEntry" where
  "list_project delimiter prfx = (\<lambda>(m, object_key).
     let rest = sql_substr object_key (sql_length prfx + 1);
         delimiter_index = (if delimiter = ''/'' then sql_instr rest (CHR ''/'') else 0)
     in \<lparr>le_key = (if delimiter_index > 0 then prfx @ sql_left rest delimiter_index else object_key),
         le_common = (if delimiter_index > 0 then 1 else 0),
         le_entryID = mr_entry_id m, le_refData = mr_ref_data m, le_ctime = mr_ctime m,
         le_mtime = mr_mtime m, le_fileSize = mr_size m\<rparr>)"

definition min_of :: "('a \<Rightarrow> 'b::linorder) \<Rightarrow> 'a list \<Rightarrow> 'b" where
  "min_of f xs = fold min (map f (tl xs)) (f (hd xs))"

definition list_group :: "s3ListPageEntry list \<Rightarrow> string \<Rightarrow> s3ListPageEntry" where
  "list_group rows k =
     (let g = filter (\<lambda>r. le_key r = k) rows
      in \<lparr>le_key = k, le_common = fold max (map le_common g) 0, le_entryID = min_of le_entryID g,
          le_refData = min_of le_refData g, le_ctime = min_of le_ctime g, le_mtime = min_of le_mtime g,
          le_fileSize = min_of le_fileSize g\<rparr>)"

definition queryS3ListPage :: "S3ListRequest \<Rightarrow> string \<Rightarrow> db \<Rightarrow> s3ListPageEntry list" where
  "queryS3ListPage request start d =
     (let pathPrefix = ''/'' @ lq_Bucket request @ ''/'';
          rows = map (list_project (lq_Delimiter request) (lq_Prefix request))
                   (list_objects pathPrefix (lq_Prefix request) d)
      in take (lq_MaxKeys request + 1)
           (map (list_group rows) (sort (filter (\<lambda>k. start < k) (remdups (map le_key rows))))))"

definition readS3ListPage :: "s3ListPageEntry list \<Rightarrow> nat \<Rightarrow> s3ListPageEntry list \<times> bool" where
  "readS3ListPage rows maxKeys = (take maxKeys rows, maxKeys < length rows)"

definition appendS3ListEntry ::
  "(string \<Rightarrow> string \<Rightarrow> string) \<Rightarrow> S3ListRequest \<Rightarrow> db \<Rightarrow> s3ListPageEntry \<Rightarrow> S3ListResult \<Rightarrow> S3ListResult result" where
  "appendS3ListEntry mime request d entry res =
     (let res = res\<lparr>lt_NextKey := le_key entry\<rparr>
      in if le_common entry \<noteq> 0 then Inr (res\<lparr>lt_CommonPrefixes := lt_CommonPrefixes res @ [le_key entry]\<rparr>)
         else
           bind_result (parse_file_id (le_refData entry)) (\<lambda>fileID.
           let link = \<lparr>lk_EntryID = le_entryID entry,
                       lk_FileName = ''/'' @ lq_Bucket request @ ''/'' @ le_key entry, lk_FileId = fileID,
                       lk_FileSize = le_fileSize entry, lk_Mode = 0, lk_Ctime = le_ctime entry,
                       lk_Mtime = le_mtime entry, lk_IsDir = False\<rparr>;
               metadata = (case readS3Metadata (lk_EntryID link) d of
                             Some m \<Rightarrow> m | None \<Rightarrow> legacyS3Metadata mime link)
           in Inr (res\<lparr>lt_Items := lt_Items res @
                [\<lparr>li_Key = le_key entry, li_Size = lk_FileSize link, li_LastModified = lk_Mtime link,
                  li_ETag = or_etag metadata, li_ChecksumAlgorithm = or_checksum_algorithm metadata,
                  li_ChecksumType = or_checksum_type metadata\<rparr>]\<rparr>)))"

definition ListS3Objects ::
  "(string \<Rightarrow> string \<Rightarrow> string) \<Rightarrow> S3ListRequest \<Rightarrow> db \<Rightarrow> S3ListResult result" where
  "ListS3Objects mime request d =
     (let res = \<lparr>lt_Items = [], lt_CommonPrefixes = [], lt_NextKey = '''', lt_IsTruncated = False\<rparr>
      in if lq_MaxKeys request = 0 then Inr res
         else
           let start = (if lq_ContinuationToken request \<noteq> '''' then lq_ContinuationToken request
                        else lq_StartAfter request);
               (page, truncated) = readS3ListPage (queryS3ListPage request start d) (lq_MaxKeys request)
           in fold_result (appendS3ListEntry mime request d) page (res\<lparr>lt_IsTruncated := truncated\<rparr>))"

end
