(* ===== verification/S3_Object_Spec.thy ===== *)
theory S3_Object_Spec
  imports S3_Object
begin

text \<open>
  What the S3 object operations promise: reading after writing, the effect of preconditions, that
  other objects are left alone, and what a listing contains.
\<close>

section \<open>Entries and objects\<close>

lemma butlast_short: "prefix ys (butlast (items p)) \<Longrightarrow> ys \<noteq> items p"
proof
  assume "prefix ys (butlast (items p))" and "ys = items p"
  then have "length (items p) \<le> length (butlast (items p))" using prefix_length_le by blast
  then show False by (simp add: items_def split: if_splits)
qed

lemma txStat_lookup:
  assumes "absolute p" and "txStat p d = Inr r"
  shows "r = lookup d (items p)"
  using assms txGetEntryInfo_lookup [OF assms(1), of d]
  by (auto simp: txStat_def split: sum.splits if_splits prod.splits)

lemma txStat_found:
  assumes "absolute p" and "lookup d (items p) = Some e"
  shows "txStat p d = Inr (Some e)"
  using txGetEntryInfo_found [OF assms] by (auto simp: txStat_def)

lemma parse_format: "fileID < 2 ^ 64 \<Longrightarrow> parse_file_id (format_nat fileID) = Inr fileID"
  by (simp add: parse_file_id_def)

lemma statTx_None:
  assumes "absolute p" and "statS3ObjectTx mime p d = Inr None"
  shows "lookup d (items p) = None \<or> (\<exists>e. lookup d (items p) = Some e \<and> mr_kind e = KindDir)"
  using assms(2) txStat_lookup [OF assms(1), of d]
  by (cases "txStat p d") (auto simp: statS3ObjectTx_def bind_result_Inr_iff split: option.splits if_splits)

lemma statTx_Some:
  assumes "absolute p" and "statS3ObjectTx mime p d = Inr (Some i)"
  shows "\<exists>e. lookup d (items p) = Some e \<and> mr_kind e \<noteq> KindDir \<and> object_info mime p e d = Inr i"
  using assms(2) txStat_lookup [OF assms(1), of d]
  by (cases "txStat p d") (auto simp: statS3ObjectTx_def bind_result_Inr_iff split: option.splits if_splits)

lemma object_info_link:
  assumes "object_info mime p e d = Inr i"
  shows "lk_EntryID (oi_Link i) = mr_entry_id e" and "parse_file_id (mr_ref_data e) = Inr (lk_FileId (oi_Link i))"
    and "lk_FileSize (oi_Link i) = mr_size e" and "lk_Mtime (oi_Link i) = mr_mtime e"
  using assms by (auto simp: object_info_def directoryEntryToLink_def bind_result_Inr_iff)

lemma link_fields:
  assumes "directoryEntryToLink p e = Inr l"
  shows "lk_EntryID l = mr_entry_id e" and "parse_file_id (mr_ref_data e) = Inr (lk_FileId l)"
    and "lk_FileSize l = mr_size e" and "lk_Mtime l = mr_mtime e"
  using assms by (auto simp: directoryEntryToLink_def bind_result_Inr_iff)

text \<open>The transactional and the public lookup agree.\<close>

lemma Stat_statTx:
  assumes p: "absolute p"
  shows "StatS3Object mime p d = Inr i \<longleftrightarrow> statS3ObjectTx mime p d = Inr (Some i)"
proof
  assume "StatS3Object mime p d = Inr i"
  then obtain e where "dirStat p d = Inr e" "mr_kind e \<noteq> KindDir" "object_info mime p e d = Inr i"
    by (auto simp: StatS3Object_def bind_result_Inr_iff split: if_splits)
  then show "statS3ObjectTx mime p d = Inr (Some i)"
    using txStat_found [OF p] dirStat_lookup [OF p] by (simp add: statS3ObjectTx_def)
next
  assume "statS3ObjectTx mime p d = Inr (Some i)"
  from statTx_Some [OF p this] obtain e where "lookup d (items p) = Some e" "mr_kind e \<noteq> KindDir" "object_info mime p e d = Inr i" by blast
  then show "StatS3Object mime p d = Inr i"
    using iffD2 [OF dirStat_lookup [OF p]] by (simp add: StatS3Object_def)
qed

section \<open>Creating the entry\<close>

lemma dir_frame_tables:
  assumes "dir_frame d d'"
  shows "metas d' = metas d" "props d' = props d" "locks d' = locks d" "deletes d' = deletes d" "files d' = files d"
    "segments d' = segments d" "uploads d' = uploads d" "mparts d' = mparts d" "pins d' = pins d" "parts d' = parts d"
  using assms unfolding dir_frame_def by (cases d; cases d'; simp)+

lemma selectLoop_seq: "selectLoop idfn now allow seen xs pid d = Inr (q, d') \<Longrightarrow> id_seq d \<le> id_seq d'"
proof (induction xs arbitrary: seen pid d)
  case (Cons x xs)
  then obtain r e where comp: "txSelectDirComponent idfn now pid x (Join (seen @ [x])) allow d = Inr (r, e)"
    and rest: "selectLoop idfn now allow (seen @ [x]) xs (fst r) e = Inr (q, d')"
    by (auto simp: bind_result_Inr_iff split: if_splits)
  have "id_seq d \<le> id_seq e"
    using comp by (auto simp: txSelectDirComponent_def txCreateDir_def txCreateEntry_def Let_def bind_result_Inr_iff
        recordChange_def touchEntryID_def split: option.splits if_splits)
  then show ?case using Cons.IH [OF rest] by simp
qed simp

lemma txOnSelectDir_seq: "txOnSelectDir idfn now dir allow d = Inr (q, d') \<Longrightarrow> id_seq d \<le> id_seq d'"
  by (auto simp: txOnSelectDir_def bind_result_Inr_iff intro: selectLoop_seq)

lemma touchParent_seq: "touchParent p now d = Inr d' \<Longrightarrow> id_seq d' = id_seq d"
  by (auto simp: touchParent_def touchEntryID_def split: sum.splits if_splits option.splits prod.splits)

lemma touchParent_recent:
  assumes ok: "tree_ok (mappings d)" and "touchParent p now d = Inr d'" and "lookup d xs = Some m" and "mr_mtime m = now"
  shows "lookup d' xs = Some m"
proof -
  consider "d' = d" | e where "d' = touchEntryID e now d"
    using assms(2) by (auto simp: touchParent_def split: sum.splits if_splits option.splits prod.splits)
  then show ?thesis
  proof cases
    case 2
    let ?f = "\<lambda>m. if mr_entry_id m = e then m\<lparr>mr_mtime := now\<rparr> else m"
    have "lookup d' xs = map_option ?f (lookup d xs)"
      by (rule lookup_map [OF ok]) (simp_all add: 2 touchEntryID_def same_place_def)
    then show ?thesis using assms(3,4) by simp
  qed (use assms in simp)
qed

lemma txCreate_entry:
  assumes ids: "good_ids idfn" and ok: "dir_ok idfn d" and p: "absolute p" "components p \<noteq> []"
    and create: "txCreate idfn now p fsize refdata d = Inr (e, d')"
  shows "\<exists>k. lookup d' (items p) = Some (e\<lparr>mr_id := k\<rparr>)"
    and "mr_ref_data e = refdata" and "mr_size e = fsize" and "mr_kind e = KindFile"
    and "\<exists>n\<ge>id_seq d. mr_entry_id e = idfn n \<and> n < id_seq d'" and "metas d' = metas d"
proof -
  let ?p = "TrimSuffixSlash p"
  obtain cs c where cs: "components p = cs @ [c]" using p(2) by (metis append_butlast_last_id)
  have n: "\<forall>c\<in>set (cs @ [c]). normal c" using components_normal [of p] cs by simp
  have "Clean ?p = abs_path (cs @ [c])"
    using components_TrimSuffixSlash [OF p] Clean_components cs by simp
  note split = splitFilename_abs [OF this n]
  have path: "items p = (''/'' # cs) @ [c]" by (simp add: items_def cs)
  let ?ent = "new_entry c refdata KindFile fsize defaultEntryFileMode now"
  from create obtain pid d1 eid d2 where select: "txOnSelectDir idfn now (abs_path cs) True d = Inr (pid, d1)"
    and new: "txCreateEntry idfn pid ?ent d1 = Inr (eid, d2)"
    and touch: "touchParent ?p now (recordChange ?p ChangeCreated now d2) = Inr d'"
    and e: "e = ?ent\<lparr>mr_parent := pid, mr_entry_id := eid\<rparr>"
    by (auto simp: txCreate_def Let_def split bind_result_Inr_iff split: if_splits)
  have "\<forall>c\<in>set cs. normal c" using n by simp
  note sel = txOnSelectDir_tree [OF ids ok this select]
  have name: "mr_name ?ent = c" "mr_kind ?ent = KindFile" by (simp_all add: new_entry_def)
  have sel': "dir_ok idfn d1" "hangs_at (mappings d1) pid (''/'' # cs)" "pid \<noteq> 0" using sel by auto
  have "mr_kind ?ent = KindDir \<or> mr_kind ?ent = KindFile" and "pid = 0 \<longrightarrow> mr_name ?ent = ''/'' \<and> mr_kind ?ent = KindDir"
    using name sel'(3) by simp_all
  note made = txCreateEntry_tree [OF ids sel'(1,2) this new, unfolded name]
  let ?row = "?ent\<lparr>mr_id := Suc (mapping_seq d1), mr_entry_id := eid, mr_parent := pid\<rparr>"
  have d2: "dir_ok idfn d2" "lookup d2 = (lookup d1)(items p \<mapsto> ?row)" using made path by simp_all
  let ?d = "recordChange ?p ChangeCreated now d2"
  have "lookup ?d (items p) = Some ?row" using d2(2) lookup_mappings [of ?d d2] by simp
  then have "lookup d' (items p) = Some ?row"
    using touchParent_recent [OF _ touch] dir_okD [OF d2(1)] by (simp add: new_entry_def)
  then show "\<exists>k. lookup d' (items p) = Some (e\<lparr>mr_id := k\<rparr>)" unfolding e by (intro exI [of _ "Suc (mapping_seq d1)"]) simp
  show "mr_ref_data e = refdata" "mr_size e = fsize" "mr_kind e = KindFile" by (simp_all add: e new_entry_def)
  have "id_seq d \<le> id_seq d1" using txOnSelectDir_seq [OF select] .
  moreover have "eid = idfn (id_seq d1)" "id_seq d2 = Suc (id_seq d1)"
    using new by (auto simp: txCreateEntry_def Let_def split: if_splits)
  moreover have "id_seq d' = id_seq d2" using touchParent_seq [OF touch] by (simp add: recordChange_def)
  ultimately show "\<exists>n\<ge>id_seq d. mr_entry_id e = idfn n \<and> n < id_seq d'" by (intro exI [of _ "id_seq d1"]) (simp add: e)
  show "metas d' = metas d" using dir_frame_tables(1) dir_change_txCreate [OF create] by (simp add: dir_change_def)
qed

section \<open>Replacing the entry\<close>

lemma collectAndRemove_seq: "collectAndRemove n now p e s = Inr s' \<Longrightarrow> id_seq (snd s') = id_seq (snd s)"
proof (induction n arbitrary: p e s s')
  case (Suc n)
  then obtain removed d where mid: "(if mr_kind e = KindDir
        then fold_result (\<lambda>child. collectAndRemove n now (Join [p, mr_name child]) child)
               (txListAllDir (mr_entry_id e) (snd s)) s else Inr s) = Inr (removed, d)"
    and s': "s' = (removed @ [e], txRemove (mr_parent e) (mr_name e) (recordChange p ChangeDeleted now d))"
    by (auto simp: collectAndRemove.simps bind_result_Inr_iff)
  have "id_seq d = id_seq (snd s)"
  proof (cases "mr_kind e = KindDir")
    case True
    with mid have "fold_result (\<lambda>child. collectAndRemove n now (Join [p, mr_name child]) child)
               (txListAllDir (mr_entry_id e) (snd s)) s = Inr (removed, d)" by simp
    then have "id_seq (snd (removed, d)) = id_seq (snd s)"
      by (rule fold_result_same [where g = "\<lambda>s. id_seq (snd s)"]) (rule Suc.IH)
    then show ?thesis by simp
  qed (use mid in simp)
  then show ?case unfolding s' by (simp add: txRemove_def recordChange_def)
qed simp

lemma txRemoveTree_seq: "txRemoveTree now p d = Inr (removed, d') \<Longrightarrow> id_seq d' = id_seq d"
  by (auto simp: txRemoveTree_def bind_result_Inr_iff touchParent_seq split: option.splits dest!: collectAndRemove_seq)

lemma file_leaf:
  assumes ok: "tree_ok (mappings d)" and "lookup d xs = Some e" and "mr_kind e \<noteq> KindDir" and "strict_prefix xs zs"
  shows "lookup d zs = None"
proof (rule ccontr)
  assume "lookup d zs \<noteq> None"
  then obtain m where m: "row_path (mappings d) m zs" using lookup_path [OF ok] by auto
  obtain ys where ys: "zs = xs @ ys" "ys \<noteq> []" using assms(4) by (auto simp: strict_prefix_def prefix_def)
  have e: "row_path (mappings d) e xs" using assms(2) lookup_path [OF ok] by blast
  then have "xs \<noteq> []" using row_path_nonempty by blast
  then obtain p where "row_path (mappings d) p xs" "mr_kind p = KindDir" using row_path_prefix m ys by metis
  then show False using row_path_inj [OF ok _ e] assms(3) by blast
qed

text \<open>Removing a file entry only affects its own path.\<close>

lemma removeReplaced_tree:
  assumes ok: "dir_ok idfn d" and p: "absolute p" and stat: "statS3ObjectTx mime p d = Inr current"
    and rem: "removeReplacedS3Object now p current d = Inr (old, d')"
  shows "dir_ok idfn d'" and "xs \<noteq> items p \<Longrightarrow> entries d' xs = entries d xs"
    and "old = (case current of None \<Rightarrow> 0 | Some i \<Rightarrow> lk_FileId (oi_Link i))"
    and "id_seq d' = id_seq d" and "set (metas d') \<subseteq> set (metas d)"
    and "current \<noteq> None \<Longrightarrow> lookup d' (items p) = None"
proof -
  have "(current \<noteq> None \<longrightarrow> lookup d' (items p) = None) \<and> dir_ok idfn d' \<and> (xs \<noteq> items p \<longrightarrow> entries d' xs = entries d xs) \<and>
      old = (case current of None \<Rightarrow> 0 | Some i \<Rightarrow> lk_FileId (oi_Link i)) \<and> id_seq d' = id_seq d \<and> set (metas d') \<subseteq> set (metas d)"
  proof (cases current)
    case None
    then show ?thesis using rem ok by (simp add: removeReplacedS3Object_def)
  next
    case (Some i)
    obtain e where e: "lookup d (items p) = Some e" "mr_kind e \<noteq> KindDir"
      using statTx_Some [OF p] stat Some by blast
    obtain removed d1 where d1: "txRemoveTree now p d = Inr (removed, d1)" "dir_ok idfn d1" "dir_frame d d1"
        "\<forall>zs. entries d1 zs = (if prefix (items p) zs then None else entries d zs)"
      using txRemoveTree_tree [OF ok p e(1), of now] by blast
    have d': "d' = deleteS3Metadata (lk_EntryID (oi_Link i)) d1" "old = lk_FileId (oi_Link i)"
      using rem Some d1(1) by (auto simp: removeReplacedS3Object_def)
    have "entries d xs = None" if "strict_prefix (items p) xs"
      using file_leaf [OF dir_okD [OF ok] e that] by (simp add: entries_lookup)
    then have "entries d1 xs = entries d xs" if "xs \<noteq> items p"
      using d1(4) that by (auto simp: strict_prefix_def)
    moreover have "entries d' = entries d1" using d' entries_mappings [of d' d1] by (simp add: deleteS3Metadata_def)
    moreover have "dir_ok idfn d'" using d1(2) d' by (simp add: dir_ok_def deleteS3Metadata_def)
    moreover have "lookup d' (items p) = None" using d1(4) calculation(2) by (simp flip: entries_lookup)
    moreover have "id_seq d1 = id_seq d" using txRemoveTree_seq [OF d1(1)] .
    moreover have "set (metas d') \<subseteq> set (metas d)"
      using d' dir_frame_tables(1) [OF d1(3)] by (auto simp: deleteS3Metadata_def)
    ultimately show ?thesis using d' Some by (simp add: deleteS3Metadata_def)
  qed
  then show "dir_ok idfn d'" and "xs \<noteq> items p \<Longrightarrow> entries d' xs = entries d xs"
    and "old = (case current of None \<Rightarrow> 0 | Some i \<Rightarrow> lk_FileId (oi_Link i))"
    and "id_seq d' = id_seq d" and "set (metas d') \<subseteq> set (metas d)"
    and "current \<noteq> None \<Longrightarrow> lookup d' (items p) = None" by blast+
qed

lemma same_mappings:
  assumes "mappings d' = mappings d" and "id_seq d' = id_seq d"
  shows "dir_ok idfn d' = dir_ok idfn d" and "entries d' = entries d" and "lookup d' = lookup d"
  using assms entries_mappings [of d' d] lookup_mappings [of d' d] by (auto simp: dir_ok_def)

lemma mark_tables:
  assumes "markFileTreePendingIfUnreferenced f now d = Inr d'"
  shows "mappings d' = mappings d" "id_seq d' = id_seq d" "metas d' = metas d" "props d' = props d" "locks d' = locks d"
proof -
  obtain F where "d' = pend F now d" using mark_pend [OF assms] .
  then show "mappings d' = mappings d" "id_seq d' = id_seq d" "metas d' = metas d" "props d' = props d" "locks d' = locks d"
    by (simp_all add: pend_def)
qed

lemma insert_read:
  assumes "insertS3Metadata r d = Inr d'"
  shows "d' = d\<lparr>metas := metas d @ [r]\<rparr>" and "readS3Metadata (or_entry_id r) d' = Some r"
proof -
  have fresh: "or_entry_id r \<notin> set (map or_entry_id (metas d))" and d': "d' = d\<lparr>metas := metas d @ [r]\<rparr>"
    using assms by (auto simp: insertS3Metadata_def insert_unique_def bind_result_Inr_iff split: if_splits)
  show "d' = d\<lparr>metas := metas d @ [r]\<rparr>" by (fact d')
  have "find (\<lambda>s. or_entry_id s = or_entry_id r) (metas d) = None"
    using fresh by (auto simp: find_None_iff image_iff)
  moreover have "find P (xs @ [r]) = (case find P xs of None \<Rightarrow> if P r then Some r else None | Some x \<Rightarrow> Some x)" for P xs
    by (induction xs) auto
  ultimately show "readS3Metadata (or_entry_id r) d' = Some r" using d' by (simp add: readS3Metadata_def)
qed

section \<open>Publishing\<close>

definition stored_for :: "metadata_row \<Rightarrow> nat \<Rightarrow> int \<Rightarrow> metadata_row" where
  "stored_for metadata entryID now = metadata\<lparr>or_entry_id := entryID, or_ctime := now, or_mtime := now\<rparr>"

lemma publish_steps:
  assumes "PublishS3Object idfn mime now p fileID fsize metadata condition d = Inr (i, d')"
  obtains current old d1 e d2 d3 d4 where "statS3ObjectTx mime p d = Inr current"
    and "evaluateS3Condition current condition = Inr ()" and "linkable d fileID"
    and "removeReplacedS3Object now p current d = Inr (old, d1)"
    and "txCreate idfn now p fsize (format_nat fileID) d1 = Inr (e, d2)"
    and "(case current of None \<Rightarrow> Inr d2
           | Some c \<Rightarrow> rebindWebDAVProtocolState (lk_EntryID (oi_Link c)) (mr_entry_id e) p d2) = Inr d3"
    and "insertS3Metadata (stored_for metadata (mr_entry_id e) now) d3 = Inr d4"
    and "(if old \<noteq> 0 \<and> old \<noteq> fileID then markFileTreePendingIfUnreferenced old now d4 else Inr d4) = Inr d'"
    and "directoryEntryToLink p e = Inr (oi_Link i)" and "oi_Metadata i = stored_for metadata (mr_entry_id e) now"
  using assms unfolding PublishS3Object_def publishS3ObjectTx_def stored_for_def [symmetric] Let_def
  by (clarsimp simp: bind_result_Inr_iff linkable_unit)

lemma rebind_if_rows:
  assumes "(case c of None \<Rightarrow> Inr d | Some x \<Rightarrow> rebindWebDAVProtocolState (f x) b p d) = Inr d'"
  obtains x y where "d' = d\<lparr>props := x, locks := y\<rparr>"
proof (cases c)
  case None
  then show ?thesis using assms that [of "locks d" "props d"] by simp
next
  case (Some x)
  then show ?thesis using assms that by (auto elim: rebind_rows)
qed

lemma mark_if_tables:
  assumes "(if b then markFileTreePendingIfUnreferenced f now d else Inr d) = Inr d'"
  shows "mappings d' = mappings d" "id_seq d' = id_seq d" "metas d' = metas d" "props d' = props d" "locks d' = locks d"
  using assms mark_tables by (auto split: if_splits)

lemma publish_effect:
  assumes ids: "good_ids idfn" and ok: "dir_ok idfn d" and p: "absolute p" "components p \<noteq> []" and fid: "fileID < 2 ^ 64"
    and pub: "PublishS3Object idfn mime now p fileID fsize metadata condition d = Inr (i, d')"
  shows "dir_ok idfn d'" and "StatS3Object mime p d' = Inr i"
    and "lk_FileId (oi_Link i) = fileID" and "lk_FileSize (oi_Link i) = fsize"
    and "oi_Metadata i = stored_for metadata (lk_EntryID (oi_Link i)) now"
    and "xs \<noteq> items p \<Longrightarrow> entries d xs = Some x \<Longrightarrow> entries d' xs = Some x"
    and "xs \<noteq> items p \<Longrightarrow> entries d xs = None \<Longrightarrow> entries d' xs = Some x \<Longrightarrow> strict_prefix xs (items p) \<and> mr_kind x = KindDir"
proof -
  from pub obtain current old d1 e d2 d3 d4 where stat: "statS3ObjectTx mime p d = Inr current"
    and rem: "removeReplacedS3Object now p current d = Inr (old, d1)"
    and new: "txCreate idfn now p fsize (format_nat fileID) d1 = Inr (e, d2)"
    and d3: "(case current of None \<Rightarrow> Inr d2
           | Some c \<Rightarrow> rebindWebDAVProtocolState (lk_EntryID (oi_Link c)) (mr_entry_id e) p d2) = Inr d3"
    and ins: "insertS3Metadata (stored_for metadata (mr_entry_id e) now) d3 = Inr d4"
    and mark: "(if old \<noteq> 0 \<and> old \<noteq> fileID then markFileTreePendingIfUnreferenced old now d4 else Inr d4) = Inr d'"
    and link: "directoryEntryToLink p e = Inr (oi_Link i)" and meta: "oi_Metadata i = stored_for metadata (mr_entry_id e) now"
    by (rule publish_steps)
  note r = removeReplaced_tree [OF ok p(1) stat rem]
  note c = txCreate_tree [OF ids r(1) p new] and ce = txCreate_entry [OF ids r(1) p new]
  have d3t: "mappings d3 = mappings d2" "id_seq d3 = id_seq d2" using d3 by (auto elim: rebind_if_rows)
  have d4t: "mappings d4 = mappings d3" "id_seq d4 = id_seq d3" using insert_read(1) [OF ins] by simp_all
  note d't = mark_if_tables [OF mark]
  have maps: "mappings d' = mappings d2" "id_seq d' = id_seq d2" using d3t d4t d't(1,2) by simp_all
  note same = same_mappings [OF maps]
  show "dir_ok idfn d'" using same(1) c(1) by simp
  have eid: "lk_EntryID (oi_Link i) = mr_entry_id e" and fileid: "lk_FileId (oi_Link i) = fileID" and sz: "lk_FileSize (oi_Link i) = fsize"
    using link_fields [OF link] ce(2,3) parse_format [OF fid] by simp_all
  then show "lk_FileId (oi_Link i) = fileID" "lk_FileSize (oi_Link i) = fsize"
    and "oi_Metadata i = stored_for metadata (lk_EntryID (oi_Link i)) now" using meta by simp_all
  obtain k where k: "lookup d' (items p) = Some (e\<lparr>mr_id := k\<rparr>)" using ce(1) same(3) by auto
  have read: "readS3Metadata (mr_entry_id e) d' = Some (stored_for metadata (mr_entry_id e) now)"
    using insert_read(2) [OF ins] d't(3) by (simp add: stored_for_def readS3Metadata_def)
  have "directoryEntryToLink p (e\<lparr>mr_id := k\<rparr>) = Inr (oi_Link i)" using link by (simp add: directoryEntryToLink_def)
  then have "object_info mime p (e\<lparr>mr_id := k\<rparr>) d' = Inr i" using read meta by (simp add: object_info_def)
  moreover have "dirStat p d' = Inr (e\<lparr>mr_id := k\<rparr>)" using k dirStat_lookup [OF p(1)] by blast
  ultimately show "StatS3Object mime p d' = Inr i" using ce(4) by (simp add: StatS3Object_def)
  show "entries d' xs = Some x" if "xs \<noteq> items p" "entries d xs = Some x"
    using c(4) [of xs x] r(2) [OF that(1)] that(2) same(2) by simp
  show "strict_prefix xs (items p) \<and> mr_kind x = KindDir" if "xs \<noteq> items p" "entries d xs = None" "entries d' xs = Some x"
    using c(5) [of xs x] r(2) [OF that(1)] that same(2) by simp
qed

lemma published_replaced:
  assumes "removeReplacedS3Object now p current d = Inr (old, d')" and "published d"
  shows "published d'"
proof (cases current)
  case (Some i)
  with assms obtain removed d1 where "txRemoveTree now p d = Inr (removed, d1)" "d' = deleteS3Metadata (lk_EntryID (oi_Link i)) d1"
    by (auto simp: removeReplacedS3Object_def bind_result_Inr_iff)
  then show ?thesis using published_dir [OF assms(2) dir_change_remove_tree] by simp
qed (use assms in \<open>simp add: removeReplacedS3Object_def\<close>)

lemma replaced_frame:
  assumes "removeReplacedS3Object now p current d = Inr (old, d')"
  shows "linkable d' f = linkable d f"
proof (cases current)
  case (Some i)
  with assms obtain removed d1 where rem: "txRemoveTree now p d = Inr (removed, d1)" and d': "d' = deleteS3Metadata (lk_EntryID (oi_Link i)) d1"
    by (auto simp: removeReplacedS3Object_def bind_result_Inr_iff)
  have "linkable d' f = linkable d1 f" unfolding d' deleteS3Metadata_def by (rule linkable_tables) simp_all
  also have "\<dots> = linkable d f" using dir_change_remove_tree [OF rem, of "{}"] linkable_frame by (simp add: dir_change_def)
  finally show ?thesis .
qed (use assms in \<open>simp add: removeReplacedS3Object_def\<close>)

lemma published_create:
  assumes "published d" and "linkable d fileID" and "fileID < 2 ^ 64" and "txCreate idfn now p fsize (format_nat fileID) d = Inr (e, d')"
  shows "published d'"
  using dir_change_txCreate [OF assms(4)]
  by (rule published_change [OF assms(1)]) (use assms(2,3) in \<open>auto simp: serves_def\<close>)

lemma published_mark_if:
  assumes "published d" and "(if b then markFileTreePendingIfUnreferenced f now d else Inr d) = Inr d'"
  shows "published d'"
  using assms published_mark by (auto split: if_splits)

lemma publish_published:
  assumes "published d" and "fileID < 2 ^ 64" and pub: "PublishS3Object idfn mime now p fileID fsize metadata condition d = Inr (i, d')"
  shows "published d'"
proof -
  from pub obtain current old d1 e d2 d3 d4 where link: "linkable d fileID"
    and rem: "removeReplacedS3Object now p current d = Inr (old, d1)"
    and new: "txCreate idfn now p fsize (format_nat fileID) d1 = Inr (e, d2)"
    and d3: "(case current of None \<Rightarrow> Inr d2
           | Some c \<Rightarrow> rebindWebDAVProtocolState (lk_EntryID (oi_Link c)) (mr_entry_id e) p d2) = Inr d3"
    and ins: "insertS3Metadata (stored_for metadata (mr_entry_id e) now) d3 = Inr d4"
    and mark: "(if old \<noteq> 0 \<and> old \<noteq> fileID then markFileTreePendingIfUnreferenced old now d4 else Inr d4) = Inr d'"
    by (rule publish_steps)
  have "published d2"
    using published_create [OF published_replaced [OF rem assms(1)] _ assms(2) new] link replaced_frame [OF rem] by simp
  then have "published d3" using d3 published_rebind by (auto split: option.splits)
  then show ?thesis using published_insertS3Metadata [OF ins] published_mark_if [OF _ mark] by simp
qed

section \<open>Operations that cannot fail\<close>

lemma markTree_plain:
  assumes "readStoredFile f d = Some r" and "fr_layout r = 1"
  shows "\<exists>F. markTree (Suc n) f now d = Inr (pend F now d)"
  using assms by (cases "fileHasLiveReference d f")
    (auto simp: markTree.simps(2) markPhysicalPending_pend intro: exI [of _ "{}"])

lemma markTree_plain_list:
  assumes "\<forall>f\<in>set fs. \<exists>r. readStoredFile f d = Some r \<and> fr_layout r = 1"
  shows "\<exists>F. fold_result (\<lambda>f. markTree (Suc n) f now) fs (pend G now d) = Inr (pend F now d)"
  using assms
proof (induction fs arbitrary: G)
  case (Cons f fs)
  then obtain r where "readStoredFile f (pend G now d) = Some r" "fr_layout r = 1" by auto
  then obtain F where "markTree (Suc n) f now (pend G now d) = Inr (pend F now (pend G now d))" using markTree_plain by blast
  then show ?case using Cons.IH [of "F \<union> G"] Cons.prems by (simp add: pend_pend)
qed auto

text \<open>A file that can be linked can be marked for deletion, whatever still refers to it.\<close>

lemma mark_total:
  assumes "linkable d f"
  shows "\<exists>F. markFileTreePendingIfUnreferenced f now d = Inr (pend F now d)"
proof -
  obtain r where r: "readStoredFile f d = Some r" "fr_state r = FileStateReady"
    "fr_layout r = 2 \<longrightarrow> (\<forall>s\<in>set (manifest f d). whole_segment d s)"
    using linkable_sound [of f d] assms by (auto simp: linkable_def)
  have layout: "fr_layout r = 1 \<or> fr_layout r = 2"
    using assms r(1,2) by (auto simp: linkable_def ensureFileTreeCanBeLinked_def split: if_splits)
  show ?thesis
  proof (cases "fr_layout r = 1 \<or> fileHasLiveReference d f")
    case True
    then show ?thesis
      using markTree_plain [OF r(1), of "Suc (length (files d))" now]
      by (auto simp: markFileTreePendingIfUnreferenced_def markTree.simps(2) [of "Suc (length (files d))"] intro: exI [of _ "{}"])
  next
    case False
    then have two: "fr_layout r = 2" using layout by blast
    have "\<forall>g\<in>set (compositeSourceFileIDs f d). \<exists>r. readStoredFile g d = Some r \<and> fr_layout r = 1"
      using r(3) two by (auto simp: compositeSourceFileIDs_def whole_segment_def)
    from markTree_plain_list [OF this, of "length (files d)" now "{}"] show ?thesis
      using False two r(1) by (simp add: markFileTreePendingIfUnreferenced_def markTree.simps(2) [of "Suc (length (files d))"])
  qed
qed

lemma ParseUint_bound: "ParseUint s = Some n \<Longrightarrow> n < 2 ^ 64"
  by (auto simp: ParseUint_def split: option.splits if_splits)

lemma published_entry:
  assumes "published d" and "lookup d xs = Some e" and "mr_kind e \<noteq> KindDir" and "tree_ok (mappings d)"
  obtains f where "parse_file_id (mr_ref_data e) = Inr f" and "mr_ref_data e = format_nat f" and "linkable d f" and "f < 2 ^ 64"
proof -
  have "e \<in> set (mappings d)" using lookup_path [OF assms(4)] assms(2) row_path_in by blast
  moreover have "mr_kind e = KindFile" using tree_okD(5) [OF assms(4)] calculation assms(3) by blast
  ultimately obtain f where f: "ParseUint (mr_ref_data e) = Some f" "mr_ref_data e = format_nat f" "linkable d f"
    using publishedD [OF assms(1)] by blast
  moreover have "f < 2 ^ 64" using f(1) by (rule ParseUint_bound)
  ultimately show ?thesis using that by (simp add: parse_file_id_def)
qed

text \<open>Metadata rows belong to entries the generator has already numbered.\<close>

definition metas_known :: "(nat \<Rightarrow> nat) \<Rightarrow> db \<Rightarrow> bool" where
  "metas_known idfn d \<longleftrightarrow> (\<forall>r\<in>set (metas d). \<exists>n<id_seq d. or_entry_id r = idfn n)"

lemma findLoop_error:
  "findLoop xs 0 d = Inl x \<Longrightarrow> x = ErrNotExist \<or> (\<exists>ys m. prefix ys xs \<and> lookup d ys = Some m \<and> mr_kind m \<noteq> KindDir)"
proof (induction xs rule: rev_induct)
  case (snoc c xs)
  show ?case
  proof (cases "findLoop xs 0 d")
    case (Inl y)
    then have "findLoop xs 0 d = Inl x" using snoc.prems by (simp add: findLoop_append)
    from snoc.IH [OF this] show ?thesis using prefix_prefix [of _ xs "[c]"] by blast
  next
    case (Inr q)
    then have last: "findLoop [c] q d = Inl x" using snoc.prems by (simp add: findLoop_append)
    show ?thesis
    proof (cases "txSearchEntry q c d")
      case (Some m)
      then have "mr_kind m \<noteq> KindDir" using last by (auto split: if_splits)
      moreover have "lookup d (xs @ [c]) = Some m" using Inr Some by (simp add: lookup_def)
      ultimately show ?thesis by blast
    qed (use last in simp)
  qed
qed simp

lemma txStat_missing:
  assumes p: "absolute p" and dirs: "all_dirs d (butlast (items p))" and none: "lookup d (items p) = None"
  shows "txStat p d = Inr None"
proof (cases "txGetEntryInfo p d")
  case (Inr r)
  obtain q e where "r = (q, e)" by (cases r)
  then show ?thesis using Inr txGetEntryInfo_lookup(1) [OF p] none by (auto simp: txStat_def)
next
  case (Inl x)
  obtain cs c where cs: "components p = cs @ [c]"
    using Inl txGetEntryInfo_root [of p d] Clean_components [OF p] by (cases "components p" rule: rev_cases) auto
  have n: "\<forall>c\<in>set (cs @ [c]). normal c" using components_normal [of p] cs by simp
  have "Clean p = abs_path (cs @ [c])" using Clean_components [OF p] cs by simp
  from txGetEntryInfo_abs [OF this n, of d] Inl have "findLoop (''/'' # cs) 0 d = Inl x"
    by (cases "findLoop (''/'' # cs) 0 d") (simp_all del: findLoop.simps)
  moreover have "butlast (items p) = ''/'' # cs" by (simp add: items_def cs)
  ultimately have "x = ErrNotExist"
    using findLoop_error [of "''/'' # cs" d x] dirs by (fastforce simp: all_dirs_def entries_def)
  then show ?thesis using Inl by (simp add: txStat_def)
qed

lemma statTx_total:
  assumes "absolute p" and "tree_ok (mappings d)" and "published d" and "all_dirs d (butlast (items p))"
  shows "\<exists>current. statS3ObjectTx mime p d = Inr current"
proof (cases "lookup d (items p)")
  case None
  then have "txStat p d = Inr None" using txStat_missing [OF assms(1,4)] by blast
  then show ?thesis by (simp add: statS3ObjectTx_def)
next
  case (Some e)
  show ?thesis
  proof (cases "mr_kind e = KindDir")
    case False
    obtain f where "parse_file_id (mr_ref_data e) = Inr f" using published_entry [OF assms(3) Some False assms(2)] .
    then show ?thesis using txStat_found [OF assms(1) Some] by (simp add: statS3ObjectTx_def object_info_def directoryEntryToLink_def bind_result_def)
  qed (use txStat_found [OF assms(1) Some] in \<open>simp add: statS3ObjectTx_def\<close>)
qed

lemma removeReplaced_total:
  assumes "dir_ok idfn d" and "absolute p" and "statS3ObjectTx mime p d = Inr current"
  shows "\<exists>old d'. removeReplacedS3Object now p current d = Inr (old, d')"
proof (cases current)
  case (Some i)
  then obtain e where "lookup d (items p) = Some e" using statTx_Some [OF assms(2)] assms(3) by blast
  then obtain removed d1 where "txRemoveTree now p d = Inr (removed, d1)" using txRemoveTree_tree [OF assms(1,2)] by blast
  then show ?thesis using Some by (simp add: removeReplacedS3Object_def)
qed (simp add: removeReplacedS3Object_def)

lemma txCreate_linkable: "txCreate idfn now p fsize refdata d = Inr (e, d') \<Longrightarrow> linkable d' f = linkable d f"
  using dir_change_txCreate linkable_frame unfolding dir_change_def by blast

lemma replaced_linkable:
  assumes "published d" and "tree_ok (mappings d)" and "absolute p" and "statS3ObjectTx mime p d = Inr (Some i)"
  shows "linkable d (lk_FileId (oi_Link i))"
proof -
  obtain e where e: "lookup d (items p) = Some e" "mr_kind e \<noteq> KindDir" "object_info mime p e d = Inr i"
    using statTx_Some [OF assms(3,4)] by blast
  obtain f where "parse_file_id (mr_ref_data e) = Inr f" "linkable d f" using published_entry [OF assms(1) e(1,2) assms(2)] .
  then show ?thesis using object_info_link(2) [OF e(3)] by simp
qed

lemma mark_if_total:
  assumes "b \<Longrightarrow> linkable d f"
  shows "\<exists>d'. (if b then markFileTreePendingIfUnreferenced f now d else Inr d) = Inr d'"
  using mark_total [of d f now] assms by (cases b) auto

text \<open>
  What the unique indexes on properties and locks leave to show: the rows of an entry can pass to
  a new one if properties belong to drawn identifiers and the locks of an entry carry its path.
\<close>

definition props_known :: "(nat \<Rightarrow> nat) \<Rightarrow> db \<Rightarrow> bool" where
  "props_known idfn d \<longleftrightarrow> distinct (map property_key (props d)) \<and> (\<forall>r\<in>set (props d). \<exists>n<id_seq d. wr_entry_id r = idfn n)"

definition locks_rooted :: "db \<Rightarrow> bool" where
  "locks_rooted d \<longleftrightarrow> distinct (map lr_root_path (locks d)) \<and>
     (\<forall>r\<in>set (locks d). \<forall>p m. absolute p \<longrightarrow> lookup d (items p) = Some m \<longrightarrow> mr_entry_id m = lr_root_entry r \<longrightarrow> lr_root_path r = Clean p)"

lemma update_keeps:
  assumes "distinct (map key rows)" and "\<And>r. r \<in> set rows \<Longrightarrow> P r \<Longrightarrow> key (f r) = key r"
  shows "update_unique key P f rows = Inr (map (\<lambda>r. if P r then f r else r) rows)"
proof -
  have "map key (map (\<lambda>r. if P r then f r else r) rows) = map key rows" using assms(2) by simp
  then show ?thesis using assms(1) unfolding update_unique_def Let_def by metis
qed

lemma rebind_total:
  assumes props: "distinct (map property_key (props d))" "\<forall>r\<in>set (props d). wr_entry_id r \<noteq> b"
    and locks: "distinct (map lr_root_path (locks d))" "\<forall>r\<in>set (locks d). lr_root_entry r = a \<longrightarrow> lr_root_path r = Clean p"
  shows "\<exists>d'. rebindWebDAVProtocolState a b p d = Inr d'"
proof -
  let ?f = "\<lambda>r. if wr_entry_id r = a then r\<lparr>wr_entry_id := b\<rparr> else r"
  have "inj_on (property_key \<circ> ?f) (set (props d))"
  proof (rule inj_onI)
    fix x y assume x: "x \<in> set (props d)" and y: "y \<in> set (props d)" and eq: "(property_key \<circ> ?f) x = (property_key \<circ> ?f) y"
    have "property_key x = property_key y"
      using eq props(2) x y by (auto simp: property_key_def split: if_splits)
    then show "x = y" using props(1) x y by (auto simp: distinct_map dest: inj_onD)
  qed
  then have "distinct (map property_key (map ?f (props d)))"
    using props(1) by (simp add: distinct_map o_def)
  then have "update_unique property_key (\<lambda>r. wr_entry_id r = a) (\<lambda>r. r\<lparr>wr_entry_id := b\<rparr>) (props d) = Inr (map ?f (props d))"
    unfolding update_unique_def Let_def by simp
  moreover have "update_unique lr_root_path (\<lambda>r. lr_root_entry r = a) (\<lambda>r. r\<lparr>lr_root_entry := b, lr_root_path := Clean p\<rparr>) (locks d) =
      Inr (map (\<lambda>r. if lr_root_entry r = a then r\<lparr>lr_root_entry := b, lr_root_path := Clean p\<rparr> else r) (locks d))"
    by (rule update_keeps [OF locks(1)]) (use locks(2) in simp)
  ultimately show ?thesis by (simp add: rebindWebDAVProtocolState_def)
qed

lemma removeReplaced_frame:
  assumes "removeReplacedS3Object now p current d = Inr (old, d')"
  shows "props d' = props d" and "locks d' = locks d"
proof -
  have "props d' = props d \<and> locks d' = locks d"
  proof (cases current)
    case (Some i)
    with assms obtain removed d1 where rem: "txRemoveTree now p d = Inr (removed, d1)" and d': "d' = deleteS3Metadata (lk_EntryID (oi_Link i)) d1"
      by (auto simp: removeReplacedS3Object_def bind_result_Inr_iff)
    show ?thesis using dir_change_remove_tree [OF rem, of "{}"] dir_frame_tables [of d d1]
      unfolding d' by (simp add: dir_change_def deleteS3Metadata_def)
  qed (use assms in \<open>simp add: removeReplacedS3Object_def\<close>)
  then show "props d' = props d" and "locks d' = locks d" by blast+
qed

lemma publish_total:
  assumes ids: "good_ids idfn" and ok: "dir_ok idfn d" and pub: "published d" and known: "metas_known idfn d"
    and p: "absolute p" "components p \<noteq> []" and fid: "fileID < 2 ^ 64" and link: "linkable d fileID"
    and dirs: "all_dirs d (butlast (items p))" and nodir: "\<And>e. lookup d (items p) = Some e \<Longrightarrow> mr_kind e \<noteq> KindDir"
    and rooted: "locks_rooted d" and props: "props_known idfn d"
    and stat: "statS3ObjectTx mime p d = Inr current" and cond: "evaluateS3Condition current condition = Inr ()"
  shows "\<exists>i d'. PublishS3Object idfn mime now p fileID fsize metadata condition d = Inr (i, d')"
proof -
  note tree = dir_okD [OF ok]
  obtain old d1 where rem: "removeReplacedS3Object now p current d = Inr (old, d1)"
    using removeReplaced_total [OF ok p(1) stat] by blast
  note r = removeReplaced_tree [OF ok p(1) stat rem]
  have "lookup d1 (items p) = None"
  proof (cases current)
    case None
    then have "lookup d (items p) = None" using statTx_None [OF p(1)] stat nodir by blast
    moreover have "d1 = d" using rem None by (simp add: removeReplacedS3Object_def)
    ultimately show ?thesis by simp
  qed (use r(6) in simp)
  moreover have "all_dirs d1 (butlast (items p))"
    using dirs r(2) butlast_short unfolding all_dirs_def by metis
  ultimately obtain e d2 where new: "txCreate idfn now p fsize (format_nat fileID) d1 = Inr (e, d2)"
    using txCreate_total [OF ids r(1) p] by blast
  note ce = txCreate_entry [OF ids r(1) p new]
  obtain n where n: "n \<ge> id_seq d" "mr_entry_id e = idfn n" using ce(5) r(4) by auto
  have fresh: "idfn k \<noteq> mr_entry_id e" if "k < id_seq d" for k
    using n ids that by (metis good_ids_def injD leD)
  have tabs: "props d2 = props d" "locks d2 = locks d"
    using removeReplaced_frame [OF rem] dir_frame_tables [of d1 d2] dir_change_txCreate [OF new] by (simp_all add: dir_change_def)
  obtain d3 where d3: "(case current of None \<Rightarrow> Inr d2
      | Some c \<Rightarrow> rebindWebDAVProtocolState (lk_EntryID (oi_Link c)) (mr_entry_id e) p d2) = Inr d3"
  proof (cases current)
    case None
    then show ?thesis using that by simp
  next
    case (Some c)
    then obtain x where x: "lookup d (items p) = Some x" "object_info mime p x d = Inr c"
      using statTx_Some [OF p(1)] stat by blast
    have "\<exists>d3. rebindWebDAVProtocolState (lk_EntryID (oi_Link c)) (mr_entry_id e) p d2 = Inr d3"
    proof (rule rebind_total)
      show "distinct (map property_key (props d2))" "distinct (map lr_root_path (locks d2))"
        using props rooted tabs by (simp_all add: props_known_def locks_rooted_def)
      show "\<forall>r\<in>set (props d2). wr_entry_id r \<noteq> mr_entry_id e"
        using props fresh tabs by (fastforce simp: props_known_def)
      show "\<forall>r\<in>set (locks d2). lr_root_entry r = lk_EntryID (oi_Link c) \<longrightarrow> lr_root_path r = Clean p"
        using rooted x object_info_link(1) [OF x(2)] p(1) tabs unfolding locks_rooted_def by auto
    qed
    then show ?thesis using that Some by auto
  qed
  obtain y z where d3': "d3 = d2\<lparr>props := y, locks := z\<rparr>" using rebind_if_rows [OF d3] .
  have m3: "metas d3 = metas d2" by (simp add: d3')
  let ?s = "stored_for metadata (mr_entry_id e) now"
  have "or_entry_id x \<noteq> mr_entry_id e" if "x \<in> set (metas d3)" for x
  proof -
    have "x \<in> set (metas d)" using that m3 ce(6) r(5) by auto
    then obtain k where "k < id_seq d" "or_entry_id x = idfn k" using known by (auto simp: metas_known_def)
    then show ?thesis using fresh by auto
  qed
  then have "mr_entry_id e \<notin> or_entry_id ` set (metas d3)" by (metis imageE)
  then have ins: "insertS3Metadata ?s d3 = Inr (d3\<lparr>metas := metas d3 @ [?s]\<rparr>)"
    by (simp add: insertS3Metadata_def insert_unique_def stored_for_def)
  have "linkable (d3\<lparr>metas := metas d3 @ [?s]\<rparr>) f = linkable d3 f" for f by (rule linkable_tables) simp_all
  moreover have "linkable d3 f = linkable d2 f" for f
    unfolding d3' by (rule linkable_tables) simp_all
  ultimately have l4: "linkable (d3\<lparr>metas := metas d3 @ [?s]\<rparr>) f = linkable d f" for f
    using txCreate_linkable [OF new] replaced_frame [OF rem] by simp
  have "linkable d old" if "old \<noteq> 0"
    using replaced_linkable [OF pub tree p(1)] stat r(3) that by (cases current) auto
  then obtain d' where mark: "(if old \<noteq> 0 \<and> old \<noteq> fileID
      then markFileTreePendingIfUnreferenced old now (d3\<lparr>metas := metas d3 @ [?s]\<rparr>) else Inr (d3\<lparr>metas := metas d3 @ [?s]\<rparr>)) = Inr d'"
    using mark_if_total [of "old \<noteq> 0 \<and> old \<noteq> fileID" "d3\<lparr>metas := metas d3 @ [?s]\<rparr>" old now] l4 by blast
  obtain l where l: "directoryEntryToLink p e = Inr l"
    using ce(2) parse_format [OF fid] by (simp add: directoryEntryToLink_def)
  show ?thesis
    unfolding PublishS3Object_def publishS3ObjectTx_def Let_def stored_for_def [symmetric]
    by (simp only: stat cond link [unfolded linkable_def] rem new bind_result_simps prod.case d3 ins mark l) blast
qed

section \<open>Deleting\<close>

lemma dirStat_missing:
  assumes p: "absolute p" and stat: "txStat p d = Inr None"
  shows "dirStat p d = Inl ErrNotExist"
proof -
  have eq: "dirStat p d = bind_result (txGetEntryInfo p d) (\<lambda>(_, e). case e of None \<Rightarrow> Inl ErrNotExist | Some m \<Rightarrow> Inr m)"
    by (auto simp: dirStat_def txGetEntryInfo_def bind_result_def split: prod.splits option.splits sum.splits)
  show ?thesis using stat unfolding eq txStat_def by (auto split: sum.splits if_splits)
qed

lemma ancestors_dirs:
  assumes ok: "tree_ok (mappings d)" and "lookup d xs = Some e"
  shows "all_dirs d (butlast xs)"
proof (cases xs rule: rev_cases)
  case Nil
  then show ?thesis using assms(2) by (simp add: lookup_def)
next
  case (snoc ys c)
  have e: "row_path (mappings d) e xs" using assms(2) lookup_path [OF ok] by blast
  show ?thesis
    unfolding all_dirs_def
  proof (intro allI impI)
    fix zs m assume "prefix zs (butlast xs)" and m: "entries d zs = Some m"
    then obtain r where r: "xs = zs @ r" "r \<noteq> []" using snoc by (auto simp: prefix_def)
    obtain q where q: "lookup d zs = Some q" "m = bare q" using m by (auto simp: entries_def)
    have "zs \<noteq> []" using q(1) by (auto simp: lookup_def)
    then obtain p where "row_path (mappings d) p zs" "mr_kind p = KindDir" using row_path_prefix [of "mappings d" e zs r] e r by blast
    then have "p = q" using q(1) lookup_path [OF ok] row_path_inj [OF ok] by blast
    then show "mr_kind m = KindDir" using q(2) \<open>mr_kind p = KindDir\<close> by simp
  qed
qed

text \<open>What stays live in the tree of a file that was marked is still referenced.\<close>

definition only_referenced :: "db \<Rightarrow> nat \<Rightarrow> bool" where
  "only_referenced d f \<longleftrightarrow>
     (\<forall>r\<in>set (deletes d). dr_file_id r \<in> tree_files d f \<longrightarrow> dr_state r = Live \<longrightarrow>
        fileHasLiveReference d f \<or> fileHasLiveReference d (dr_file_id r))"

lemma mark_only_referenced:
  assumes flat: "segments_flat d" and mark: "markFileTreePendingIfUnreferenced f now d = Inr d'"
  shows "only_referenced d' f"
proof -
  have d': "d' = pend (unreferenced_tree d f) now d"
    using markTree_exact [OF flat] mark by (simp add: markFileTreePendingIfUnreferenced_def)
  have tree: "tree_files d' f = tree_files d f" unfolding d' tree_files_def by (simp split: option.splits)
  have refs: "fileHasLiveReference d' = fileHasLiveReference d" unfolding d' by simp
  have "dr_state r \<noteq> Live" if r: "r \<in> set (deletes d')" "dr_file_id r \<in> unreferenced_tree d f" for r
    using r unfolding d' pend_def by auto
  then show ?thesis unfolding only_referenced_def tree refs
    by (cases "fileHasLiveReference d f") (auto simp: unreferenced_tree_def)
qed

lemma delete_steps:
  assumes "DeleteS3Object mime now p condition d = Inr (True, d')"
  obtains i removed d1 where "statS3ObjectTx mime p d = Inr (Some i)" and "evaluateS3Condition (Some i) condition = Inr ()"
    and "txRemoveTree now p d = Inr (removed, d1)"
    and "markFileTreePendingIfUnreferenced (lk_FileId (oi_Link i)) now
       (deleteWebDAVLocks [linkDirectoryEntry (oi_Link i)] (deleteWebDAVProperties [linkDirectoryEntry (oi_Link i)]
         (deleteS3Metadata (lk_EntryID (oi_Link i)) d1))) = Inr d'"
  using assms unfolding DeleteS3Object_def Let_def by (auto simp: bind_result_Inr_iff split: option.splits)

lemma drop_rows_tables [simp]:
  "mappings (deleteS3Metadata e d) = mappings d" "id_seq (deleteS3Metadata e d) = id_seq d"
  "mappings (deleteWebDAVProperties ents d) = mappings d" "id_seq (deleteWebDAVProperties ents d) = id_seq d"
  "mappings (deleteWebDAVLocks ents d) = mappings d" "id_seq (deleteWebDAVLocks ents d) = id_seq d"
  "mappings (deleteMappingMetadata ents d) = mappings d" "id_seq (deleteMappingMetadata ents d) = id_seq d"
  "segments (deleteS3Metadata e d) = segments d" "files (deleteS3Metadata e d) = files d"
  "segments (deleteWebDAVProperties ents d) = segments d" "files (deleteWebDAVProperties ents d) = files d"
  "segments (deleteWebDAVLocks ents d) = segments d" "files (deleteWebDAVLocks ents d) = files d"
  "parts (deleteS3Metadata e d) = parts d" "parts (deleteWebDAVProperties ents d) = parts d" "parts (deleteWebDAVLocks ents d) = parts d"
  "deletes (deleteS3Metadata e d) = deletes d" "deletes (deleteWebDAVProperties ents d) = deletes d" "deletes (deleteWebDAVLocks ents d) = deletes d"
  by (simp_all add: deleteS3Metadata_def drop_rows)

lemma delete_effect:
  assumes ok: "dir_ok idfn d" and p: "absolute p" and pub: "published d" and flat: "segments_flat d"
    and stat: "statS3ObjectTx mime p d = Inr (Some i)" and cond: "evaluateS3Condition (Some i) condition = Inr ()"
  shows "\<exists>d'. DeleteS3Object mime now p condition d = Inr (True, d') \<and> dir_ok idfn d' \<and> published d' \<and>
    StatS3Object mime p d' = Inl ErrNotExist \<and> (\<forall>xs. xs \<noteq> items p \<longrightarrow> entries d' xs = entries d xs) \<and>
    only_referenced d' (lk_FileId (oi_Link i))"
proof -
  note tree = dir_okD [OF ok]
  obtain e where e: "lookup d (items p) = Some e" "mr_kind e \<noteq> KindDir" using statTx_Some [OF p stat] by blast
  obtain removed d1 where d1: "txRemoveTree now p d = Inr (removed, d1)" "dir_ok idfn d1" "dir_frame d d1"
      "\<forall>zs. entries d1 zs = (if prefix (items p) zs then None else entries d zs)"
    using txRemoveTree_tree [OF ok p e(1), of now] by blast
  let ?r = "[linkDirectoryEntry (oi_Link i)]" and ?f = "lk_FileId (oi_Link i)"
  let ?d2 = "deleteWebDAVLocks ?r (deleteWebDAVProperties ?r (deleteS3Metadata (lk_EntryID (oi_Link i)) d1))"
  have "linkable ?d2 f = linkable d f" for f
    using linkable_tables [of ?d2 d1 f] linkable_frame [OF d1(3), of f] by simp
  then obtain F where mark: "markFileTreePendingIfUnreferenced ?f now ?d2 = Inr (pend F now ?d2)"
    using mark_total [of ?d2 ?f now] replaced_linkable [OF pub tree p stat] by auto
  define d' where "d' = pend F now ?d2"
  have del: "DeleteS3Object mime now p condition d = Inr (True, d')"
    unfolding DeleteS3Object_def Let_def
    by (simp only: stat cond d1(1) bind_result_simps option.case prod.case mark d'_def)
  have maps: "mappings d' = mappings d1" "id_seq d' = id_seq d1" by (simp_all add: d'_def pend_def)
  note same = same_mappings [OF maps]
  have other: "entries d' xs = entries d xs" if "xs \<noteq> items p" for xs
  proof -
    have "entries d xs = None" if "strict_prefix (items p) xs"
      using file_leaf [OF tree e that] by (simp add: entries_lookup)
    then show ?thesis using d1(4) that same(2) by (auto simp: strict_prefix_def)
  qed
  have gone: "lookup d' (items p) = None" using d1(4) same(2) by (simp flip: entries_lookup)
  have "all_dirs d' (butlast (items p))"
    using ancestors_dirs [OF tree e(1)] other butlast_short unfolding all_dirs_def by metis
  then have "StatS3Object mime p d' = Inl ErrNotExist"
    using dirStat_missing [OF p txStat_missing [OF p _ gone]] by (simp add: StatS3Object_def)
  moreover have "published d'"
  proof -
    have "published ?d2" using published_dir [OF pub dir_change_remove_tree [OF d1(1)]] by simp
    then show ?thesis using published_mark [OF _ mark] by (simp add: d'_def)
  qed
  moreover have "only_referenced d' ?f"
  proof -
    have "segments_flat ?d2" using flat dir_frame_tables [OF d1(3)] by (simp add: segments_flat_def)
    then show ?thesis using mark_only_referenced mark by (simp add: d'_def)
  qed
  ultimately show ?thesis using del other d1(2) same(1) by blast
qed

section \<open>Copying\<close>

lemma copyDifferent_steps:
  assumes "copyDifferentS3ObjectTx idfn now dst si di metadata d = Inr (i, d')"
  obtains old d1 d2 e d3 d4 d5 where "removeReplacedS3Object now dst di d = Inr (old, d1)"
    and "d2 = (case di of None \<Rightarrow> d1 | Some x \<Rightarrow> deleteWebDAVLocks [linkDirectoryEntry (oi_Link x)]
           (deleteWebDAVProperties [linkDirectoryEntry (oi_Link x)] d1))"
    and "linkable d2 (lk_FileId (oi_Link si))"
    and "txCreate idfn now dst (lk_FileSize (oi_Link si)) (format_nat (lk_FileId (oi_Link si))) d2 = Inr (e, d3)"
    and "insertS3Metadata (stored_for (case metadata of None \<Rightarrow> oi_Metadata si | Some m \<Rightarrow> m) (mr_entry_id e) now) d3 = Inr d4"
    and "copyWebDAVProperties now [(linkDirectoryEntry (oi_Link si), e)] d4 = Inr d5"
    and "(if old \<noteq> 0 \<and> old \<noteq> lk_FileId (oi_Link si) then markFileTreePendingIfUnreferenced old now d5 else Inr d5) = Inr d'"
    and "directoryEntryToLink dst e = Inr (oi_Link i)"
    and "oi_Metadata i = stored_for (case metadata of None \<Rightarrow> oi_Metadata si | Some m \<Rightarrow> m) (mr_entry_id e) now"
  using assms unfolding copyDifferentS3ObjectTx_def stored_for_def [symmetric] Let_def
  by (clarsimp simp: bind_result_Inr_iff linkable_unit)

lemma copy_steps:
  assumes "CopyS3Object idfn mime now src dst metadata sc dc d = Inr (i, d')"
  obtains si di where "statS3ObjectTx mime src d = Inr (Some si)" and "evaluateS3Condition (Some si) sc = Inr ()"
    and "statS3ObjectTx mime dst d = Inr di" and "evaluateS3Condition di dc = Inr ()"
    and "(if src = dst then copySameS3ObjectTx now src si metadata d
          else copyDifferentS3ObjectTx idfn now dst si di metadata d) = Inr (i, d')"
  using assms unfolding CopyS3Object_def by (clarsimp simp: bind_result_Inr_iff split: option.split_asm)

lemma published_copySame:
  assumes "published d" and "copySameS3ObjectTx now src si metadata d = Inr (i, d')"
  shows "published d'"
proof (cases metadata)
  case (Some m)
  with assms(2) obtain r e d1 where ins: "insertS3Metadata r (deleteS3Metadata e d) = Inr d1" and touch: "txTouch src now now d1 = Inr d'"
    by (auto simp: copySameS3ObjectTx_def Let_def bind_result_Inr_iff)
  have "published d1" using published_insertS3Metadata [OF ins] assms(1) by simp
  then show ?thesis using published_dir dir_change_txTouch [OF touch] by blast
qed (use assms in \<open>simp add: copySameS3ObjectTx_def\<close>)

lemma published_copy:
  assumes pub: "published d" and ok: "tree_ok (mappings d)" and src: "absolute src"
    and copy: "CopyS3Object idfn mime now src dst metadata sc dc d = Inr (i, d')"
  shows "published d'"
proof -
  from copy obtain si di where stat: "statS3ObjectTx mime src d = Inr (Some si)"
    and cases: "(if src = dst then copySameS3ObjectTx now src si metadata d
          else copyDifferentS3ObjectTx idfn now dst si di metadata d) = Inr (i, d')" by (rule copy_steps)
  show ?thesis
  proof (cases "src = dst")
    case True
    then show ?thesis using published_copySame [OF pub] cases by simp
  next
    case False
    with cases have "copyDifferentS3ObjectTx idfn now dst si di metadata d = Inr (i, d')" by simp
    then obtain old d1 d2 e d3 d4 d5 where rem: "removeReplacedS3Object now dst di d = Inr (old, d1)"
      and d2: "d2 = (case di of None \<Rightarrow> d1 | Some x \<Rightarrow> deleteWebDAVLocks [linkDirectoryEntry (oi_Link x)]
           (deleteWebDAVProperties [linkDirectoryEntry (oi_Link x)] d1))"
      and link: "linkable d2 (lk_FileId (oi_Link si))"
      and new: "txCreate idfn now dst (lk_FileSize (oi_Link si)) (format_nat (lk_FileId (oi_Link si))) d2 = Inr (e, d3)"
      and ins: "insertS3Metadata (stored_for (case metadata of None \<Rightarrow> oi_Metadata si | Some m \<Rightarrow> m) (mr_entry_id e) now) d3 = Inr d4"
      and props: "copyWebDAVProperties now [(linkDirectoryEntry (oi_Link si), e)] d4 = Inr d5"
      and mark: "(if old \<noteq> 0 \<and> old \<noteq> lk_FileId (oi_Link si) then markFileTreePendingIfUnreferenced old now d5 else Inr d5) = Inr d'"
      by (rule copyDifferent_steps)
    have "published d2" using published_replaced [OF rem pub] d2 by (cases di) simp_all
    moreover have "lk_FileId (oi_Link si) < 2 ^ 64"
    proof -
      obtain x where "object_info mime src x d = Inr si" using statTx_Some [OF src stat] by blast
      from object_info_link(2) [OF this] show ?thesis by (auto simp: parse_file_id_def dest: ParseUint_bound split: option.splits)
    qed
    ultimately have "published d3" using published_create [OF _ link _ new] by blast
    then have "published d5" using published_insertS3Metadata [OF ins] published_copies(2) [OF props] by simp
    then show ?thesis using published_mark_if mark by blast
  qed
qed

lemma props_tables: "copyWebDAVProperties now copies d = Inr d' \<Longrightarrow> mappings d' = mappings d \<and> id_seq d' = id_seq d \<and> metas d' = metas d"
proof -
  have ins: "insert_property r u = Inr v \<Longrightarrow> mappings v = mappings u \<and> id_seq v = id_seq u \<and> metas v = metas u" for r u v
    by (auto simp: insert_property_def bind_result_Inr_iff)
  have "fold_result insert_property rows u = Inr v \<Longrightarrow> mappings v = mappings u \<and> id_seq v = id_seq u \<and> metas v = metas u" for rows u v
    by (erule fold_result_invariant) (auto dest: ins)
  then have step: "mappings v = mappings d \<and> id_seq v = id_seq d \<and> metas v = metas d"
    if "fold_result insert_property rows u = Inr v" "mappings u = mappings d \<and> id_seq u = id_seq d \<and> metas u = metas d" for rows u v
    using that by metis
  assume "copyWebDAVProperties now copies d = Inr d'"
  then show ?thesis
    unfolding copyWebDAVProperties_def
    by (rule fold_result_invariant [where P = "\<lambda>v. mappings v = mappings d \<and> id_seq v = id_seq d \<and> metas v = metas d"])
      (auto split: prod.splits dest: step)
qed

lemma copy_effect:
  assumes ids: "good_ids idfn" and ok: "dir_ok idfn d" and src: "absolute src" and dst: "absolute dst" "components dst \<noteq> []"
    and diff: "items src \<noteq> items dst"
    and copy: "CopyS3Object idfn mime now src dst metadata sc dc d = Inr (i, d')"
  shows "\<exists>si. StatS3Object mime src d = Inr si \<and> StatS3Object mime dst d' = Inr i \<and>
      lk_FileId (oi_Link i) = lk_FileId (oi_Link si) \<and> lk_FileSize (oi_Link i) = lk_FileSize (oi_Link si) \<and>
      oi_Metadata i = stored_for (case metadata of None \<Rightarrow> oi_Metadata si | Some m \<Rightarrow> m) (lk_EntryID (oi_Link i)) now \<and>
      dir_ok idfn d' \<and> (\<forall>xs x. xs \<noteq> items dst \<longrightarrow> entries d xs = Some x \<longrightarrow> entries d' xs = Some x)"
proof -
  from copy obtain si di where ss: "statS3ObjectTx mime src d = Inr (Some si)" and ds: "statS3ObjectTx mime dst d = Inr di"
    and cases: "(if src = dst then copySameS3ObjectTx now src si metadata d
          else copyDifferentS3ObjectTx idfn now dst si di metadata d) = Inr (i, d')" by (rule copy_steps)
  have "src \<noteq> dst" using diff by auto
  with cases have "copyDifferentS3ObjectTx idfn now dst si di metadata d = Inr (i, d')" by simp
  then obtain old d1 d2 e d3 d4 d5 where rem: "removeReplacedS3Object now dst di d = Inr (old, d1)"
    and d2: "d2 = (case di of None \<Rightarrow> d1 | Some x \<Rightarrow> deleteWebDAVLocks [linkDirectoryEntry (oi_Link x)]
         (deleteWebDAVProperties [linkDirectoryEntry (oi_Link x)] d1))"
    and new: "txCreate idfn now dst (lk_FileSize (oi_Link si)) (format_nat (lk_FileId (oi_Link si))) d2 = Inr (e, d3)"
    and ins: "insertS3Metadata (stored_for (case metadata of None \<Rightarrow> oi_Metadata si | Some m \<Rightarrow> m) (mr_entry_id e) now) d3 = Inr d4"
    and props: "copyWebDAVProperties now [(linkDirectoryEntry (oi_Link si), e)] d4 = Inr d5"
    and mark: "(if old \<noteq> 0 \<and> old \<noteq> lk_FileId (oi_Link si) then markFileTreePendingIfUnreferenced old now d5 else Inr d5) = Inr d'"
    and link: "directoryEntryToLink dst e = Inr (oi_Link i)"
    and meta: "oi_Metadata i = stored_for (case metadata of None \<Rightarrow> oi_Metadata si | Some m \<Rightarrow> m) (mr_entry_id e) now"
    by (rule copyDifferent_steps)
  note r = removeReplaced_tree [OF ok dst(1) ds rem]
  have d2t: "mappings d2 = mappings d1" "id_seq d2 = id_seq d1" using d2 by (auto split: option.splits)
  note same2 = same_mappings [OF d2t]
  have ok2: "dir_ok idfn d2" using r(1) same2(1) by simp
  note c = txCreate_tree [OF ids ok2 dst new] and ce = txCreate_entry [OF ids ok2 dst new]
  have maps: "mappings d' = mappings d3" "id_seq d' = id_seq d3"
    using insert_read(1) [OF ins] props_tables [OF props] mark_if_tables(1,2) [OF mark] by simp_all
  note same = same_mappings [OF maps]
  obtain x where x: "object_info mime src x d = Inr si" using statTx_Some [OF src ss] by blast
  have fid: "lk_FileId (oi_Link si) < 2 ^ 64"
    using object_info_link(2) [OF x] by (auto simp: parse_file_id_def dest: ParseUint_bound split: option.splits)
  have f: "lk_EntryID (oi_Link i) = mr_entry_id e" "lk_FileId (oi_Link i) = lk_FileId (oi_Link si)" "lk_FileSize (oi_Link i) = lk_FileSize (oi_Link si)"
    using link_fields [OF link] ce(2,3) parse_format [OF fid] by simp_all
  obtain k where k: "lookup d' (items dst) = Some (e\<lparr>mr_id := k\<rparr>)" using ce(1) same(3) by auto
  have "metas d' = metas d4" using props_tables [OF props] mark_if_tables(3) [OF mark] by simp
  then have "readS3Metadata (mr_entry_id e) d' = Some (oi_Metadata i)"
    using insert_read(2) [OF ins] meta by (simp add: stored_for_def readS3Metadata_def)
  moreover have "directoryEntryToLink dst (e\<lparr>mr_id := k\<rparr>) = Inr (oi_Link i)" using link by (simp add: directoryEntryToLink_def)
  ultimately have "object_info mime dst (e\<lparr>mr_id := k\<rparr>) d' = Inr i" by (simp add: object_info_def)
  moreover have "dirStat dst d' = Inr (e\<lparr>mr_id := k\<rparr>)" using k dirStat_lookup [OF dst(1)] by blast
  ultimately have stat: "StatS3Object mime dst d' = Inr i" using ce(4) by (simp add: StatS3Object_def)
  have other: "entries d' xs = Some x" if "xs \<noteq> items dst" "entries d xs = Some x" for xs x
    using c(4) [of xs x] r(2) [OF that(1)] that(2) same(2) same2(2) by simp
  have "StatS3Object mime src d = Inr si" using Stat_statTx [OF src] ss by blast
  moreover have "dir_ok idfn d'" using same(1) c(1) by simp
  ultimately show ?thesis using stat f meta other by (intro exI [of _ si]) simp
qed

end
