(* ===== verification/S3_List_Spec.thy ===== *)
theory S3_List_Spec
  imports S3_Object_Spec
begin

text \<open>
  What a listing contains. The query walks the whole tree and works on full paths; its result is
  described here by the objects that resolve in the directory.
\<close>

section \<open>Text functions on keys\<close>

abbreviation slash :: char where "slash \<equiv> CHR ''/''"

lemma of_char_slash [simp]: "(of_char slash :: nat) = 47"
  by simp

lemma dropWhile_stop: "\<not> P y \<Longrightarrow> dropWhile P (xs @ y # ys) = dropWhile P xs @ y # ys"
  by (induction xs) auto

lemma skip_utf8_append:
  assumes "(of_char c :: nat) < 128" and "a \<noteq> []"
  shows "skip_utf8 (a @ c # b) = skip_utf8 a @ c # b"
  using assms by (cases a) (simp_all add: skip_utf8_def dropWhile_stop)

lemma sql_drop_length:
  assumes "(of_char c :: nat) < 128"
  shows "sql_drop (sql_length a) (a @ c # b) = c # b"
  using assms
proof (induction a rule: sql_length.induct)
  case (2 x xs)
  then show ?case using skip_utf8_append [of c "x # xs" b] by simp
qed simp

lemma sql_left_upto:
  assumes "s = a @ slash # b"
  shows "sql_left s (Suc (sql_length a)) = a @ [slash]"
proof -
  have "sql_drop (Suc n) s = skip_utf8 (sql_drop n s)" for n s
    by (induction n arbitrary: s) simp_all
  then have "sql_drop (Suc (sql_length a)) s = b"
    unfolding assms using sql_drop_length [of slash a b] by (simp add: skip_utf8_ascii)
  then show ?thesis by (simp add: sql_left_def assms)
qed

lemma instr_left:
  assumes "slash \<in> set s"
  shows "sql_left s (sql_instr s slash) = takeWhile (\<lambda>b. b \<noteq> slash) s @ [slash]" and "sql_instr s slash > 0"
proof -
  have "s = takeWhile (\<lambda>b. b \<noteq> slash) s @ slash # tl (dropWhile (\<lambda>b. b \<noteq> slash) s)"
    using assms by (induction s) auto
  from sql_left_upto [OF this] show "sql_left s (sql_instr s slash) = takeWhile (\<lambda>b. b \<noteq> slash) s @ [slash]"
    using assms by (simp add: sql_instr_def)
  show "sql_instr s slash > 0" using assms by (simp add: sql_instr_def)
qed

section \<open>The objects of a bucket\<close>

definition bucket_path :: "string \<Rightarrow> string" where
  "bucket_path bucket = ''/'' @ bucket @ ''/''"

definition object_keys :: "string \<Rightarrow> string \<Rightarrow> db \<Rightarrow> string set" where
  "object_keys bucket prfx d =
     {k. prefix prfx k \<and> Clean (bucket_path bucket @ k) = bucket_path bucket @ k \<and>
         (\<exists>m. lookup d (items (bucket_path bucket @ k)) = Some m \<and> mr_kind m = KindFile)}"

text \<open>With a delimiter, the keys that continue behind a slash are listed once, up to that slash.\<close>

definition rollup :: "string \<Rightarrow> string \<Rightarrow> string \<Rightarrow> string" where
  "rollup delimiter prfx k =
     (if delimiter = ''/'' \<and> slash \<in> set (drop (length prfx) k)
      then prfx @ takeWhile (\<lambda>b. b \<noteq> slash) (drop (length prfx) k) @ [slash] else k)"

definition is_rolled :: "string \<Rightarrow> bool" where
  "is_rolled k \<longleftrightarrow> k \<noteq> [] \<and> last k = slash"

text \<open>
  \<open>LIKE\<close> folds case: the query is exact only if no file lies under a path that differs from the
  requested one in the case of letters. It counts code points, so that the bucket and the prefix
  are taken to be ASCII text; the rest of a key may be anything.
\<close>

definition exact_case :: "string \<Rightarrow> db \<Rightarrow> bool" where
  "exact_case p d \<longleftrightarrow>
     (\<forall>(m, full_path)\<in>set (tree_rows d). mr_kind m = KindFile \<longrightarrow> starts_fold p full_path \<longrightarrow> prefix p full_path)"

lemma row_key:
  assumes ok: "tree_ok (mappings d)" and names: "names_normal d"
  shows "(m, bucket_path b @ k) \<in> set (tree_rows d) \<longleftrightarrow>
    Clean (bucket_path b @ k) = bucket_path b @ k \<and> lookup d (items (bucket_path b @ k)) = Some m"
proof -
  have abs: "absolute (bucket_path b @ k)" by (simp add: absolute_def bucket_path_def)
  show ?thesis
  proof
    assume "(m, bucket_path b @ k) \<in> set (tree_rows d)"
    then obtain cs where cs: "row_path (mappings d) m (''/'' # cs)" "bucket_path b @ k = abs_path cs"
      using tree_rows_paths [OF ok names] by blast
    have n: "\<forall>c\<in>set cs. normal c" using row_path_normal [OF ok names cs(1)] by simp
    then show "Clean (bucket_path b @ k) = bucket_path b @ k \<and> lookup d (items (bucket_path b @ k)) = Some m"
      using cs lookup_path [OF ok] by (simp add: items_def)
  next
    assume "Clean (bucket_path b @ k) = bucket_path b @ k \<and> lookup d (items (bucket_path b @ k)) = Some m"
    then show "(m, bucket_path b @ k) \<in> set (tree_rows d)"
      using tree_rows_paths [OF ok names] Clean_components [OF abs] lookup_path [OF ok] by (auto simp: items_def)
  qed
qed

lemma key_not_rolled:
  assumes "Clean (bucket_path b @ k) = bucket_path b @ k" and "normal b"
  shows "\<not> is_rolled k" and "k \<noteq> []"
proof -
  have abs: "absolute (bucket_path b @ k)" by (simp add: absolute_def bucket_path_def)
  let ?cs = "components (bucket_path b @ k)"
  have eq: "bucket_path b @ k = abs_path ?cs" using Clean_components [OF abs] assms(1) by simp
  have "?cs \<noteq> []"
  proof
    assume "?cs = []"
    then have "bucket_path b @ k = ''/''" using eq by (simp add: abs_path_def)
    then show False by (simp add: bucket_path_def)
  qed
  then obtain ds c where ds: "?cs = ds @ [c]" by (metis append_butlast_last_id)
  then have c: "normal c" using components_normal [of "bucket_path b @ k"] by simp
  then have "last (abs_path (ds @ [c])) \<noteq> slash" using normalD(1,3) [OF c] by (simp add: abs_path_snoc)
  then have "last (bucket_path b @ k) \<noteq> slash" using eq ds by simp
  then show "\<not> is_rolled k" and "k \<noteq> []" by (auto simp: is_rolled_def bucket_path_def)
qed

section \<open>The query\<close>

lemma list_objects_set:
  assumes ok: "tree_ok (mappings d)" and names: "names_normal d" and "ascii b" and "exact_case (bucket_path b @ prfx) d"
  shows "set (list_objects (bucket_path b) prfx d) =
    {(m, k). prefix prfx k \<and> mr_kind m = KindFile \<and> Clean (bucket_path b @ k) = bucket_path b @ k \<and>
             lookup d (items (bucket_path b @ k)) = Some m}" (is "?L = ?R")
proof -
  have ascii: "ascii (bucket_path b)" using assms(3) by (simp add: bucket_path_def)
  have sub: "sql_substr (bucket_path b @ k) (length (bucket_path b) + 1) = k" for k
    using sql_drop_ascii [OF ascii] by (simp add: sql_substr_def)
  show ?thesis
  proof (intro equalityI subsetI)
    fix x assume "x \<in> ?L"
    then obtain m fp where x: "x = (m, sql_substr fp (length (bucket_path b) + 1))" "(m, fp) \<in> set (tree_rows d)"
        "mr_kind m = KindFile" "starts_fold (bucket_path b @ prfx) fp"
      by (auto simp: list_objects_def like_escaped)
    then have "prefix (bucket_path b @ prfx) fp" using assms(4) by (auto simp: exact_case_def)
    then obtain t where fp: "fp = bucket_path b @ (prfx @ t)" by (auto simp: prefix_def)
    then have "x = (m, prfx @ t)" using x(1) sub by simp
    then show "x \<in> ?R" using x(2,3) fp row_key [OF ok names, of m b "prfx @ t"] by auto
  next
    fix x assume "x \<in> ?R"
    then obtain m k where x: "x = (m, k)" "prefix prfx k" "mr_kind m = KindFile" "(m, bucket_path b @ k) \<in> set (tree_rows d)"
      using row_key [OF ok names] by auto
    then obtain t where k: "k = prfx @ t" by (auto simp: prefix_def)
    have "starts_fold (bucket_path b @ prfx) (bucket_path b @ k)"
      using starts_fold_prefix [of "bucket_path b @ prfx" t] k by simp
    then have "(m, bucket_path b @ k) \<in> set (filter (\<lambda>(m, full_path). mr_kind m = 2 \<and>
          like backslash (escapeSQLiteLike (bucket_path b @ prfx) @ ''%'') full_path) (tree_rows d))"
      using x by (simp add: like_escaped)
    then have "(\<lambda>(m, full_path). (m, sql_substr full_path (length (bucket_path b) + 1))) (m, bucket_path b @ k) \<in> ?L"
      unfolding list_objects_def set_map by (rule imageI)
    then show "x \<in> ?L" using x(1) sub by simp
  qed
qed

lemma list_project_fields:
  assumes "ascii prfx" and "prefix prfx k"
  shows "le_key (list_project delimiter prfx (m, k)) = rollup delimiter prfx k"
    and "\<not> is_rolled k \<Longrightarrow> le_common (list_project delimiter prfx (m, k)) = (if is_rolled (rollup delimiter prfx k) then 1 else 0)"
proof -
  obtain t where k: "k = prfx @ t" using assms(2) by (auto simp: prefix_def)
  have rest: "sql_substr k (sql_length prfx + 1) = drop (length prfx) k"
    unfolding k using sql_drop_ascii [OF assms(1), of t] sql_length_ascii [OF assms(1)] by (simp add: sql_substr_def)
  have none: "slash \<notin> set s \<Longrightarrow> sql_instr s slash = 0" for s by (simp add: sql_instr_def)
  show "le_key (list_project delimiter prfx (m, k)) = rollup delimiter prfx k"
    using instr_left [of "drop (length prfx) k"] none [of "drop (length prfx) k"]
    unfolding list_project_def prod.case Let_def rest rollup_def by auto
  show "\<not> is_rolled k \<Longrightarrow> le_common (list_project delimiter prfx (m, k)) = (if is_rolled (rollup delimiter prfx k) then 1 else 0)"
    using instr_left [of "drop (length prfx) k"] none [of "drop (length prfx) k"]
    unfolding list_project_def prod.case Let_def rest rollup_def by (auto simp: is_rolled_def)
qed

section \<open>Building the page\<close>

definition list_item :: "(string \<Rightarrow> string \<Rightarrow> string) \<Rightarrow> S3ListRequest \<Rightarrow> db \<Rightarrow> s3ListPageEntry \<Rightarrow> S3ListItem" where
  "list_item mime request d entry =
     (let link = \<lparr>lk_EntryID = le_entryID entry, lk_FileName = ''/'' @ lq_Bucket request @ ''/'' @ le_key entry,
                  lk_FileId = (case ParseUint (le_refData entry) of None \<Rightarrow> 0 | Some f \<Rightarrow> f),
                  lk_FileSize = le_fileSize entry, lk_Mode = 0, lk_Ctime = le_ctime entry,
                  lk_Mtime = le_mtime entry, lk_IsDir = False\<rparr>;
          metadata = (case readS3Metadata (lk_EntryID link) d of Some m \<Rightarrow> m | None \<Rightarrow> legacyS3Metadata mime link)
      in \<lparr>li_Key = le_key entry, li_Size = lk_FileSize link, li_LastModified = lk_Mtime link,
          li_ETag = or_etag metadata, li_ChecksumAlgorithm = or_checksum_algorithm metadata,
          li_ChecksumType = or_checksum_type metadata\<rparr>)"

lemma append_page:
  assumes "\<forall>e\<in>set page. le_common e = 0 \<longrightarrow> ParseUint (le_refData e) \<noteq> None"
  shows "fold_result (appendS3ListEntry mime request d) page res =
    Inr (res\<lparr>lt_Items := lt_Items res @ map (list_item mime request d) (filter (\<lambda>e. le_common e = 0) page),
             lt_CommonPrefixes := lt_CommonPrefixes res @ map le_key (filter (\<lambda>e. le_common e \<noteq> 0) page),
             lt_NextKey := (if page = [] then lt_NextKey res else le_key (last page))\<rparr>)"
  using assms
proof (induction page arbitrary: res)
  case (Cons e page)
  show ?case
  proof (cases "le_common e = 0")
    case True
    then obtain f where "ParseUint (le_refData e) = Some f" using Cons.prems by auto
    then have "appendS3ListEntry mime request d e res =
        Inr (res\<lparr>lt_NextKey := le_key e, lt_Items := lt_Items res @ [list_item mime request d e]\<rparr>)"
      using True by (simp add: appendS3ListEntry_def list_item_def Let_def parse_file_id_def)
    then show ?thesis using Cons True by (cases res) simp
  next
    case False
    then have "appendS3ListEntry mime request d e res =
        Inr (res\<lparr>lt_NextKey := le_key e, lt_CommonPrefixes := lt_CommonPrefixes res @ [le_key e]\<rparr>)"
      by (simp add: appendS3ListEntry_def Let_def)
    then show ?thesis using Cons False by (cases res) simp
  qed
qed simp

lemma min_of_same: "xs \<noteq> [] \<Longrightarrow> \<forall>x\<in>set xs. x = r \<Longrightarrow> min_of f xs = f r"
proof -
  assume "xs \<noteq> []" and "\<forall>x\<in>set xs. x = r"
  then have "hd xs = r" "\<forall>x\<in>set (tl xs). x = r" by (cases xs; simp)+
  moreover have "fold min (map f ys) (f r) = f r" if "\<forall>x\<in>set ys. x = r" for ys
    using that by (induction ys) simp_all
  ultimately show ?thesis by (simp add: min_of_def)
qed

lemma fold_max_0: "fold max xs (0::nat) = 0 \<longleftrightarrow> (\<forall>x\<in>set xs. x = 0)"
proof -
  have "fold max xs a = 0 \<longleftrightarrow> a = 0 \<and> (\<forall>x\<in>set xs. x = 0)" for a :: nat
    by (induction xs arbitrary: a) auto
  then show ?thesis by simp
qed

text \<open>A row of the page and the object it stands for.\<close>

lemma list_group_row:
  assumes ok: "tree_ok (mappings d)" and names: "names_normal d" and b: "normal b" "ascii b" and prfx: "ascii prfx"
    and exact: "exact_case (bucket_path b @ prfx) d"
    and rows: "rows = map (list_project delimiter prfx) (list_objects (bucket_path b) prfx d)"
    and k: "k \<in> set (map le_key rows)"
  shows "le_common (list_group rows k) \<noteq> 0 \<longleftrightarrow> is_rolled k"
    and "\<not> is_rolled k \<Longrightarrow> k \<in> object_keys b prfx d \<and>
      (\<exists>m. lookup d (items (bucket_path b @ k)) = Some m \<and> mr_kind m = KindFile \<and>
           list_group rows k = \<lparr>le_key = k, le_common = 0, le_entryID = mr_entry_id m, le_refData = mr_ref_data m,
             le_ctime = mr_ctime m, le_mtime = mr_mtime m, le_fileSize = mr_size m\<rparr>)"
proof -
  let ?g = "filter (\<lambda>r. le_key r = k) rows"
  have objs: "set (list_objects (bucket_path b) prfx d) =
    {(m, k). prefix prfx k \<and> mr_kind m = KindFile \<and> Clean (bucket_path b @ k) = bucket_path b @ k \<and>
             lookup d (items (bucket_path b @ k)) = Some m}"
    by (rule list_objects_set [OF ok names b(2) exact])
  have ne: "?g \<noteq> []" using k by (auto simp: filter_empty_conv)
  have row: "\<exists>m k0. r = list_project delimiter prfx (m, k0) \<and> prefix prfx k0 \<and> mr_kind m = KindFile \<and>
      Clean (bucket_path b @ k0) = bucket_path b @ k0 \<and> lookup d (items (bucket_path b @ k0)) = Some m \<and>
      rollup delimiter prfx k0 = k \<and> le_common r = (if is_rolled k then 1 else 0)" if "r \<in> set ?g" for r
  proof -
    from that obtain m k0 where r: "r = list_project delimiter prfx (m, k0)" "(m, k0) \<in> set (list_objects (bucket_path b) prfx d)" "le_key r = k"
      unfolding rows by auto
    then have o: "prefix prfx k0" "mr_kind m = KindFile" "Clean (bucket_path b @ k0) = bucket_path b @ k0"
        "lookup d (items (bucket_path b @ k0)) = Some m" using objs by auto
    have "\<not> is_rolled k0" using key_not_rolled [OF o(3) b(1)] by blast
    then show ?thesis using r o list_project_fields [OF prfx o(1), of delimiter m] by (intro exI [of _ m] exI [of _ k0]) auto
  qed
  have com: "le_common (list_group rows k) = fold max (map le_common ?g) 0" by (simp add: list_group_def Let_def)
  obtain r0 where r0: "r0 \<in> set ?g" using ne by (metis list.set_intros(1) neq_Nil_conv)
  have rc: "le_common r = (if is_rolled k then 1 else 0)" if "r \<in> set ?g" for r using row [OF that] by blast
  show "le_common (list_group rows k) \<noteq> 0 \<longleftrightarrow> is_rolled k"
  proof
    assume "le_common (list_group rows k) \<noteq> 0"
    then obtain r where "r \<in> set ?g" "le_common r \<noteq> 0" unfolding com fold_max_0 by auto
    then show "is_rolled k" using rc by (metis (full_types))
  next
    assume "is_rolled k"
    then have "le_common r0 \<noteq> 0" using rc [OF r0] by simp
    then show "le_common (list_group rows k) \<noteq> 0" unfolding com fold_max_0 using r0 by auto
  qed
  show "k \<in> object_keys b prfx d \<and>
      (\<exists>m. lookup d (items (bucket_path b @ k)) = Some m \<and> mr_kind m = KindFile \<and>
           list_group rows k = \<lparr>le_key = k, le_common = 0, le_entryID = mr_entry_id m, le_refData = mr_ref_data m,
             le_ctime = mr_ctime m, le_mtime = mr_mtime m, le_fileSize = mr_size m\<rparr>)" if plain: "\<not> is_rolled k"
  proof -
    have same: "k0 = k" if "rollup delimiter prfx k0 = k" for k0
      using that plain by (auto simp: rollup_def is_rolled_def split: if_splits)
    obtain m where m: "r0 = list_project delimiter prfx (m, k)" "prefix prfx k" "mr_kind m = KindFile"
        "Clean (bucket_path b @ k) = bucket_path b @ k" "lookup d (items (bucket_path b @ k)) = Some m"
      using row [OF r0] same by metis
    have all: "\<forall>r\<in>set ?g. r = r0" using row same m(1,5) by fastforce
    have f: "le_entryID r0 = mr_entry_id m" "le_refData r0 = mr_ref_data m" "le_ctime r0 = mr_ctime m" "le_mtime r0 = mr_mtime m"
        "le_fileSize r0 = mr_size m" unfolding m(1) by (simp_all add: list_project_def Let_def)
    have "fold max (map le_common ?g) 0 = 0" unfolding fold_max_0 using rc plain by auto
    then have "list_group rows k = \<lparr>le_key = k, le_common = 0, le_entryID = mr_entry_id m, le_refData = mr_ref_data m,
             le_ctime = mr_ctime m, le_mtime = mr_mtime m, le_fileSize = mr_size m\<rparr>"
      unfolding list_group_def Let_def min_of_same [OF ne all] f by simp
    then show ?thesis using m by (auto simp: object_keys_def)
  qed
qed

lemma project_keys:
  assumes ok: "tree_ok (mappings d)" and names: "names_normal d" and b: "ascii b" and prfx: "ascii prfx"
    and exact: "exact_case (bucket_path b @ prfx) d"
  shows "set (map le_key (map (list_project delimiter prfx) (list_objects (bucket_path b) prfx d))) =
    rollup delimiter prfx ` object_keys b prfx d" (is "?L = ?R")
proof -
  have "?L = (\<lambda>x. le_key (list_project delimiter prfx x)) ` set (list_objects (bucket_path b) prfx d)" by auto
  also have "\<dots> = (\<lambda>(m, k). rollup delimiter prfx k) ` {(m, k). prefix prfx k \<and> mr_kind m = KindFile \<and>
      Clean (bucket_path b @ k) = bucket_path b @ k \<and> lookup d (items (bucket_path b @ k)) = Some m}"
    unfolding list_objects_set [OF ok names b exact] using list_project_fields(1) [OF prfx] by (intro image_cong) auto
  also have "\<dots> = ?R" by (force simp: object_keys_def)
  finally show ?thesis .
qed

lemma map_set_list:
  "sort (filter P (remdups xs)) = sorted_list_of_set {x \<in> set xs. P x}"
proof -
  have "sort (filter P (remdups xs)) = sort (remdups (filter P xs))" by (simp add: remdups_filter)
  also have "\<dots> = sorted_list_of_set (set (filter P xs))" unfolding sorted_list_of_set_sort_remdups ..
  finally show ?thesis by simp
qed

section \<open>The page of a request\<close>

definition listed_keys :: "S3ListRequest \<Rightarrow> db \<Rightarrow> string list" where
  "listed_keys request d =
     sorted_list_of_set
       {k \<in> rollup (lq_Delimiter request) (lq_Prefix request) ` object_keys (lq_Bucket request) (lq_Prefix request) d.
        (if lq_ContinuationToken request \<noteq> '''' then lq_ContinuationToken request else lq_StartAfter request) < k}"

lemma sorted_list_rest:
  fixes s :: "'a :: linorder"
  assumes fin: "finite A" and K: "K = sorted_list_of_set {k \<in> A. s < k}" and n: "n < length K"
  shows "sorted_list_of_set {k \<in> A. K ! n < k} = drop (Suc n) K"
proof -
  have set: "set K = {k \<in> A. s < k}" using fin unfolding K by simp
  have strict: "sorted_wrt (<) K" unfolding K by simp
  have "K ! n \<in> set K" using n by (rule nth_mem)
  then have "s < K ! n" unfolding set by simp
  then have "{k \<in> A. K ! n < k} = set (filter (\<lambda>k. K ! n < k) K)" unfolding set_filter set by (auto dest: less_trans)
  also have "\<dots> = set (drop (Suc n) K)" unfolding above_nth_key [where f = "\<lambda>x. x", OF strict n] ..
  finally have "sorted_list_of_set {k \<in> A. K ! n < k} = sorted_list_of_set (set (drop (Suc n) K))" by (rule arg_cong)
  also have "\<dots> = drop (Suc n) K"
    by (rule sorted_list_of_set.idem_if_sorted_distinct) (use sorted_wrt_drop [OF strict] in \<open>simp_all add: strict_sorted_iff\<close>)
  finally show ?thesis .
qed

lemma finite_object_keys:
  assumes ok: "tree_ok (mappings d)" and names: "names_normal d"
  shows "finite (object_keys b prfx d)"
proof -
  have "object_keys b prfx d \<subseteq> (\<lambda>(m, fp). drop (length (bucket_path b)) fp) ` set (tree_rows d)"
  proof
    fix k assume "k \<in> object_keys b prfx d"
    then obtain m where "(m, bucket_path b @ k) \<in> set (tree_rows d)" using row_key [OF ok names] by (auto simp: object_keys_def)
    then show "k \<in> (\<lambda>(m, fp). drop (length (bucket_path b)) fp) ` set (tree_rows d)" by force
  qed
  then show ?thesis by (rule finite_subset) simp
qed

lemma listed_next:
  assumes ok: "tree_ok (mappings d)" and names: "names_normal d" and n: "0 < n" and page: "take n (listed_keys request d) \<noteq> []"
  shows "listed_keys (request\<lparr>lq_ContinuationToken := last (take n (listed_keys request d))\<rparr>) d = drop n (listed_keys request d)"
proof -
  let ?A = "rollup (lq_Delimiter request) (lq_Prefix request) ` object_keys (lq_Bucket request) (lq_Prefix request) d"
  let ?s = "if lq_ContinuationToken request \<noteq> '''' then lq_ContinuationToken request else lq_StartAfter request"
  have fin: "finite ?A" using finite_object_keys [OF ok names] by simp
  have K: "listed_keys request d = sorted_list_of_set {k \<in> ?A. ?s < k}" by (simp add: listed_keys_def)
  let ?K = "listed_keys request d" let ?i = "min n (length ?K) - 1"
  have i: "?i < length ?K" using page n by (cases ?K) (auto simp: min_def)
  have last: "last (take n ?K) = ?K ! ?i" using page n by (simp add: last_conv_nth min.commute)
  have "set ?K = {k \<in> ?A. ?s < k}" using fin unfolding K by simp
  then have "?s < ?K ! ?i" using nth_mem [OF i] by blast
  then have "?K ! ?i \<noteq> ''''" by (cases "?K ! ?i") auto
  then have "listed_keys (request\<lparr>lq_ContinuationToken := ?K ! ?i\<rparr>) d = sorted_list_of_set {k \<in> ?A. ?K ! ?i < k}"
    by (simp add: listed_keys_def)
  also have "\<dots> = drop (Suc ?i) ?K" by (rule sorted_list_rest [OF fin K i])
  also have "\<dots> = drop n ?K" using n page by (cases "n \<le> length ?K") (auto simp: min_def Suc_diff_Suc)
  finally show ?thesis unfolding last .
qed

lemma listed_item:
  assumes ok: "tree_ok (mappings d)" and pub: "published d"
    and m: "lookup d (items (bucket_path (lq_Bucket request) @ k)) = Some m" "mr_kind m = KindFile"
    and e: "e = \<lparr>le_key = k, le_common = 0, le_entryID = mr_entry_id m, le_refData = mr_ref_data m,
             le_ctime = mr_ctime m, le_mtime = mr_mtime m, le_fileSize = mr_size m\<rparr>"
  shows "ParseUint (le_refData e) \<noteq> None" and "li_Key (list_item mime request d e) = k"
    and "\<exists>i. StatS3Object mime (bucket_path (lq_Bucket request) @ k) d = Inr i \<and>
      li_ETag (list_item mime request d e) = or_etag (oi_Metadata i) \<and> li_Size (list_item mime request d e) = lk_FileSize (oi_Link i) \<and>
      li_LastModified (list_item mime request d e) = lk_Mtime (oi_Link i)"
proof -
  let ?p = "bucket_path (lq_Bucket request) @ k"
  have abs: "absolute ?p" by (simp add: absolute_def bucket_path_def)
  have "mr_kind m \<noteq> KindDir" using m(2) by simp
  from published_entry [OF pub m(1) this ok] obtain f where f: "parse_file_id (mr_ref_data m) = Inr f" .
  then have parse: "ParseUint (mr_ref_data m) = Some f" by (simp add: parse_file_id_def split: option.splits)
  then show "ParseUint (le_refData e) \<noteq> None" by (simp add: e)
  show "li_Key (list_item mime request d e) = k" by (simp add: list_item_def Let_def e)
  have stat: "dirStat ?p d = Inr m" using dirStat_lookup [OF abs] m(1) by blast
  show "\<exists>i. StatS3Object mime ?p d = Inr i \<and>
      li_ETag (list_item mime request d e) = or_etag (oi_Metadata i) \<and> li_Size (list_item mime request d e) = lk_FileSize (oi_Link i) \<and>
      li_LastModified (list_item mime request d e) = lk_Mtime (oi_Link i)"
    using f parse m(2) unfolding StatS3Object_def stat object_info_def directoryEntryToLink_def
    by (simp add: list_item_def Let_def e legacyS3Metadata_def bucket_path_def split: option.splits)
qed

lemma List_page:
  assumes ok: "dir_ok idfn d" and names: "names_normal d" and pub: "published d"
    and b: "normal (lq_Bucket request)" "ascii (lq_Bucket request)" and prfx: "ascii (lq_Prefix request)"
    and exact: "exact_case (bucket_path (lq_Bucket request) @ lq_Prefix request) d" and n: "0 < lq_MaxKeys request"
  defines "K \<equiv> listed_keys request d" and "page \<equiv> take (lq_MaxKeys request) (listed_keys request d)"
  shows "\<exists>res. ListS3Objects mime request d = Inr res \<and>
    map li_Key (lt_Items res) = filter (\<lambda>k. \<not> is_rolled k) page \<and> lt_CommonPrefixes res = filter is_rolled page \<and>
    lt_IsTruncated res = (lq_MaxKeys request < length K) \<and> (page \<noteq> [] \<longrightarrow> lt_NextKey res = last page) \<and>
    (\<forall>item\<in>set (lt_Items res). \<exists>i. StatS3Object mime (bucket_path (lq_Bucket request) @ li_Key item) d = Inr i \<and>
       li_ETag item = or_etag (oi_Metadata i) \<and> li_Size item = lk_FileSize (oi_Link i) \<and> li_LastModified item = lk_Mtime (oi_Link i))"
proof -
  note tree = dir_okD [OF ok]
  let ?b = "lq_Bucket request" and ?p = "lq_Prefix request" and ?dl = "lq_Delimiter request" and ?n = "lq_MaxKeys request"
  let ?s = "if lq_ContinuationToken request \<noteq> '''' then lq_ContinuationToken request else lq_StartAfter request"
  define rows where "rows = map (list_project ?dl ?p) (list_objects (bucket_path ?b) ?p d)"
  have keys: "set (map le_key rows) = rollup ?dl ?p ` object_keys ?b ?p d"
    unfolding rows_def by (rule project_keys [OF tree names b(2) prfx exact])
  have K: "sort (filter (\<lambda>k. ?s < k) (remdups (map le_key rows))) = K"
    unfolding map_set_list keys K_def listed_keys_def ..
  have query: "queryS3ListPage request ?s d = take (?n + 1) (map (list_group rows) K)"
    unfolding queryS3ListPage_def Let_def bucket_path_def [symmetric] rows_def [symmetric] K ..
  let ?page = "map (list_group rows) page"
  have read: "readS3ListPage (queryS3ListPage request ?s d) ?n = (?page, ?n < length K)"
    unfolding query readS3ListPage_def page_def K_def by (simp add: take_map min_def)
  have sub: "set page \<subseteq> set (map le_key rows)"
  proof -
    have "set page \<subseteq> set K" unfolding page_def K_def by (rule set_take_subset)
    also have "set K \<subseteq> set (map le_key rows)" unfolding K [symmetric] by auto
    finally show ?thesis .
  qed
  note grow = list_group_row [OF tree names b prfx exact rows_def]
  have key: "le_key (list_group rows k) = k" for k by (simp add: list_group_def Let_def)
  have plain: "\<exists>m. lookup d (items (bucket_path ?b @ k)) = Some m \<and> mr_kind m = KindFile \<and>
        list_group rows k = \<lparr>le_key = k, le_common = 0, le_entryID = mr_entry_id m, le_refData = mr_ref_data m,
             le_ctime = mr_ctime m, le_mtime = mr_mtime m, le_fileSize = mr_size m\<rparr>"
    if "k \<in> set page" "\<not> is_rolled k" for k
    using grow(2) [of k] that sub by blast
  have parse: "\<forall>e\<in>set ?page. le_common e = 0 \<longrightarrow> ParseUint (le_refData e) \<noteq> None"
  proof (intro ballI impI)
    fix e assume "e \<in> set ?page" and zero: "le_common e = 0"
    then obtain k where k: "k \<in> set page" "e = list_group rows k" by auto
    then have nr: "\<not> is_rolled k" using grow(1) [of k] sub zero by auto
    obtain m where "lookup d (items (bucket_path ?b @ k)) = Some m" "mr_kind m = KindFile"
        "e = \<lparr>le_key = k, le_common = 0, le_entryID = mr_entry_id m, le_refData = mr_ref_data m,
             le_ctime = mr_ctime m, le_mtime = mr_mtime m, le_fileSize = mr_size m\<rparr>"
      using plain [OF k(1) nr] unfolding k(2) by (elim exE conjE)
    then show "ParseUint (le_refData e) \<noteq> None" by (rule listed_item(1) [OF tree pub])
  qed
  have com: "filter (\<lambda>e. le_common e = 0) (map (list_group rows) ks) = map (list_group rows) (filter (\<lambda>k. \<not> is_rolled k) ks) \<and>
      filter (\<lambda>e. le_common e \<noteq> 0) (map (list_group rows) ks) = map (list_group rows) (filter is_rolled ks)"
    if "set ks \<subseteq> set (map le_key rows)" for ks
    using that
  proof (induction ks)
    case (Cons k ks)
    then show ?case using grow(1) [of k] by auto
  qed simp
  define res where "res = \<lparr>lt_Items = map (list_item mime request d) (map (list_group rows) (filter (\<lambda>k. \<not> is_rolled k) page)),
      lt_CommonPrefixes = map le_key (map (list_group rows) (filter is_rolled page)),
      lt_NextKey = (if ?page = [] then '''' else le_key (last ?page)), lt_IsTruncated = (?n < length K)\<rparr>"
  have list: "ListS3Objects mime request d = Inr res"
    unfolding ListS3Objects_def Let_def read prod.case append_page [OF parse] com [OF sub, THEN conjunct1] com [OF sub, THEN conjunct2]
    using n by (simp add: res_def)
  have items: "\<exists>k m e. k \<in> set page \<and> item = list_item mime request d e \<and> lookup d (items (bucket_path ?b @ k)) = Some m \<and> mr_kind m = KindFile \<and>
      e = \<lparr>le_key = k, le_common = 0, le_entryID = mr_entry_id m, le_refData = mr_ref_data m,
             le_ctime = mr_ctime m, le_mtime = mr_mtime m, le_fileSize = mr_size m\<rparr>" if "item \<in> set (lt_Items res)" for item
  proof -
    from that obtain k where k: "k \<in> set page" "\<not> is_rolled k" "item = list_item mime request d (list_group rows k)"
      unfolding res_def by auto
    then show ?thesis using plain [OF k(1,2)] by (elim exE conjE) (intro exI conjI; assumption)
  qed
  have "map li_Key (lt_Items res) = filter (\<lambda>k. \<not> is_rolled k) page"
    by (simp add: res_def o_def list_item_def Let_def key)
  moreover have "lt_CommonPrefixes res = filter is_rolled page" by (simp add: res_def o_def key)
  moreover have "page \<noteq> [] \<longrightarrow> lt_NextKey res = last page" by (simp add: res_def last_map key)
  moreover have "\<exists>i. StatS3Object mime (bucket_path ?b @ li_Key item) d = Inr i \<and>
       li_ETag item = or_etag (oi_Metadata i) \<and> li_Size item = lk_FileSize (oi_Link i) \<and> li_LastModified item = lk_Mtime (oi_Link i)"
    if item: "item \<in> set (lt_Items res)" for item
  proof -
    from items [OF item] obtain k m e where k: "item = list_item mime request d e" "lookup d (items (bucket_path ?b @ k)) = Some m" "mr_kind m = KindFile"
      "e = \<lparr>le_key = k, le_common = 0, le_entryID = mr_entry_id m, le_refData = mr_ref_data m,
             le_ctime = mr_ctime m, le_mtime = mr_mtime m, le_fileSize = mr_size m\<rparr>" by blast
    show ?thesis unfolding k(1) listed_item(2) [OF tree pub k(2-4)] by (rule listed_item(3) [OF tree pub k(2-4)])
  qed
  moreover have "lt_IsTruncated res = (?n < length K)" by (simp add: res_def)
  ultimately show ?thesis by (intro exI [of _ res] conjI ballI list)
qed

end
