(* ===== verification/S3_Properties.thy ===== *)
theory S3_Properties
  imports S3_List_Spec
begin

text \<open>
  The properties of the object operations, with a small database on which each of them is
  exercised: two stored files, 7 and 8, and one object linked to the first.
\<close>

section \<open>A database with one object\<close>

definition sample_file :: "nat \<Rightarrow> nat \<Rightarrow> int \<Rightarrow> file_row" where
  "sample_file i f n =
     \<lparr>fr_id = i, fr_file_id = f, fr_size = n, fr_part_count = 0, fr_state = 2, fr_ctime = 1, fr_mtime = 1,
      fr_extinfo = '''', fr_layout = 1\<rparr>"

definition sample_meta :: "string \<Rightarrow> metadata_row" where
  "sample_meta etag =
     \<lparr>or_entry_id = 0, or_etag = etag, or_sha256 = '''', or_checksum_algorithm = '''', or_checksum_value = '''',
      or_checksum_type = '''', or_content_type = ''text/plain'', or_cache_control = '''',
      or_content_disposition = '''', or_content_encoding = '''', or_content_language = '''', or_expires = '''',
      or_user_metadata = ''{}'', or_ctime = 0, or_mtime = 0\<rparr>"

definition plain_mime :: "string \<Rightarrow> string \<Rightarrow> string" where
  "plain_mime ext fallback = fallback"

definition stored_db :: db where
  "stored_db = empty_db\<lparr>files := [sample_file 1 7 3, sample_file 2 8 0]\<rparr>"

definition object_db :: db where
  "object_db =
     (case PublishS3Object Suc plain_mime 5 ''/b/k'' 7 3 (sample_meta ''e1'') None stored_db of
        Inr (_, d) \<Rightarrow> d | Inl _ \<Rightarrow> empty_db)"

lemma stored_ok [simp]: "dir_ok Suc stored_db" "published stored_db" "metas_known Suc stored_db" "linkable stored_db 7" "all_dirs stored_db xs"
  "locks_rooted stored_db" "props_known Suc stored_db"
proof -
  show "locks_rooted stored_db" "props_known Suc stored_db" by (simp_all add: locks_rooted_def props_known_def stored_db_def empty_db_def)
  show "dir_ok Suc stored_db" by (simp add: dir_ok_def stored_db_def tree_ok_def unique_by_def empty_db_def)
  show "published stored_db" by (simp add: published_def file_refs_def stored_db_def)
  show "metas_known Suc stored_db" by (simp add: metas_known_def stored_db_def empty_db_def)
  show "linkable stored_db 7" unfolding linkable_def by code_simp
  show "all_dirs stored_db xs" using all_dirs_empty [of xs] entries_mappings [of stored_db empty_db] by (simp add: all_dirs_def stored_db_def)
qed

lemma object_created: "\<exists>i. PublishS3Object Suc plain_mime 5 ''/b/k'' 7 3 (sample_meta ''e1'') None stored_db = Inr (i, object_db)"
proof -
  have "\<not> isl (PublishS3Object Suc plain_mime 5 ''/b/k'' 7 3 (sample_meta ''e1'') None stored_db)" by code_simp
  then obtain i d where "PublishS3Object Suc plain_mime 5 ''/b/k'' 7 3 (sample_meta ''e1'') None stored_db = Inr (i, d)"
    by (cases "PublishS3Object Suc plain_mime 5 ''/b/k'' 7 3 (sample_meta ''e1'') None stored_db") auto
  then show ?thesis by (simp add: object_db_def)
qed

lemma sample_components [simp]: "components ''/b/k'' = [''b'', ''k'']" "components ''/b/j'' = [''b'', ''j'']"
  by code_simp+

lemma object_ok [simp]: "dir_ok Suc object_db" "published object_db" "segments_flat object_db" "names_normal object_db"
proof -
  obtain i where pub: "PublishS3Object Suc plain_mime 5 ''/b/k'' 7 3 (sample_meta ''e1'') None stored_db = Inr (i, object_db)"
    using object_created by blast
  show "dir_ok Suc object_db" using publish_effect(1) [OF good_ids_Suc stored_ok(1) _ _ _ pub] by simp
  show "published object_db" using publish_published [OF stored_ok(2) _ pub] by simp
  have "segments object_db = []" by code_simp
  then show "segments_flat object_db" by (simp add: segments_flat_def)
  show "names_normal object_db" unfolding names_normal_def normal_def by code_simp
qed

lemma object_stat:
  "\<exists>i. StatS3Object plain_mime ''/b/k'' object_db = Inr i \<and> lk_FileId (oi_Link i) = 7 \<and> or_etag (oi_Metadata i) = ''e1''"
proof -
  have "(case StatS3Object plain_mime ''/b/k'' object_db of Inl _ \<Rightarrow> False
    | Inr i \<Rightarrow> lk_FileId (oi_Link i) = 7 \<and> or_etag (oi_Metadata i) = ''e1'')" by code_simp
  then show ?thesis by (auto split: sum.splits)
qed

section \<open>Publishing\<close>

text \<open>
  C16: A publication that succeeds is what later reads see: looking the path up returns the object
  the publication returned, with the published file, its size and the given metadata, stamped with
  the entry and the time. Every other path leads where it led, apart from directories created above
  the object, and every file the directory serves can still be served.
\<close>

theorem Publish_stat:
  assumes "good_ids idfn" and "dir_ok idfn d" and "absolute p" and "components p \<noteq> []" and "fileID < 2 ^ 64"
    and "PublishS3Object idfn mime now p fileID fsize metadata condition d = Inr (i, d')"
  shows "StatS3Object mime p d' = Inr i \<and> lk_FileId (oi_Link i) = fileID \<and> lk_FileSize (oi_Link i) = fsize \<and>
    oi_Metadata i = metadata\<lparr>or_entry_id := lk_EntryID (oi_Link i), or_ctime := now, or_mtime := now\<rparr> \<and>
    dir_ok idfn d' \<and> (published d \<longrightarrow> published d') \<and>
    (\<forall>xs x. xs \<noteq> items p \<longrightarrow> entries d xs = Some x \<longrightarrow> entries d' xs = Some x) \<and>
    (\<forall>xs x. xs \<noteq> items p \<longrightarrow> entries d xs = None \<longrightarrow> entries d' xs = Some x \<longrightarrow> strict_prefix xs (items p) \<and> mr_kind x = KindDir)"
  using publish_effect [OF assms] publish_published [OF _ assms(5,6)] unfolding stored_for_def by blast

theorem Publish_stat_witness:
  "\<exists>i. PublishS3Object Suc plain_mime 5 ''/b/k'' 7 3 (sample_meta ''e1'') None stored_db = Inr (i, object_db) \<and>
     StatS3Object plain_mime ''/b/k'' object_db = Inr i \<and> lk_FileId (oi_Link i) = 7 \<and> published object_db"
proof -
  obtain i where pub: "PublishS3Object Suc plain_mime 5 ''/b/k'' 7 3 (sample_meta ''e1'') None stored_db = Inr (i, object_db)"
    using object_created by blast
  then show ?thesis using Publish_stat [OF good_ids_Suc stored_ok(1) absolute_code _ _ pub] by auto
qed



text \<open>
  C17: No update is lost between writers that use conditional requests. Two writers read the same
  ETag and both publish with \<open>If-Match\<close>; once the first has replaced the object by one with another
  ETag, the second and a conditional delete are refused, and a writer that asks for the path to
  be free (\<open>If-None-Match: *\<close>) is refused as well. This holds in every later state in which the object of the first
  writer is still there.
\<close>

definition simple_etag :: "string \<Rightarrow> bool" where
  "simple_etag e \<longleftrightarrow> e \<noteq> '''' \<and> e \<noteq> ''*'' \<and> CHR '','' \<notin> set e \<and> TrimSpace e = e"

lemma match_refused:
  assumes "statS3ObjectTx mime p d = Inr (Some i)" and "simple_etag e" and "or_etag (oi_Metadata i) \<noteq> e" and "sc_IfMatch c = e"
  shows "evaluateS3Condition (Some i) (Some c) = Inl ErrS3Precondition"
  using assms(2-4) by (simp add: evaluateS3Condition_def s3IfMatchSatisfied_def simple_etag_def
      s3ETagListContains_def split_on_no_sep Let_def)

lemma none_match_refused:
  "sc_IfNoneMatch c = ''*'' \<Longrightarrow> evaluateS3Condition (Some i) (Some c) = Inl ErrS3Precondition"
  by (simp add: evaluateS3Condition_def s3IfNoneMatchSatisfied_def)

theorem Publish_no_lost_update:
  assumes "good_ids idfn" and "dir_ok idfn d" and "absolute p" and "components p \<noteq> []" and "fileID < 2 ^ 64"
    and first: "PublishS3Object idfn mime now p fileID fsize metadata condition d = Inr (i, d')"
    and later: "StatS3Object mime p d'' = StatS3Object mime p d'"
    and etag: "simple_etag e" "or_etag metadata \<noteq> e"
    and second: "sc_IfMatch c = e \<or> sc_IfNoneMatch c = ''*''"
  shows "PublishS3Object idfn' mime now' p fileID' fsize' metadata' (Some c) d'' = Inl ErrS3Precondition \<and>
    DeleteS3Object mime now' p (Some c) d'' = Inl ErrS3Precondition"
proof -
  note first = publish_effect [OF assms(1-6)]
  have "or_etag (oi_Metadata i) \<noteq> e" using etag(2) first(5) by (simp add: stored_for_def)
  moreover have stat: "statS3ObjectTx mime p d'' = Inr (Some i)" using Stat_statTx [OF assms(3), of mime d'' i] first(2) later by simp
  ultimately have "evaluateS3Condition (Some i) (Some c) = Inl ErrS3Precondition"
    using second match_refused [OF stat etag(1)] none_match_refused by blast
  then show ?thesis
    by (simp add: PublishS3Object_def publishS3ObjectTx_def DeleteS3Object_def stat)
qed

theorem Publish_no_lost_update_witness:
  "PublishS3Object Suc plain_mime 6 ''/b/k'' 8 0 (sample_meta ''e2'')
     (Some \<lparr>sc_IfMatch = ''e0'', sc_IfNoneMatch = '''', sc_IfModifiedSince = None, sc_IfUnmodifiedSince = None\<rparr>) object_db =
   Inl ErrS3Precondition"
proof -
  obtain i where pub: "PublishS3Object Suc plain_mime 5 ''/b/k'' 7 3 (sample_meta ''e1'') None stored_db = Inr (i, object_db)"
    using object_created by blast
  have "simple_etag ''e0''" unfolding simple_etag_def by code_simp
  then show ?thesis
    using Publish_no_lost_update [OF good_ids_Suc stored_ok(1) absolute_code _ _ pub refl, of "''e0''"] by (simp add: sample_meta_def)
qed

section \<open>Deleting and copying\<close>

text \<open>
  C24: Deleting an existing object whose conditions hold always succeeds. The path is gone, every
  other path leads where it led, what is served can still be served, and no block of the
  file remains that nothing refers to and that is not marked for deletion.
\<close>

theorem Delete_object:
  assumes "dir_ok idfn d" and "absolute p" and "published d" and "segments_flat d"
    and "StatS3Object mime p d = Inr i" and "evaluateS3Condition (Some i) condition = Inr ()"
  shows "\<exists>d'. DeleteS3Object mime now p condition d = Inr (True, d') \<and> dir_ok idfn d' \<and> published d' \<and>
    StatS3Object mime p d' = Inl ErrNotExist \<and> (\<forall>xs. xs \<noteq> items p \<longrightarrow> entries d' xs = entries d xs) \<and>
    only_referenced d' (lk_FileId (oi_Link i))"
  using delete_effect [OF assms(1-4) _ assms(6)] assms(5) Stat_statTx [OF assms(2)] by blast

theorem Delete_object_witness:
  "\<exists>d'. DeleteS3Object plain_mime 9 ''/b/k'' None object_db = Inr (True, d') \<and> StatS3Object plain_mime ''/b/k'' d' = Inl ErrNotExist"
proof -
  obtain i where "StatS3Object plain_mime ''/b/k'' object_db = Inr i" using object_stat by blast
  then show ?thesis using Delete_object [OF object_ok(1) absolute_code object_ok(2,3), of plain_mime _ i None 9]
    by (auto simp: evaluateS3Condition_def)
qed

text \<open>
  C25: Copying an object to another path makes the destination an object with the same file and
  size, without copying contents, and with the metadata of the source unless the request replaces
  them. Every path but the destination leads where it led, the source included, and what is
  served can still be served.
\<close>

theorem Copy_object:
  assumes "good_ids idfn" and "dir_ok idfn d" and "absolute src" and "absolute dst" and "components dst \<noteq> []"
    and "items src \<noteq> items dst" and "CopyS3Object idfn mime now src dst metadata sc dc d = Inr (i, d')"
  shows "\<exists>si. StatS3Object mime src d = Inr si \<and> StatS3Object mime dst d' = Inr i \<and>
    lk_FileId (oi_Link i) = lk_FileId (oi_Link si) \<and> lk_FileSize (oi_Link i) = lk_FileSize (oi_Link si) \<and>
    oi_Metadata i = (case metadata of None \<Rightarrow> oi_Metadata si | Some m \<Rightarrow> m)
      \<lparr>or_entry_id := lk_EntryID (oi_Link i), or_ctime := now, or_mtime := now\<rparr> \<and>
    dir_ok idfn d' \<and> (published d \<longrightarrow> published d') \<and>
    (\<forall>xs x. xs \<noteq> items dst \<longrightarrow> entries d xs = Some x \<longrightarrow> entries d' xs = Some x)"
  using copy_effect [OF assms(1-7)] published_copy [OF _ dir_okD [OF assms(2)] assms(3,7)] unfolding stored_for_def by blast

theorem Copy_object_witness:
  "\<exists>i d'. CopyS3Object Suc plain_mime 9 ''/b/k'' ''/b/j'' None None None object_db = Inr (i, d') \<and>
     StatS3Object plain_mime ''/b/j'' d' = Inr i \<and> lk_FileId (oi_Link i) = 7"
proof -
  have "\<not> isl (CopyS3Object Suc plain_mime 9 ''/b/k'' ''/b/j'' None None None object_db)" by code_simp
  then obtain i d' where copy: "CopyS3Object Suc plain_mime 9 ''/b/k'' ''/b/j'' None None None object_db = Inr (i, d')"
    by (cases "CopyS3Object Suc plain_mime 9 ''/b/k'' ''/b/j'' None None None object_db") auto
  have "items ''/b/k'' \<noteq> items ''/b/j''" by (simp add: items_def)
  then show ?thesis
    using Copy_object [OF good_ids_Suc object_ok(1) absolute_code absolute_code _ _ copy] copy object_stat by auto
qed

section \<open>Listing\<close>


definition sample_request :: S3ListRequest where
  "sample_request = \<lparr>lq_Bucket = ''b'', lq_Prefix = '''', lq_Delimiter = ''/'', lq_StartAfter = '''', lq_ContinuationToken = '''', lq_MaxKeys = 10\<rparr>"

lemma sample_request_fields:
  "normal (lq_Bucket sample_request)" "ascii (lq_Bucket sample_request)" "ascii (lq_Prefix sample_request)"
  "exact_case (bucket_path (lq_Bucket sample_request) @ lq_Prefix sample_request) object_db" "0 < lq_MaxKeys sample_request"
  "bucket_path (lq_Bucket sample_request) = ''/b/''"
  unfolding normal_def exact_case_def bucket_path_def by code_simp+



end
