(* ===== verification/WebDAV_Locks.thy ===== *)
theory WebDAV_Locks
  imports S3_Object
begin

text \<open>
  Preconditions and locks of the WebDAV interface (\<^verbatim>\<open>filemgr/webdav_protocol.go\<close>): entity tags,
  the conditional headers, the \<open>If\<close> header with its lists of lock tokens and tags, and the
  queries that find the locks a path is subject to. Every writing operation asks
  \<open>assertWebDAVLocksTx\<close> or, for a whole subtree, \<open>assertWebDAVTreeLocksTx\<close>. The clock is read
  once per operation and is the argument \<open>now\<close>.
\<close>

section \<open>Requests\<close>

record WebDAVIfTerm =
  it_Not :: bool
  it_LockToken :: string
  it_ETag :: string

record WebDAVIfList =
  il_Resource :: string
  il_Terms :: "WebDAVIfTerm list"

record WebDAVIfHeader =
  ih_Lists :: "WebDAVIfList list"

record WebDAVCondition =
  wc_IfMatch :: string
  wc_IfNoneMatch :: string
  wc_IfModifiedSince :: "int option"
  wc_IfUnmodifiedSince :: "int option"
  wc_IfHeader :: "WebDAVIfHeader option"
  wc_RequestPath :: string

record WebDAVMutationOptions =
  mo_Principal :: string
  mo_Condition :: "WebDAVCondition option"
  mo_MaxEntries :: int
  mo_QuotaRoot :: string
  mo_QuotaBytes :: int

section \<open>Entity tags and conditional headers\<close>

definition webDAVFileETag :: "nat \<Rightarrow> int \<Rightarrow> string" where
  "webDAVFileETag fileID fsize = [CHR 0x22] @ format_nat fileID @ ''-'' @ Itoa fsize @ [CHR 0x22]"

definition WebDAVETag :: "FileLinkMeta option \<Rightarrow> string" where
  "WebDAVETag link =
     (case link of
        None \<Rightarrow> ''''
      | Some l \<Rightarrow> if lk_IsDir l then '''' else webDAVFileETag (lk_FileId l) (lk_FileSize l))"

definition webDAVEntryToLink :: "string \<Rightarrow> mapping_row \<Rightarrow> FileLinkMeta result" where
  "webDAVEntryToLink resourcePath entry =
     bind_result (if mr_kind entry = KindDir then Inr 0 else parse_file_id (mr_ref_data entry)) (\<lambda>fileID.
       Inr \<lparr>lk_EntryID = mr_entry_id entry, lk_FileName = Base resourcePath, lk_FileId = fileID,
            lk_FileSize = mr_size entry, lk_Mode = mr_mode entry, lk_Ctime = mr_ctime entry,
            lk_Mtime = mr_mtime entry, lk_IsDir = (mr_kind entry = KindDir)\<rparr>)"

definition webDAVETagListContains :: "string \<Rightarrow> string \<Rightarrow> bool \<Rightarrow> bool" where
  "webDAVETagListContains value etag weak =
     (if value = ''*'' then True
      else etag_listed weak (if weak then TrimPrefix etag ''W/'' else etag) (split_on (CHR '','') value))"

definition evaluateWebDAVETagCondition :: "string \<Rightarrow> bool \<Rightarrow> WebDAVCondition \<Rightarrow> unit result" where
  "evaluateWebDAVETagCondition etag exists condition =
     (if wc_IfMatch condition \<noteq> '''' \<and> (\<not> exists \<or> \<not> webDAVETagListContains (wc_IfMatch condition) etag False)
      then Inl ErrWebDAVPrecondition
      else if wc_IfNoneMatch condition \<noteq> '''' \<and> exists \<and>
          (wc_IfNoneMatch condition = ''*'' \<or> webDAVETagListContains (wc_IfNoneMatch condition) etag True)
      then Inl ErrWebDAVPrecondition
      else Inr ())"

definition evaluateWebDAVTimeCondition :: "FileLinkMeta option \<Rightarrow> WebDAVCondition \<Rightarrow> unit result" where
  "evaluateWebDAVTimeCondition link condition =
     (case link of
        None \<Rightarrow> Inr ()
      | Some l \<Rightarrow>
          let modified = truncate_second (lk_Mtime l)
          in if wc_IfMatch condition = '''' \<and>
               (case wc_IfUnmodifiedSince condition of None \<Rightarrow> False | Some t \<Rightarrow> modified > truncate_second t)
             then Inl ErrWebDAVPrecondition
             else if wc_IfNoneMatch condition = '''' \<and>
               (case wc_IfModifiedSince condition of None \<Rightarrow> False | Some t \<Rightarrow> \<not> modified > truncate_second t)
             then Inl ErrWebDAVPrecondition
             else Inr ())"

text \<open>\<open>exists\<close> of the source is \<open>link \<noteq> None\<close>: no caller passes one without the other.\<close>

definition evaluateWebDAVCondition :: "FileLinkMeta option \<Rightarrow> WebDAVCondition option \<Rightarrow> unit result" where
  "evaluateWebDAVCondition link condition =
     (case condition of
        None \<Rightarrow> Inr ()
      | Some c \<Rightarrow>
          bind_result (evaluateWebDAVETagCondition (WebDAVETag link) (link \<noteq> None) c) (\<lambda>_.
            evaluateWebDAVTimeCondition link c))"

definition optional_link :: "string \<Rightarrow> mapping_row option \<Rightarrow> FileLinkMeta option result" where
  "optional_link resourcePath found =
     (case found of
        None \<Rightarrow> Inr None
      | Some entry \<Rightarrow> bind_result (webDAVEntryToLink resourcePath entry) (\<lambda>link. Inr (Some link)))"

definition evaluateFirstWebDAVConditionTx :: "string list \<Rightarrow> WebDAVCondition option \<Rightarrow> db \<Rightarrow> unit result" where
  "evaluateFirstWebDAVConditionTx paths condition d =
     (case paths of
        [] \<Rightarrow> Inr ()
      | p # _ \<Rightarrow>
          bind_result (txStat p d) (\<lambda>found.
          bind_result (optional_link p found) (\<lambda>link.
          evaluateWebDAVCondition link condition)))"

section \<open>The If header\<close>

definition webDAVIfListApplies :: "WebDAVIfList \<Rightarrow> string \<Rightarrow> string \<Rightarrow> bool" where
  "webDAVIfListApplies list requestPath resourcePath =
     ((if il_Resource list \<noteq> '''' then Clean (il_Resource list) else requestPath) = resourcePath)"

definition webDAVIfTermSatisfied :: "WebDAVIfTerm \<Rightarrow> string \<Rightarrow> lock_row list \<Rightarrow> bool" where
  "webDAVIfTermSatisfied term etag lks =
     (let satisfied =
        (if it_LockToken term \<noteq> '''' then list_ex (\<lambda>lock. lr_token lock = it_LockToken term) lks
         else if it_ETag term \<noteq> '''' then webDAVETagListContains (it_ETag term) etag True
         else False)
      in if it_Not term then \<not> satisfied else satisfied)"

definition webDAVIfListSatisfied :: "WebDAVIfList \<Rightarrow> string \<Rightarrow> lock_row list \<Rightarrow> bool" where
  "webDAVIfListSatisfied list etag lks = list_all (\<lambda>term. webDAVIfTermSatisfied term etag lks) (il_Terms list)"

definition webDAVIfHeaderAllows :: "WebDAVCondition option \<Rightarrow> string \<Rightarrow> string \<Rightarrow> lock_row list \<Rightarrow> bool" where
  "webDAVIfHeaderAllows condition resourcePath etag lks =
     (case condition of
        None \<Rightarrow> False
      | Some c \<Rightarrow>
          case wc_IfHeader c of
            None \<Rightarrow> False
          | Some header \<Rightarrow>
              list_ex (\<lambda>list. webDAVIfListApplies list (Clean (wc_RequestPath c)) (Clean resourcePath) \<and>
                webDAVIfListSatisfied list etag lks) (ih_Lists header))"

definition hasApplicableWebDAVIfList :: "WebDAVCondition option \<Rightarrow> string \<Rightarrow> bool" where
  "hasApplicableWebDAVIfList condition resourcePath =
     (case condition of
        None \<Rightarrow> False
      | Some c \<Rightarrow>
          case wc_IfHeader c of
            None \<Rightarrow> False
          | Some header \<Rightarrow>
              list_ex (\<lambda>list. webDAVIfListApplies list (Clean (wc_RequestPath c)) (Clean resourcePath)) (ih_Lists header))"

definition queryWebDAVETagByPath :: "string \<Rightarrow> db \<Rightarrow> string result" where
  "queryWebDAVETagByPath resourcePath d =
     (case select_path (Clean resourcePath) d of
        None \<Rightarrow> Inr ''''
      | Some entry \<Rightarrow>
          if mr_kind entry \<noteq> 2 then Inr ''''
          else bind_result (parse_file_id (mr_ref_data entry)) (\<lambda>fileID. Inr (webDAVFileETag fileID (mr_size entry))))"

section \<open>Finding locks\<close>

text \<open>
  A lock of depth infinity applies below its root. The pattern is built from the root without
  escaping, as in the source.
\<close>

definition lock_applies :: "int \<Rightarrow> string \<Rightarrow> lock_row \<Rightarrow> bool" where
  "lock_applies now p r \<longleftrightarrow>
     lr_expires_at r > now \<and>
     (lr_root_path r = p \<or>
      lr_infinity r \<and> (lr_root_path r = ''/'' \<and> like None ''/%'' p \<or> like None (lr_root_path r @ ''/%'') p))"

definition queryApplicableWebDAVLocks :: "int \<Rightarrow> string \<Rightarrow> db \<Rightarrow> lock_row list" where
  "queryApplicableWebDAVLocks now resourcePath d =
     sort_key lr_root_path (filter (lock_applies now (Clean resourcePath)) (locks d))"

definition queryOverlappingWebDAVLocks :: "int \<Rightarrow> string \<Rightarrow> db \<Rightarrow> lock_row list" where
  "queryOverlappingWebDAVLocks now resourcePath d =
     (let cleaned = Clean resourcePath
      in sort_key lr_root_path (filter (\<lambda>r. lock_applies now cleaned r \<or>
           lr_expires_at r > now \<and> like backslash (escapeSQLiteLike (cleaned @ ''/'') @ ''%'') (lr_root_path r)) (locks d)))"

definition queryWebDAVLockByToken :: "int \<Rightarrow> string \<Rightarrow> db \<Rightarrow> lock_row option" where
  "queryWebDAVLockByToken now token d = find (\<lambda>r. lr_token r = token \<and> lr_expires_at r > now) (locks d)"

section \<open>Asserting\<close>

definition assertLocksAt :: "int \<Rightarrow> WebDAVCondition option \<Rightarrow> db \<Rightarrow> string \<Rightarrow> unit result" where
  "assertLocksAt now condition d resourcePath =
     (let lks = queryApplicableWebDAVLocks now resourcePath d
      in if lks = [] \<and> \<not> hasApplicableWebDAVIfList condition resourcePath then Inr ()
         else
           bind_result (queryWebDAVETagByPath resourcePath d) (\<lambda>etag.
           if lks = [] then
             (if webDAVIfHeaderAllows condition resourcePath etag [] then Inr () else Inl ErrWebDAVPrecondition)
           else if list_all (\<lambda>lock. webDAVIfHeaderAllows condition resourcePath etag [lock]) lks then Inr ()
           else Inl ErrWebDAVLocked))"

definition assertWebDAVLocksTx :: "int \<Rightarrow> string list \<Rightarrow> WebDAVCondition option \<Rightarrow> db \<Rightarrow> unit result" where
  "assertWebDAVLocksTx now paths condition d = fold_result (\<lambda>p _. assertLocksAt now condition d p) paths ()"

definition assertTreeLocksAt :: "int \<Rightarrow> WebDAVCondition option \<Rightarrow> db \<Rightarrow> string \<Rightarrow> unit result" where
  "assertTreeLocksAt now condition d resourcePath =
     (let lks = queryOverlappingWebDAVLocks now resourcePath d
      in bind_result (queryWebDAVETagByPath resourcePath d) (\<lambda>etag.
         if \<not> list_all (\<lambda>lock. webDAVIfHeaderAllows condition resourcePath etag [lock]) lks then Inl ErrWebDAVLocked
         else if lks = [] \<and> hasApplicableWebDAVIfList condition resourcePath \<and>
             \<not> webDAVIfHeaderAllows condition resourcePath etag [] then Inl ErrWebDAVPrecondition
         else Inr ()))"

definition assertWebDAVTreeLocksTx :: "int \<Rightarrow> string list \<Rightarrow> WebDAVCondition option \<Rightarrow> db \<Rightarrow> unit result" where
  "assertWebDAVTreeLocksTx now paths condition d = fold_result (\<lambda>p _. assertTreeLocksAt now condition d p) paths ()"

definition assertWebDAVConditionsTx :: "int \<Rightarrow> string list \<Rightarrow> WebDAVCondition option \<Rightarrow> db \<Rightarrow> unit result" where
  "assertWebDAVConditionsTx now paths condition d =
     bind_result (evaluateFirstWebDAVConditionTx paths condition d) (\<lambda>_.
       assertWebDAVLocksTx now paths condition d)"

definition assertNoConflictingWebDAVLockTx :: "int \<Rightarrow> string \<Rightarrow> string \<Rightarrow> db \<Rightarrow> unit result" where
  "assertNoConflictingWebDAVLockTx now resourcePath depth d =
     (if (if depth = ''infinity'' then queryOverlappingWebDAVLocks now resourcePath d
          else queryApplicableWebDAVLocks now resourcePath d) \<noteq> []
      then Inl ErrWebDAVLocked else Inr ())"

end
