(* ===== verification/WebDAV_Resource.thy ===== *)
theory WebDAV_Resource
  imports WebDAV_Locks File_Manager
begin

text \<open>
  The writing operations of the WebDAV interface (\<^verbatim>\<open>filemgr/webdav_protocol.go\<close>). Each of them
  first removes expired locks in a transaction of its own and then runs a second transaction, so
  that an operation that fails may still have removed expired locks: its result is the
  database it leaves together with the value or error.
\<close>

section \<open>Expired locks\<close>

definition expireLock :: "int \<Rightarrow> lock_row \<Rightarrow> db \<Rightarrow> db result" where
  "expireLock now lock d =
     (let d = d\<lparr>locks := filter (\<lambda>r. lr_token r \<noteq> lr_token lock) (locks d)\<rparr>
      in if \<not> lr_null lock then Inr d
         else
           bind_result (txStat (lr_root_path lock) d) (\<lambda>found.
           case found of
             None \<Rightarrow> Inr d
           | Some entry \<Rightarrow>
               if mr_entry_id entry \<noteq> lr_root_entry lock then Inr d
               else
                 bind_result (txRemoveTree now (lr_root_path lock) d) (\<lambda>(removed, d).
                 finalizeRemovedWebDAVEntries now removed d)))"

definition cleanupExpiredWebDAVLocks :: "int \<Rightarrow> db \<Rightarrow> db result" where
  "cleanupExpiredWebDAVLocks now d =
     fold_result (expireLock now) (sort_key lr_expires_at (filter (\<lambda>r. lr_expires_at r \<le> now) (locks d))) d"

definition after_cleanup :: "int \<Rightarrow> (db \<Rightarrow> ('a \<times> db) result) \<Rightarrow> db \<Rightarrow> db \<times> 'a result" where
  "after_cleanup now tx d =
     (case cleanupExpiredWebDAVLocks now d of
        Inl e \<Rightarrow> (d, Inl e)
      | Inr d \<Rightarrow>
          case tx d of
            Inl e \<Rightarrow> (d, Inl e)
          | Inr (x, d') \<Rightarrow> (d', Inr x))"

section \<open>Limits and quota\<close>

definition ensureWebDAVParentTx :: "string \<Rightarrow> db \<Rightarrow> unit result" where
  "ensureWebDAVParentTx resourcePath d =
     bind_result (txStat (Dir (Clean resourcePath)) d) (\<lambda>found.
     case found of
       None \<Rightarrow> Inl ErrParentNotFound
     | Some parent \<Rightarrow> if mr_kind parent \<noteq> KindDir then Inl ErrPathComponentNotDirectory else Inr ())"

definition enforceWebDAVMutationLimitTx :: "nat \<Rightarrow> int \<Rightarrow> db \<Rightarrow> unit result" where
  "enforceWebDAVMutationLimitTx rootEntryID limit d =
     (if limit \<le> 0 then Inr ()
      else if int (length (subtree_rows rootEntryID d)) > limit then Inl ErrWebDAVTooManyItems
      else Inr ())"

definition queryWebDAVRootEntryID :: "string \<Rightarrow> db \<Rightarrow> nat result" where
  "queryWebDAVRootEntryID root d =
     (let root = Clean root
      in case (if root = ''/'' then find (\<lambda>m. mr_parent m = 0 \<and> mr_name m = ''/'') (mappings d) else select_path root d) of
           None \<Rightarrow> Inl ErrNotExist
         | Some m \<Rightarrow> Inr (mr_entry_id m))"

text \<open>The sum over the distinct files below the root, each with its largest recorded size.\<close>

definition quota_sum :: "mapping_row list \<Rightarrow> int" where
  "quota_sum rows =
     (let fs = filter (\<lambda>m. mr_kind m = 2) rows
      in sum_list (map (\<lambda>ref. foldr max (map mr_size (tl (filter (\<lambda>m. mr_ref_data m = ref) fs)))
                                (mr_size (hd (filter (\<lambda>m. mr_ref_data m = ref) fs))))
           (remdups (map mr_ref_data fs))))"

definition queryWebDAVQuotaUsed :: "string \<Rightarrow> db \<Rightarrow> int result" where
  "queryWebDAVQuotaUsed root d =
     bind_result (queryWebDAVRootEntryID root d) (\<lambda>entryID. Inr (quota_sum (subtree_rows entryID d)))"

definition webDAVFileReferenceCountUnderRoot :: "string \<Rightarrow> nat \<Rightarrow> db \<Rightarrow> nat result" where
  "webDAVFileReferenceCountUnderRoot root fileID d =
     bind_result (queryWebDAVRootEntryID root d) (\<lambda>entryID.
       Inr (length (filter (\<lambda>m. mr_kind m = 2 \<and> mr_ref_data m = format_nat fileID) (subtree_rows entryID d))))"

definition webDAVFileReferencedUnderRoot :: "string \<Rightarrow> nat \<Rightarrow> db \<Rightarrow> bool result" where
  "webDAVFileReferencedUnderRoot root fileID d =
     bind_result (webDAVFileReferenceCountUnderRoot root fileID d) (\<lambda>count. Inr (count \<noteq> 0))"

definition enforceWebDAVQuotaTx :: "string \<Rightarrow> int \<Rightarrow> FileLinkMeta option \<Rightarrow> nat \<Rightarrow> int \<Rightarrow> db \<Rightarrow> unit result" where
  "enforceWebDAVQuotaTx root limit current newFileID newSize d =
     (if limit \<le> 0 then Inr ()
      else
        bind_result (queryWebDAVQuotaUsed root d) (\<lambda>used.
        bind_result (webDAVFileReferencedUnderRoot root newFileID d) (\<lambda>newReferenced.
        let projected = (if newReferenced then used else used + newSize)
        in bind_result
             (case current of
                None \<Rightarrow> Inr projected
              | Some link \<Rightarrow>
                  if \<not> lk_IsDir link \<and> lk_FileId link \<noteq> newFileID
                  then bind_result (webDAVFileReferenceCountUnderRoot root (lk_FileId link) d) (\<lambda>count.
                         Inr (if count = 1 then projected - lk_FileSize link else projected))
                  else Inr projected) (\<lambda>projected.
           if projected > limit then Inl ErrWebDAVQuota else Inr ()))))"

definition WebDAVQuota :: "string \<Rightarrow> int \<Rightarrow> db \<Rightarrow> (int \<times> int) result" where
  "WebDAVQuota root limit d =
     bind_result (queryWebDAVQuotaUsed root d) (\<lambda>used. Inr (used, max 0 (limit - used)))"

section \<open>Collections\<close>

definition createCollectionTx :: "(nat \<Rightarrow> nat) \<Rightarrow> int \<Rightarrow> string \<Rightarrow> WebDAVMutationOptions \<Rightarrow> db \<Rightarrow> (bool \<times> db) result" where
  "createCollectionTx idfn now resourcePath options d =
     bind_result (assertWebDAVConditionsTx now [resourcePath] (mo_Condition options) d) (\<lambda>_.
     bind_result (txStat resourcePath d) (\<lambda>found.
     if found \<noteq> None then Inl ErrExist
     else bind_result (txMkdir idfn now resourcePath d) (\<lambda>(_, d). Inr (True, d))))"

definition CreateWebDAVCollection :: "(nat \<Rightarrow> nat) \<Rightarrow> int \<Rightarrow> string \<Rightarrow> WebDAVMutationOptions \<Rightarrow> db \<Rightarrow> db \<times> bool result" where
  "CreateWebDAVCollection idfn now resourcePath options =
     after_cleanup now (createCollectionTx idfn now resourcePath options)"

section \<open>Publishing a file\<close>

definition webDAVS3Metadata :: "(string \<Rightarrow> string \<Rightarrow> string) \<Rightarrow> int \<Rightarrow> FileLinkMeta \<Rightarrow> metadata_row" where
  "webDAVS3Metadata mime now link =
     \<lparr>or_entry_id = lk_EntryID link, or_etag = WebDAVETag (Some link),
      or_sha256 = '''', or_checksum_algorithm = '''', or_checksum_value = '''', or_checksum_type = '''',
      or_content_type = mime (extension_of (lk_FileName link)) ''application/octet-stream'',
      or_cache_control = defaultS3CacheControl, or_content_disposition = '''', or_content_encoding = '''',
      or_content_language = '''', or_expires = '''', or_user_metadata = ''{}'', or_ctime = now, or_mtime = now\<rparr>"

definition prepareWebDAVPublishTx :: "int \<Rightarrow> string \<Rightarrow> nat \<Rightarrow> int \<Rightarrow> WebDAVMutationOptions \<Rightarrow> db \<Rightarrow> bool result" where
  "prepareWebDAVPublishTx now resourcePath fileID fsize options d =
     bind_result (txStat resourcePath d) (\<lambda>currentEntry.
     bind_result (optional_link resourcePath currentEntry) (\<lambda>currentLink.
     if (case currentEntry of None \<Rightarrow> False | Some e \<Rightarrow> mr_kind e = KindDir) then Inl ErrEntryNotFile
     else
       bind_result (evaluateWebDAVCondition currentLink (mo_Condition options)) (\<lambda>_.
       bind_result (assertWebDAVLocksTx now [resourcePath] (mo_Condition options) d) (\<lambda>_.
       bind_result (enforceWebDAVQuotaTx (mo_QuotaRoot options) (mo_QuotaBytes options) currentLink fileID fsize d) (\<lambda>_.
       bind_result (ensureFileTreeCanBeLinked fileID d) (\<lambda>_.
       Inr (currentEntry \<noteq> None)))))))"

definition replaceWebDAVMappingTx :: "int \<Rightarrow> string \<Rightarrow> nat \<Rightarrow> int \<Rightarrow> db \<Rightarrow> (mapping_row \<times> db) result" where
  "replaceWebDAVMappingTx now resourcePath fileID fsize d =
     bind_result (txReplace resourcePath fsize (format_nat fileID) now now d) (\<lambda>(previous, d).
     bind_result (txStat resourcePath d) (\<lambda>found.
     case found of
       None \<Rightarrow> Inl ErrNotExist
     | Some entry \<Rightarrow>
         let d = deleteS3Metadata (mr_entry_id entry) d
         in bind_result (mappingEntryFileIDs [previous]) (\<lambda>oldFileIDs.
            bind_result
              (if oldFileIDs \<noteq> [] \<and> hd oldFileIDs \<noteq> fileID then markMappingFilesPending now oldFileIDs d else Inr d) (\<lambda>d.
            Inr (entry, d)))))"

definition storeWebDAVMappingTx ::
  "(nat \<Rightarrow> nat) \<Rightarrow> int \<Rightarrow> string \<Rightarrow> nat \<Rightarrow> int \<Rightarrow> bool \<Rightarrow> db \<Rightarrow> ((mapping_row \<times> bool) \<times> db) result" where
  "storeWebDAVMappingTx idfn now resourcePath fileID fsize exists d =
     (if \<not> exists then
        bind_result (ensureWebDAVParentTx resourcePath d) (\<lambda>_.
        bind_result (txCreate idfn now resourcePath fsize (format_nat fileID) d) (\<lambda>(entry, d).
        Inr ((entry, True), d)))
      else
        bind_result (replaceWebDAVMappingTx now resourcePath fileID fsize d) (\<lambda>(entry, d). Inr ((entry, False), d)))"

definition bind_lock_null :: "nat \<Rightarrow> string \<Rightarrow> db \<Rightarrow> db" where
  "bind_lock_null entryID p d =
     d\<lparr>locks := map (\<lambda>r. if lr_root_path r = p then r\<lparr>lr_null := False, lr_root_entry := entryID\<rparr> else r) (locks d)\<rparr>"

definition publishWebDAVFileTx ::
  "(nat \<Rightarrow> nat) \<Rightarrow> (string \<Rightarrow> string \<Rightarrow> string) \<Rightarrow> int \<Rightarrow> string \<Rightarrow> nat \<Rightarrow> int \<Rightarrow> WebDAVMutationOptions
     \<Rightarrow> db \<Rightarrow> ((FileLinkMeta \<times> bool) \<times> db) result" where
  "publishWebDAVFileTx idfn mime now resourcePath fileID fsize options d =
     bind_result (prepareWebDAVPublishTx now resourcePath fileID fsize options d) (\<lambda>exists.
     bind_result (storeWebDAVMappingTx idfn now resourcePath fileID fsize exists d) (\<lambda>((entry, created), d).
     bind_result (webDAVEntryToLink resourcePath entry) (\<lambda>link.
     bind_result (insertS3Metadata (webDAVS3Metadata mime now link) d) (\<lambda>d.
     Inr ((link, created), bind_lock_null (mr_entry_id entry) (Clean resourcePath) d)))))"

definition PublishWebDAVFile ::
  "(nat \<Rightarrow> nat) \<Rightarrow> (string \<Rightarrow> string \<Rightarrow> string) \<Rightarrow> int \<Rightarrow> string \<Rightarrow> nat \<Rightarrow> int \<Rightarrow> WebDAVMutationOptions
     \<Rightarrow> db \<Rightarrow> db \<times> (FileLinkMeta \<times> bool) result" where
  "PublishWebDAVFile idfn mime now resourcePath fileID fsize options =
     after_cleanup now (publishWebDAVFileTx idfn mime now resourcePath fileID fsize options)"

section \<open>Deleting, copying and moving\<close>

definition deleteResourceTx :: "int \<Rightarrow> string \<Rightarrow> WebDAVMutationOptions \<Rightarrow> db \<Rightarrow> (unit \<times> db) result" where
  "deleteResourceTx now resourcePath options d =
     bind_result (txStat resourcePath d) (\<lambda>found.
     case found of
       None \<Rightarrow> Inl ErrNotExist
     | Some entry \<Rightarrow>
         bind_result (webDAVEntryToLink resourcePath entry) (\<lambda>link.
         bind_result (evaluateWebDAVCondition (Some link) (mo_Condition options)) (\<lambda>_.
         bind_result (enforceWebDAVMutationLimitTx (mr_entry_id entry) (mo_MaxEntries options) d) (\<lambda>_.
         bind_result (assertWebDAVTreeLocksTx now [resourcePath] (mo_Condition options) d) (\<lambda>_.
         bind_result (txRemoveTree now resourcePath d) (\<lambda>(removed, d).
         bind_result (finalizeRemovedWebDAVEntries now removed d) (\<lambda>d. Inr ((), d))))))))"

definition DeleteWebDAVResource :: "int \<Rightarrow> string \<Rightarrow> WebDAVMutationOptions \<Rightarrow> db \<Rightarrow> db \<times> unit result" where
  "DeleteWebDAVResource now resourcePath options = after_cleanup now (deleteResourceTx now resourcePath options)"

definition prepareWebDAVCopyDestinationTx :: "int \<Rightarrow> string \<Rightarrow> WebDAVMutationOptions \<Rightarrow> db \<Rightarrow> bool result" where
  "prepareWebDAVCopyDestinationTx now destination options d =
     bind_result (ensureWebDAVParentTx destination d) (\<lambda>_.
     bind_result (txStat destination d) (\<lambda>found.
     bind_result
       (if found \<noteq> None then assertWebDAVTreeLocksTx now [destination] (mo_Condition options) d
        else assertWebDAVLocksTx now [destination] (mo_Condition options) d) (\<lambda>_.
     Inr (found \<noteq> None))))"

definition copyWebDAVResourceTx ::
  "(nat \<Rightarrow> nat) \<Rightarrow> int \<Rightarrow> string \<Rightarrow> string \<Rightarrow> bool \<Rightarrow> bool \<Rightarrow> WebDAVMutationOptions \<Rightarrow> db \<Rightarrow> (bool \<times> db) result" where
  "copyWebDAVResourceTx idfn now source destination overwrite recursive options d =
     bind_result (txStat source d) (\<lambda>found.
     case found of
       None \<Rightarrow> Inl ErrNotExist
     | Some sourceEntry \<Rightarrow>
         bind_result (webDAVEntryToLink source sourceEntry) (\<lambda>sourceLink.
         bind_result (evaluateWebDAVCondition (Some sourceLink) (mo_Condition options)) (\<lambda>_.
         bind_result
           (if recursive then enforceWebDAVMutationLimitTx (mr_entry_id sourceEntry) (mo_MaxEntries options) d else Inr ()) (\<lambda>_.
         bind_result (prepareWebDAVCopyDestinationTx now destination options d) (\<lambda>destinationExists.
         bind_result (txCopyDepth idfn now source destination overwrite recursive d) (\<lambda>((copies, overwritten), d).
         bind_result (validateWebDAVCopies copies d) (\<lambda>_.
         bind_result (finalizeRemovedWebDAVEntries now overwritten d) (\<lambda>d.
         bind_result (copyWebDAVMetadata copies d) (\<lambda>d.
         bind_result (copyWebDAVProperties now copies d) (\<lambda>d.
         Inr (\<not> destinationExists, d)))))))))))"

definition CopyWebDAVResource ::
  "(nat \<Rightarrow> nat) \<Rightarrow> int \<Rightarrow> string \<Rightarrow> string \<Rightarrow> bool \<Rightarrow> bool \<Rightarrow> WebDAVMutationOptions \<Rightarrow> db \<Rightarrow> db \<times> bool result" where
  "CopyWebDAVResource idfn now source destination overwrite recursive options =
     after_cleanup now (copyWebDAVResourceTx idfn now source destination overwrite recursive options)"

text \<open>The source passes the length in bytes to \<open>substr\<close>, which counts code points.\<close>

definition moveLockRoots :: "string \<Rightarrow> string \<Rightarrow> db \<Rightarrow> db result" where
  "moveLockRoots cleanSource cleanDestination d =
     bind_result
       (update_unique lr_root_path
          (\<lambda>r. lr_root_path r = cleanSource \<or>
               like backslash (escapeSQLiteLike (cleanSource @ ''/'') @ ''%'') (lr_root_path r))
          (\<lambda>r. r\<lparr>lr_root_path := cleanDestination @ sql_substr (lr_root_path r) (length cleanSource + 1)\<rparr>)
          (locks d)) (\<lambda>rows.
     Inr (d\<lparr>locks := rows\<rparr>))"

definition moveResourceTx ::
  "int \<Rightarrow> string \<Rightarrow> string \<Rightarrow> bool \<Rightarrow> WebDAVMutationOptions \<Rightarrow> db \<Rightarrow> (bool \<times> db) result" where
  "moveResourceTx now source destination overwrite options d =
     bind_result (txStat source d) (\<lambda>found.
     case found of
       None \<Rightarrow> Inl ErrNotExist
     | Some sourceEntry \<Rightarrow>
         bind_result (webDAVEntryToLink source sourceEntry) (\<lambda>sourceLink.
         bind_result (evaluateWebDAVCondition (Some sourceLink) (mo_Condition options)) (\<lambda>_.
         bind_result (enforceWebDAVMutationLimitTx (mr_entry_id sourceEntry) (mo_MaxEntries options) d) (\<lambda>_.
         bind_result (assertWebDAVTreeLocksTx now [source, destination] (mo_Condition options) d) (\<lambda>_.
         bind_result (ensureWebDAVParentTx destination d) (\<lambda>_.
         bind_result (txStat destination d) (\<lambda>destinationFound.
         bind_result (txMove now source destination overwrite d) (\<lambda>(overwritten, d).
         bind_result (finalizeRemovedWebDAVEntries now overwritten d) (\<lambda>d.
         bind_result (moveLockRoots (Clean source) (Clean destination) d) (\<lambda>d.
         Inr (destinationFound = None, d)))))))))))"

definition MoveWebDAVResource ::
  "int \<Rightarrow> string \<Rightarrow> string \<Rightarrow> bool \<Rightarrow> WebDAVMutationOptions \<Rightarrow> db \<Rightarrow> db \<times> bool result" where
  "MoveWebDAVResource now source destination overwrite options =
     after_cleanup now (moveResourceTx now source destination overwrite options)"

section \<open>Properties\<close>

record WebDAVPropertyPatch =
  pp_Set :: bool
  pp_Namespace :: string
  pp_LocalName :: string
  pp_ValueXML :: string

definition maxWebDAVPropertySize :: nat where
  "maxWebDAVPropertySize = 1048576"

text \<open>Ordered by namespace, then by local name: a stable sort by the second key, then by the first.\<close>

definition ReadWebDAVProperties :: "nat \<Rightarrow> db \<Rightarrow> (string \<times> string \<times> string) list" where
  "ReadWebDAVProperties entryID d =
     map (\<lambda>r. (wr_namespace r, wr_local_name r, wr_value_xml r))
       (sort_key wr_namespace (sort_key wr_local_name (filter (\<lambda>r. wr_entry_id r = entryID) (props d))))"

definition validateWebDAVDeadProperty :: "WebDAVPropertyPatch \<Rightarrow> unit result" where
  "validateWebDAVDeadProperty patch =
     (if pp_Namespace patch = ''DAV:'' \<or> TrimSpace (pp_LocalName patch) = '''' \<or> length (pp_ValueXML patch) > maxWebDAVPropertySize
      then Inl ErrWebDAVProperty else Inr ())"

definition upsert_property :: "property_row \<Rightarrow> db \<Rightarrow> db" where
  "upsert_property row d =
     (if property_key row \<in> set (map property_key (props d))
      then d\<lparr>props := map (\<lambda>r. if property_key r = property_key row
                then r\<lparr>wr_value_xml := wr_value_xml row, wr_mtime := wr_mtime row\<rparr> else r) (props d)\<rparr>
      else d\<lparr>props := props d @ [row]\<rparr>)"

definition patch_property :: "nat \<Rightarrow> int \<Rightarrow> WebDAVPropertyPatch \<Rightarrow> db \<Rightarrow> db result" where
  "patch_property entryID now patch d =
     bind_result (validateWebDAVDeadProperty patch) (\<lambda>_.
       let row = \<lparr>wr_entry_id = entryID, wr_namespace = pp_Namespace patch, wr_local_name = pp_LocalName patch,
                  wr_value_xml = pp_ValueXML patch, wr_ctime = now, wr_mtime = now\<rparr>
       in if pp_Set patch then Inr (upsert_property row d)
          else Inr (d\<lparr>props := filter (\<lambda>r. property_key r \<noteq> property_key row) (props d)\<rparr>))"

definition patchPropertiesTx ::
  "int \<Rightarrow> string \<Rightarrow> WebDAVPropertyPatch list \<Rightarrow> WebDAVMutationOptions \<Rightarrow> db \<Rightarrow> (unit \<times> db) result" where
  "patchPropertiesTx now resourcePath patches options d =
     bind_result (txStat resourcePath d) (\<lambda>found.
     case found of
       None \<Rightarrow> Inl ErrNotExist
     | Some entry \<Rightarrow>
         bind_result (assertWebDAVConditionsTx now [resourcePath] (mo_Condition options) d) (\<lambda>_.
         bind_result (fold_result (patch_property (mr_entry_id entry) now) patches d) (\<lambda>d.
         bind_result (txTouch resourcePath now now d) (\<lambda>d. Inr ((), d)))))"

definition PatchWebDAVProperties ::
  "int \<Rightarrow> string \<Rightarrow> WebDAVPropertyPatch list \<Rightarrow> WebDAVMutationOptions \<Rightarrow> db \<Rightarrow> db \<times> unit result" where
  "PatchWebDAVProperties now resourcePath patches options =
     after_cleanup now (patchPropertiesTx now resourcePath patches options)"

section \<open>Locking\<close>

record WebDAVLockRequest =
  kq_Path :: string
  kq_Depth :: string
  kq_OwnerXML :: string
  kq_Principal :: string
  kq_Timeout :: int

definition ListWebDAVLocks :: "int \<Rightarrow> string \<Rightarrow> db \<Rightarrow> db \<times> lock_row list result" where
  "ListWebDAVLocks now resourcePath = after_cleanup now (\<lambda>d. Inr (queryApplicableWebDAVLocks now resourcePath d, d))"

definition ensureWebDAVLockTargetTx ::
  "(nat \<Rightarrow> nat) \<Rightarrow> int \<Rightarrow> WebDAVLockRequest \<Rightarrow> nat \<Rightarrow> db \<Rightarrow> ((mapping_row \<times> bool) \<times> db) result" where
  "ensureWebDAVLockTargetTx idfn now request unpublishedFileID d =
     bind_result (txStat (kq_Path request) d) (\<lambda>found.
     case found of
       Some entry \<Rightarrow>
         bind_result (assertNoConflictingWebDAVLockTx now (kq_Path request) (kq_Depth request) d) (\<lambda>_.
         Inr ((entry, False), d))
     | None \<Rightarrow>
         bind_result (ensureWebDAVParentTx (kq_Path request) d) (\<lambda>_.
         if unpublishedFileID = 0 then Inl errWebDAVLockNullNotPrepared
         else
           bind_result (txCreate idfn now (kq_Path request) 0 (format_nat unpublishedFileID) d) (\<lambda>(entry, d).
           Inr ((entry, True), d))))"

text \<open>The insertion with the checks of the table; \<open>depth\<close> is stored as the flag \<open>lr_infinity\<close>.\<close>

definition insert_lock :: "string \<Rightarrow> lock_row \<Rightarrow> db \<Rightarrow> db result" where
  "insert_lock depth row d =
     bind_result (guard_err (depth = ''0'' \<or> depth = ''infinity'') ErrCheck) (\<lambda>_.
     bind_result (guard_err (lr_token row \<noteq> '''' \<and> lr_root_path row \<noteq> '''' \<and> lr_principal row \<noteq> '''' \<and>
        lr_expires_at row > lr_created_at row) ErrCheck) (\<lambda>_.
     bind_result (guard_err (lr_root_path row \<notin> set (map lr_root_path (locks d))) ErrUnique) (\<lambda>_.
     bind_result (insert_unique lr_token row (locks d)) (\<lambda>rows.
     Inr (d\<lparr>locks := rows\<rparr>)))))"

text \<open>The random part of the token is the argument \<open>uuid\<close>.\<close>

definition lockWebDAVResourceTx ::
  "(nat \<Rightarrow> nat) \<Rightarrow> int \<Rightarrow> string \<Rightarrow> WebDAVLockRequest \<Rightarrow> nat \<Rightarrow> db \<Rightarrow> ((lock_row \<times> bool) \<times> db) result" where
  "lockWebDAVResourceTx idfn now uuid request unpublishedFileID d =
     bind_result (ensureWebDAVLockTargetTx idfn now request unpublishedFileID d) (\<lambda>((entry, created), d).
     let lock = \<lparr>lr_token = ''opaquelocktoken:'' @ uuid, lr_root_path = Clean (kq_Path request),
                 lr_root_entry = mr_entry_id entry, lr_infinity = (kq_Depth request = ''infinity''),
                 lr_owner_xml = kq_OwnerXML request, lr_principal = kq_Principal request,
                 lr_created_at = now, lr_expires_at = now + kq_Timeout request, lr_null = created\<rparr>
     in bind_result (insert_lock (kq_Depth request) lock d) (\<lambda>d. Inr ((lock, created), d)))"

definition prepareWebDAVLockNullFile ::
  "'b IBlockIO \<Rightarrow> (nat \<Rightarrow> nat) \<Rightarrow> int \<Rightarrow> string \<Rightarrow> 'b world \<Rightarrow> nat result \<times> 'b world" where
  "prepareWebDAVLockNullFile bk idfn now resourcePath w =
     (case dirStat resourcePath (fst w) of
        Inr _ \<Rightarrow> (Inr 0, w)
      | Inl e \<Rightarrow>
          if e \<noteq> ErrNotExist then (Inl e, w)
          else
            case CreateFile bk idfn now 0 \<lparr>rd_data = [], rd_fails = False\<rparr> w of
              ((fileID, Some e), w) \<Rightarrow> (Inl e, w)
            | ((fileID, None), w) \<Rightarrow> (Inr fileID, w))"

definition discard_unpublished :: "nat \<Rightarrow> int \<Rightarrow> db \<Rightarrow> db" where
  "discard_unpublished fileID now d =
     (if fileID = 0 then d
      else case DiscardUnpublishedFile fileID now d of Inl _ \<Rightarrow> d | Inr d \<Rightarrow> d)"

definition LockWebDAVResource ::
  "'b IBlockIO \<Rightarrow> (nat \<Rightarrow> nat) \<Rightarrow> int \<Rightarrow> string \<Rightarrow> WebDAVLockRequest \<Rightarrow> 'b world \<Rightarrow> (lock_row \<times> bool) result \<times> 'b world" where
  "LockWebDAVResource bk idfn now uuid request w =
     (case cleanupExpiredWebDAVLocks now (fst w) of
        Inl e \<Rightarrow> (Inl e, w)
      | Inr d \<Rightarrow>
          case prepareWebDAVLockNullFile bk idfn now (kq_Path request) (d, snd w) of
            (Inl e, w) \<Rightarrow> (Inl e, w)
          | (Inr unpublishedFileID, (d, b)) \<Rightarrow>
              case lockWebDAVResourceTx idfn now uuid request unpublishedFileID d of
                Inl e \<Rightarrow> (Inl e, (discard_unpublished unpublishedFileID now d, b))
              | Inr ((lock, created), d) \<Rightarrow>
                  (Inr (lock, created), (if created then d else discard_unpublished unpublishedFileID now d, b)))"

definition refreshLockTx ::
  "int \<Rightarrow> string \<Rightarrow> string \<Rightarrow> string \<Rightarrow> int \<Rightarrow> WebDAVIfHeader option \<Rightarrow> db \<Rightarrow> (lock_row \<times> db) result" where
  "refreshLockTx now resourcePath token user timeout ifHeader d =
     (case queryWebDAVLockByToken now token d of
        None \<Rightarrow> Inl ErrWebDAVLockToken
      | Some lock \<Rightarrow>
          if lr_root_path lock \<noteq> Clean resourcePath \<or> lr_principal lock \<noteq> user then Inl ErrWebDAVLockToken
          else
            let condition = \<lparr>wc_IfMatch = '''', wc_IfNoneMatch = '''', wc_IfModifiedSince = None,
                             wc_IfUnmodifiedSince = None, wc_IfHeader = ifHeader, wc_RequestPath = Clean resourcePath\<rparr>
            in if \<not> webDAVIfHeaderAllows (Some condition) resourcePath '''' [lock] then Inl ErrWebDAVPrecondition
               else
                 let lock = lock\<lparr>lr_expires_at := now + timeout\<rparr>
                 in bind_result (guard_err (lr_expires_at lock > lr_created_at lock) ErrCheck) (\<lambda>_.
                    Inr (lock, d\<lparr>locks := map (\<lambda>r. if lr_token r = lr_token lock
                       then r\<lparr>lr_expires_at := lr_expires_at lock\<rparr> else r) (locks d)\<rparr>)))"

definition RefreshWebDAVLock ::
  "int \<Rightarrow> string \<Rightarrow> string \<Rightarrow> string \<Rightarrow> int \<Rightarrow> WebDAVIfHeader option \<Rightarrow> db \<Rightarrow> db \<times> lock_row result" where
  "RefreshWebDAVLock now resourcePath token user timeout ifHeader =
     after_cleanup now (refreshLockTx now resourcePath token user timeout ifHeader)"

definition unlockTx :: "int \<Rightarrow> string \<Rightarrow> string \<Rightarrow> string \<Rightarrow> db \<Rightarrow> (unit \<times> db) result" where
  "unlockTx now resourcePath token user d =
     (case queryWebDAVLockByToken now token d of
        None \<Rightarrow> Inl ErrWebDAVLockToken
      | Some lock \<Rightarrow>
          if lr_root_path lock \<noteq> Clean resourcePath \<or> lr_principal lock \<noteq> user then Inl ErrWebDAVLockToken
          else
            let d = d\<lparr>locks := filter (\<lambda>r. lr_token r \<noteq> token) (locks d)\<rparr>
            in if \<not> lr_null lock then Inr ((), d)
               else
                 bind_result (txRemoveTree now resourcePath d) (\<lambda>(removed, d).
                 bind_result (finalizeRemovedWebDAVEntries now removed d) (\<lambda>d. Inr ((), d))))"

definition UnlockWebDAVResource :: "int \<Rightarrow> string \<Rightarrow> string \<Rightarrow> string \<Rightarrow> db \<Rightarrow> db \<times> unit result" where
  "UnlockWebDAVResource now resourcePath token user =
     after_cleanup now (unlockTx now resourcePath token user)"

end
