(* ===== verification/Protocol_Steps.thy ===== *)
theory Protocol_Steps
  imports S3_Object_Spec
begin

text \<open>
  What the transactions of all protocols have in common. Whatever a client asks for, the database
  changes in three ways only: an operation of the directory whose new entries name files that can
  be served, the marking of a file that may have lost its last reference, and a change of the rows
  that belong to entries (object metadata, dead properties, locks). \<open>protocol_step\<close> is that
  abstract machine; the lemmas \<open>leads_*\<close> show that every transaction of the link and of the
  object interface is a sequence of its steps, and \<open>WebDAV_Spec\<close> shows it for the WebDAV interface.
  Facts about all transactions then need a proof for three steps only.
\<close>

section \<open>The invariant\<close>

definition db_ok :: "(nat \<Rightarrow> nat) \<Rightarrow> db \<Rightarrow> bool" where
  "db_ok idfn d \<longleftrightarrow> dir_ok idfn d \<and> published d \<and> (\<forall>r\<in>set (locks d). absolute (lr_root_path r))"

lemma db_okD:
  assumes "db_ok idfn d"
  shows "dir_ok idfn d" and "published d" and "r \<in> set (locks d) \<Longrightarrow> absolute (lr_root_path r)"
  using assms by (simp_all add: db_ok_def)

lemma db_okI:
  assumes "dir_ok idfn d" and "published d" and "\<And>r. r \<in> set (locks d) \<Longrightarrow> absolute (lr_root_path r)"
  shows "db_ok idfn d"
  using assms by (simp add: db_ok_def)

section \<open>The abstract machine\<close>

inductive protocol_step :: "(nat \<Rightarrow> nat) \<Rightarrow> db \<Rightarrow> db \<Rightarrow> bool" for idfn where
  directory: "dir_step idfn d d' \<Longrightarrow> dir_change R d d' \<Longrightarrow> \<forall>ref\<in>R. serves d ref \<Longrightarrow> protocol_step idfn d d'"
| mark: "markFileTreePendingIfUnreferenced f now d = Inr d' \<Longrightarrow> protocol_step idfn d d'"
| rows: "d' = d\<lparr>metas := a, props := b, locks := c\<rparr> \<Longrightarrow> \<forall>r\<in>set c. absolute (lr_root_path r) \<Longrightarrow> protocol_step idfn d d'"

lemma protocol_step_ok:
  assumes ids: "good_ids idfn" and step: "protocol_step idfn d d'" and ok: "db_ok idfn d"
  shows "db_ok idfn d'"
  using step
proof (cases rule: protocol_step.cases)
  case (directory R)
  show ?thesis
  proof (rule db_okI)
    show "dir_ok idfn d'" using dir_step_ok [OF ids directory(1)] db_okD(1) [OF ok] .
    show "published d'" using published_change [OF db_okD(2) [OF ok] directory(2)] directory(3) by blast
    have "locks d' = locks d" using directory(2) dir_frame_tables [of d d'] by (simp add: dir_change_def)
    then show "absolute (lr_root_path r)" if "r \<in> set (locks d')" for r using that db_okD(3) [OF ok] by simp
  qed
next
  case (mark f now)
  then show ?thesis
    using mark_tables [OF mark] published_mark [OF db_okD(2) [OF ok] mark] db_okD [OF ok] same_mappings(1) [of d' d idfn]
    by (simp add: db_ok_def)
next
  case (rows a b c)
  have "published d' = published d" unfolding rows(1) by (rule published_same) simp_all
  then show ?thesis using rows db_okD [OF ok] same_mappings(1) [of d' d idfn] by (simp add: db_ok_def)
qed

text \<open>A sequence of steps from \<open>d0\<close> to \<open>d\<close>, in a good state.\<close>

definition leads :: "(nat \<Rightarrow> nat) \<Rightarrow> db \<Rightarrow> db \<Rightarrow> bool" where
  "leads idfn d0 d \<longleftrightarrow> (protocol_step idfn)\<^sup>*\<^sup>* d0 d \<and> db_ok idfn d"

lemma leads_refl: "db_ok idfn d \<Longrightarrow> leads idfn d d"
  by (simp add: leads_def)

lemma leadsD:
  assumes "leads idfn d0 d"
  shows "(protocol_step idfn)\<^sup>*\<^sup>* d0 d" and "db_ok idfn d" and "dir_ok idfn d" and "published d"
    and "r \<in> set (locks d) \<Longrightarrow> absolute (lr_root_path r)"
  using assms db_okD by (auto simp: leads_def)

lemma leads_step:
  assumes "good_ids idfn" and "leads idfn d0 d" and "protocol_step idfn d d'"
  shows "leads idfn d0 d'"
  using assms protocol_step_ok [OF assms(1,3)] unfolding leads_def by auto

lemma leads_dir:
  assumes "good_ids idfn" and "leads idfn d0 d" and "dir_step idfn d d'" and "dir_change R d d'"
    and "\<And>ref. ref \<in> R \<Longrightarrow> serves d ref"
  shows "leads idfn d0 d'"
  by (rule leads_step [OF assms(1,2)]) (use assms(3-5) in \<open>blast intro: protocol_step.directory\<close>)

lemma leads_mark:
  assumes "good_ids idfn" and "leads idfn d0 d" and "markFileTreePendingIfUnreferenced f now d = Inr d'"
  shows "leads idfn d0 d'"
  using leads_step [OF assms(1,2) protocol_step.mark [OF assms(3)]] .

lemma leads_mark_if:
  assumes "good_ids idfn" and "leads idfn d0 d" and "(if b then markFileTreePendingIfUnreferenced f now d else Inr d) = Inr d'"
  shows "leads idfn d0 d'"
  using assms leads_mark by (auto split: if_splits)

lemma leads_markMapping:
  assumes "good_ids idfn" and "leads idfn d0 d" and "markMappingFilesPending now fs d = Inr d'"
  shows "leads idfn d0 d'"
  using assms(3,2) unfolding markMappingFilesPending_def by (rule fold_result_invariant) (rule leads_mark [OF assms(1)])

lemma leads_rows:
  assumes "good_ids idfn" and "leads idfn d0 d" and "d' = d\<lparr>metas := a, props := b, locks := c\<rparr>"
    and "\<And>r. r \<in> set c \<Longrightarrow> absolute (lr_root_path r)"
  shows "leads idfn d0 d'"
  by (rule leads_step [OF assms(1,2) protocol_step.rows [OF assms(3)]]) (use assms(4) in blast)

lemma leads_metas:
  assumes "good_ids idfn" and "leads idfn d0 d" and "d' = d\<lparr>metas := a\<rparr>"
  shows "leads idfn d0 d'"
  by (rule leads_rows [OF assms(1,2), where a = a and b = "props d" and c = "locks d"]) (use assms(3) leadsD(5) [OF assms(2)] in simp_all)

lemma leads_props:
  assumes "good_ids idfn" and "leads idfn d0 d" and "d' = d\<lparr>props := b\<rparr>"
  shows "leads idfn d0 d'"
  by (rule leads_rows [OF assms(1,2), where a = "metas d" and b = b and c = "locks d"]) (use assms(3) leadsD(5) [OF assms(2)] in simp_all)

lemma leads_locks:
  assumes "good_ids idfn" and "leads idfn d0 d" and "d' = d\<lparr>locks := c\<rparr>" and "\<And>r. r \<in> set c \<Longrightarrow> absolute (lr_root_path r)"
  shows "leads idfn d0 d'"
  by (rule leads_rows [OF assms(1,2), where a = "metas d" and b = "props d" and c = c]) (use assms(3,4) in simp_all)

lemma leads_drop_locks:
  assumes "good_ids idfn" and "leads idfn d0 d"
  shows "leads idfn d0 (d\<lparr>locks := filter P (locks d)\<rparr>)"
  by (rule leads_locks [OF assms refl]) (use leadsD(5) [OF assms(2)] in auto)

lemma leads_insertS3:
  assumes "good_ids idfn" and "leads idfn d0 d" and "insertS3Metadata r d = Inr d'"
  shows "leads idfn d0 d'"
  using leads_metas [OF assms(1,2) insert_read(1) [OF assms(3)]] .

lemma leads_deleteS3: "good_ids idfn \<Longrightarrow> leads idfn d0 d \<Longrightarrow> leads idfn d0 (deleteS3Metadata e d)"
  by (erule (1) leads_metas) (simp add: deleteS3Metadata_def)

lemma leads_drop_rows:
  assumes "good_ids idfn" and "leads idfn d0 d"
  shows "leads idfn d0 (deleteWebDAVLocks ents (deleteWebDAVProperties ents' d))"
  unfolding drop_rows by (intro leads_drop_locks leads_props [OF assms refl] assms(1))

lemma leads_copyMetadata:
  assumes "good_ids idfn" and "leads idfn d0 d" and "copyWebDAVMetadata copies d = Inr d'"
  shows "leads idfn d0 d'"
proof -
  have one: "leads idfn d0 v" if "copyMappingMetadata a b u = Inr v" "leads idfn d0 u" for a b u v
    using that unfolding copyMappingMetadata_def by (rule fold_result_invariant) (rule leads_insertS3 [OF assms(1)])
  show ?thesis
    using assms(3,2) unfolding copyWebDAVMetadata_def
    by (rule fold_result_invariant) (auto split: if_splits prod.splits dest: one)
qed

lemma leads_copyProperties:
  assumes "good_ids idfn" and "leads idfn d0 d" and "copyWebDAVProperties now copies d = Inr d'"
  shows "leads idfn d0 d'"
proof -
  have one: "leads idfn d0 v" if "insert_property r u = Inr v" "leads idfn d0 u" for r u v
    using that(1) leads_props [OF assms(1) that(2)] by (auto simp: insert_property_def bind_result_Inr_iff)
  have all: "leads idfn d0 v" if "fold_result insert_property rows u = Inr v" "leads idfn d0 u" for rows u v
    using that by (rule fold_result_invariant) (rule one)
  show ?thesis
    using assms(3,2) unfolding copyWebDAVProperties_def
    by (rule fold_result_invariant) (auto split: prod.splits dest: all)
qed

lemma leads_finalize:
  assumes "good_ids idfn" and "leads idfn d0 d" and "finalizeRemovedWebDAVEntries now ents d = Inr d'"
  shows "leads idfn d0 d'"
proof -
  obtain fs where mark: "markMappingFilesPending now fs (deleteWebDAVLocks ents (deleteWebDAVProperties ents (deleteMappingMetadata ents d))) = Inr d'"
    using assms(3) by (auto simp: finalizeRemovedWebDAVEntries_def bind_result_Inr_iff)
  have "leads idfn d0 (deleteMappingMetadata ents d)" by (rule leads_metas [OF assms(1,2) drop_rows(1)])
  then show ?thesis using leads_markMapping [OF assms(1) leads_drop_rows [OF assms(1)] mark] by blast
qed

lemma leads_remove:
  assumes "good_ids idfn" and "leads idfn d0 d" and "absolute p" and "txRemoveTree now p d = Inr (removed, d')"
  shows "leads idfn d0 d'"
  using leads_dir [OF assms(1,2) dir_step.remove [OF assms(3,4)] dir_change_remove_tree [OF assms(4), of "{}"]] by blast

lemma serves_format: "linkable d f \<Longrightarrow> f < 2 ^ 64 \<Longrightarrow> serves d (format_nat f)"
  by (auto simp: serves_def)

lemma leads_create:
  assumes ids: "good_ids idfn" and ok: "leads idfn d0 d" and p: "absolute p" "components p \<noteq> []" and f: "linkable d fileID" "fileID < 2 ^ 64"
    and step: "txCreate idfn now p fsize (format_nat fileID) d = Inr (e, d')"
  shows "leads idfn d0 d'"
  using leads_dir [OF ids ok dir_step.create [OF p step] dir_change_txCreate [OF step]] serves_format [OF f] by blast

section \<open>Objects\<close>

lemma Clean_absolute_path: "absolute p \<Longrightarrow> absolute (Clean p)"
  using Clean_components [of p] by (simp add: absolute_def abs_path_def)

lemma update_unique_rows: "update_unique key P f rows = Inr rows' \<Longrightarrow> rows' = map (\<lambda>r. if P r then f r else r) rows"
  by (auto simp: update_unique_def Let_def split: if_splits)

lemma leads_rebind:
  assumes "good_ids idfn" and "leads idfn d0 d" and "absolute p" and "rebindWebDAVProtocolState a b p d = Inr d'"
  shows "leads idfn d0 d'"
proof -
  obtain x y where d': "d' = d\<lparr>props := x, locks := y\<rparr>"
    and y: "update_unique lr_root_path (\<lambda>r. lr_root_entry r = a) (\<lambda>r. r\<lparr>lr_root_entry := b, lr_root_path := Clean p\<rparr>) (locks d) = Inr y"
    using assms(4) by (auto simp: rebindWebDAVProtocolState_def bind_result_Inr_iff)
  show ?thesis
    by (rule leads_rows [OF assms(1,2), where a = "metas d" and b = x and c = y])
      (use d' update_unique_rows [OF y] leadsD(5) [OF assms(2)] Clean_absolute_path [OF assms(3)] in auto)
qed

lemma leads_replaced:
  assumes "good_ids idfn" and "leads idfn d0 d" and "absolute p" and "removeReplacedS3Object now p current d = Inr (old, d')"
  shows "leads idfn d0 d'"
proof (cases current)
  case (Some i)
  with assms(4) obtain removed d1 where "txRemoveTree now p d = Inr (removed, d1)" "d' = deleteS3Metadata (lk_EntryID (oi_Link i)) d1"
    by (auto simp: removeReplacedS3Object_def bind_result_Inr_iff)
  then show ?thesis using leads_remove [OF assms(1-3)] leads_deleteS3 [OF assms(1)] by blast
qed (use assms in \<open>simp add: removeReplacedS3Object_def\<close>)

lemma leads_publish:
  assumes ids: "good_ids idfn" and ok: "leads idfn d0 d" and p: "absolute p" "components p \<noteq> []" and fid: "fileID < 2 ^ 64"
    and pub: "PublishS3Object idfn mime now p fileID fsize metadata condition d = Inr (i, d')"
  shows "leads idfn d0 d'"
proof -
  from pub obtain current old d1 e d2 d3 d4 where link: "linkable d fileID"
    and rem: "removeReplacedS3Object now p current d = Inr (old, d1)"
    and new: "txCreate idfn now p fsize (format_nat fileID) d1 = Inr (e, d2)"
    and d3: "(case current of None \<Rightarrow> Inr d2
           | Some c \<Rightarrow> rebindWebDAVProtocolState (lk_EntryID (oi_Link c)) (mr_entry_id e) p d2) = Inr d3"
    and ins: "insertS3Metadata (stored_for metadata (mr_entry_id e) now) d3 = Inr d4"
    and mark: "(if old \<noteq> 0 \<and> old \<noteq> fileID then markFileTreePendingIfUnreferenced old now d4 else Inr d4) = Inr d'"
    by (rule publish_steps)
  have "leads idfn d0 d2"
    using leads_create [OF ids leads_replaced [OF ids ok p(1) rem] p _ fid new] link replaced_frame [OF rem] by simp
  then have "leads idfn d0 d3" using d3 leads_rebind [OF ids _ p(1)] by (auto split: option.splits)
  then show ?thesis using leads_insertS3 [OF ids _ ins] leads_mark_if [OF ids _ mark] by blast
qed

lemma leads_delete:
  assumes ids: "good_ids idfn" and ok: "leads idfn d0 d" and p: "absolute p"
    and del: "DeleteS3Object mime now p condition d = Inr (b, d')"
  shows "leads idfn d0 d'"
proof (cases b)
  case True
  with del have "DeleteS3Object mime now p condition d = Inr (True, d')" by simp
  then obtain i removed d1 where "statS3ObjectTx mime p d = Inr (Some i)" and rem: "txRemoveTree now p d = Inr (removed, d1)"
    and mark: "markFileTreePendingIfUnreferenced (lk_FileId (oi_Link i)) now
       (deleteWebDAVLocks [linkDirectoryEntry (oi_Link i)] (deleteWebDAVProperties [linkDirectoryEntry (oi_Link i)]
         (deleteS3Metadata (lk_EntryID (oi_Link i)) d1))) = Inr d'"
    by (rule delete_steps)
  show ?thesis
    using leads_mark [OF ids leads_drop_rows [OF ids leads_deleteS3 [OF ids leads_remove [OF ids ok p rem]]] mark] .
next
  case False
  then have "d' = d" using del by (auto simp: DeleteS3Object_def Let_def bind_result_Inr_iff split: option.splits)
  then show ?thesis using ok by simp
qed

lemma stat_file_id:
  assumes "absolute p" and "statS3ObjectTx mime p d = Inr (Some i)"
  shows "lk_FileId (oi_Link i) < 2 ^ 64"
proof -
  obtain x where "object_info mime p x d = Inr i" using statTx_Some [OF assms] by blast
  from object_info_link(2) [OF this] show ?thesis by (auto simp: parse_file_id_def dest: ParseUint_bound split: option.splits)
qed

lemma leads_copySame:
  assumes ids: "good_ids idfn" and ok: "leads idfn d0 d" and p: "absolute src" and copy: "copySameS3ObjectTx now src si metadata d = Inr (i, d')"
  shows "leads idfn d0 d'"
proof (cases metadata)
  case (Some m)
  with copy obtain r e d1 where ins: "insertS3Metadata r (deleteS3Metadata e d) = Inr d1" and touch: "txTouch src now now d1 = Inr d'"
    by (auto simp: copySameS3ObjectTx_def Let_def bind_result_Inr_iff)
  have "leads idfn d0 d1" using leads_insertS3 [OF ids leads_deleteS3 [OF ids ok] ins] .
  then show ?thesis using leads_dir [OF ids _ dir_step.touch [OF p touch] dir_change_txTouch [OF touch, of "{}"]] by blast
qed (use copy ok in \<open>simp add: copySameS3ObjectTx_def\<close>)

lemma leads_copy:
  assumes ids: "good_ids idfn" and ok: "leads idfn d0 d" and src: "absolute src" and dst: "absolute dst" "components dst \<noteq> []"
    and copy: "CopyS3Object idfn mime now src dst metadata sc dc d = Inr (i, d')"
  shows "leads idfn d0 d'"
proof -
  from copy obtain si di where stat: "statS3ObjectTx mime src d = Inr (Some si)"
    and cases: "(if src = dst then copySameS3ObjectTx now src si metadata d
          else copyDifferentS3ObjectTx idfn now dst si di metadata d) = Inr (i, d')" by (rule copy_steps)
  show ?thesis
  proof (cases "src = dst")
    case True
    then show ?thesis using leads_copySame [OF ids ok src] cases by simp
  next
    case False
    with cases have "copyDifferentS3ObjectTx idfn now dst si di metadata d = Inr (i, d')" by simp
    then obtain old d1 d2 e d3 d4 d5 where rem: "removeReplacedS3Object now dst di d = Inr (old, d1)"
      and d2: "d2 = (case di of None \<Rightarrow> d1 | Some x \<Rightarrow> deleteWebDAVLocks [linkDirectoryEntry (oi_Link x)]
           (deleteWebDAVProperties [linkDirectoryEntry (oi_Link x)] d1))"
      and link: "linkable d2 (lk_FileId (oi_Link si))"
      and new: "txCreate idfn now dst (lk_FileSize (oi_Link si)) (format_nat (lk_FileId (oi_Link si))) d2 = Inr (e, d3)"
      and ins: "insertS3Metadata (stored_for (case metadata of None \<Rightarrow> oi_Metadata si | Some m \<Rightarrow> m) (mr_entry_id e) now) d3 = Inr d4"
      and props: "copyWebDAVProperties now [(linkDirectoryEntry (oi_Link si), e)] d4 = Inr d5"
      and mark: "(if old \<noteq> 0 \<and> old \<noteq> lk_FileId (oi_Link si) then markFileTreePendingIfUnreferenced old now d5 else Inr d5) = Inr d'"
      by (rule copyDifferent_steps)
    have "leads idfn d0 d2" using leads_replaced [OF ids ok dst(1) rem] leads_drop_rows [OF ids] d2 by (cases di) simp_all
    then have "leads idfn d0 d3" using leads_create [OF ids _ dst link stat_file_id [OF src stat] new] by blast
    then have "leads idfn d0 d5" using leads_copyProperties [OF ids leads_insertS3 [OF ids _ ins] props] by blast
    then show ?thesis using leads_mark_if [OF ids _ mark] by blast
  qed
qed

section \<open>Links\<close>

lemma leads_removeLink:
  assumes "good_ids idfn" and "leads idfn d0 d" and "absolute p" and "removeWebDAVLink now p d = Inr d'"
  shows "leads idfn d0 d'"
proof -
  obtain removed d1 where "txRemoveTree now p d = Inr (removed, d1)" "finalizeRemovedWebDAVEntries now removed d1 = Inr d'"
    using assms(4) by (auto simp: removeWebDAVLink_def bind_result_Inr_iff)
  then show ?thesis using leads_finalize [OF assms(1)] leads_remove [OF assms(1-3)] by blast
qed

lemma leads_moveLink:
  assumes "good_ids idfn" and "leads idfn d0 d" and "absolute src" "absolute dst" and "moveWebDAVLink now src dst overwrite d = Inr d'"
  shows "leads idfn d0 d'"
proof -
  obtain removed d1 where move: "txMove now src dst overwrite d = Inr (removed, d1)" and fin: "finalizeRemovedWebDAVEntries now removed d1 = Inr d'"
    using assms(5) by (auto simp: moveWebDAVLink_def bind_result_Inr_iff)
  have "leads idfn d0 d1" using leads_dir [OF assms(1,2) dir_step.move [OF assms(3,4) move] dir_change_txMove [OF move, of "{}"]] by blast
  then show ?thesis using leads_finalize [OF assms(1) _ fin] by blast
qed

text \<open>The tail shared by the two copying operations.\<close>

lemma leads_copyTail:
  assumes "good_ids idfn" and "leads idfn d0 d1" and "finalizeRemovedWebDAVEntries now overwritten d1 = Inr d2"
    and "copyWebDAVMetadata copies d2 = Inr d3" and "copyWebDAVProperties now copies d3 = Inr d4"
  shows "leads idfn d0 d4"
  using leads_copyProperties [OF assms(1) leads_copyMetadata [OF assms(1) leads_finalize [OF assms(1-3)] assms(4)] assms(5)] .

lemma leads_copyLink:
  assumes "good_ids idfn" and "leads idfn d0 d" and "absolute src" "absolute dst" and "copyWebDAVLink idfn now src dst overwrite d = Inr d'"
  shows "leads idfn d0 d'"
proof -
  obtain copies overwritten d1 d2 d3 where copy: "txCopy idfn now src dst overwrite d = Inr ((copies, overwritten), d1)"
    and rest: "finalizeRemovedWebDAVEntries now overwritten d1 = Inr d2"
      "copyWebDAVMetadata copies d2 = Inr d3" "copyWebDAVProperties now copies d3 = Inr d'"
    using assms(5) by (auto simp: copyWebDAVLink_def bind_result_Inr_iff)
  have copy': "txCopyDepth idfn now src dst overwrite True d = Inr ((copies, overwritten), d1)" using copy by (simp add: txCopy_def)
  have "leads idfn d0 d1"
    using leads_dir [OF assms(1,2) dir_step.copy [OF assms(3,4) copy'] dir_change_txCopy [OF copy', of "{}"]] by blast
  then show ?thesis using leads_copyTail [OF assms(1) _ rest] by blast
qed

end
