(* ===== verification/WebDAV_Spec.thy ===== *)
theory WebDAV_Spec
  imports WebDAV_Resource Protocol_Steps
begin

text \<open>
  Every transaction of the WebDAV interface is a sequence of steps of the abstract machine of
  \<open>Protocol_Steps\<close>. In particular the directory stays a tree, every file it names can still be
  served, and locks have absolute roots.
\<close>

section \<open>What marking and removing leave alone\<close>

lemma markMapping_tables:
  assumes "markMappingFilesPending now fs d = Inr d'"
  shows "mappings d' = mappings d" "id_seq d' = id_seq d" "locks d' = locks d"
proof -
  have "(mappings d', id_seq d', locks d') = (mappings d, id_seq d, locks d)"
    using assms unfolding markMappingFilesPending_def
    by (rule fold_result_same [where g = "\<lambda>d. (mappings d, id_seq d, locks d)"]) (simp add: mark_tables)
  then show "mappings d' = mappings d" "id_seq d' = id_seq d" "locks d' = locks d" by simp_all
qed

lemma finalize_tables:
  assumes "finalizeRemovedWebDAVEntries now ents d = Inr d'"
  shows "mappings d' = mappings d" "id_seq d' = id_seq d" "locks d' = filter (\<lambda>r. lr_root_entry r \<notin> mr_entry_id ` set ents) (locks d)"
proof -
  obtain fs where "markMappingFilesPending now fs (deleteWebDAVLocks ents (deleteWebDAVProperties ents (deleteMappingMetadata ents d))) = Inr d'"
    using assms by (auto simp: finalizeRemovedWebDAVEntries_def bind_result_Inr_iff)
  from markMapping_tables [OF this]
  show "mappings d' = mappings d" "id_seq d' = id_seq d" "locks d' = filter (\<lambda>r. lr_root_entry r \<notin> mr_entry_id ` set ents) (locks d)"
    by (simp_all add: drop_rows)
qed

section \<open>Expired locks\<close>

lemma leads_expire:
  assumes ids: "good_ids idfn" and ok: "leads idfn d0 d" and abs: "absolute (lr_root_path lock)" and step: "expireLock now lock d = Inr d'"
  shows "leads idfn d0 d'"
proof -
  let ?d = "d\<lparr>locks := filter (\<lambda>r. lr_token r \<noteq> lr_token lock) (locks d)\<rparr>"
  have ok': "leads idfn d0 ?d" using leads_drop_locks [OF ids ok] .
  consider "d' = ?d" | removed d1 where "txRemoveTree now (lr_root_path lock) ?d = Inr (removed, d1)" "finalizeRemovedWebDAVEntries now removed d1 = Inr d'"
    using step by (auto simp: expireLock_def Let_def bind_result_Inr_iff split: if_splits option.splits)
  then show ?thesis
  proof cases
    case 2
    then show ?thesis using leads_finalize [OF ids] leads_remove [OF ids ok' abs] by blast
  qed (use ok' in simp)
qed

lemma leads_cleanup:
  assumes ids: "good_ids idfn" and ok: "leads idfn d0 d" and clean: "cleanupExpiredWebDAVLocks now d = Inr d'"
  shows "leads idfn d0 d'"
  using clean ok unfolding cleanupExpiredWebDAVLocks_def
proof (rule fold_result_invariant)
  fix lock u v
  assume "lock \<in> set (sort_key lr_expires_at (filter (\<lambda>r. lr_expires_at r \<le> now) (locks d)))"
  then have "absolute (lr_root_path lock)" using leadsD(5) [OF ok] by simp
  then show "expireLock now lock u = Inr v \<Longrightarrow> leads idfn d0 u \<Longrightarrow> leads idfn d0 v" using leads_expire [OF ids] by blast
qed

lemma leads_after_cleanup:
  assumes ids: "good_ids idfn" and ok: "db_ok idfn d"
    and tx: "\<And>d1 x d2. leads idfn d d1 \<Longrightarrow> tx d1 = Inr (x, d2) \<Longrightarrow> leads idfn d d2"
  shows "leads idfn d (fst (after_cleanup now tx d))"
proof (cases "cleanupExpiredWebDAVLocks now d")
  case (Inl e)
  then show ?thesis using leads_refl [OF ok] by (simp add: after_cleanup_def)
next
  case (Inr d1)
  then have "leads idfn d d1" using leads_cleanup [OF ids leads_refl [OF ok]] by blast
  then show ?thesis using Inr tx [of d1] by (auto simp: after_cleanup_def split: sum.splits prod.splits)
qed

section \<open>The operations\<close>

lemma leads_collection:
  assumes "good_ids idfn" and "leads idfn d0 d" and "absolute p" and "components p \<noteq> []"
    and "createCollectionTx idfn now p options d = Inr (x, d')"
  shows "leads idfn d0 d'"
proof -
  obtain e where mk: "txMkdir idfn now p d = Inr (e, d')"
    using assms(5) by (auto simp: createCollectionTx_def bind_result_Inr_iff split: if_splits)
  show ?thesis using leads_dir [OF assms(1,2) dir_step.mkdir [OF assms(3,4) mk] dir_change_txMkdir [OF mk, of "{}"]] by blast
qed

lemma leads_replace:
  assumes ids: "good_ids idfn" and ok: "leads idfn d0 d" and p: "absolute p" and f: "linkable d fileID" "fileID < 2 ^ 64"
    and step: "replaceWebDAVMappingTx now p fileID fsize d = Inr (e, d')"
  shows "leads idfn d0 d'"
proof -
  obtain previous d1 fs where rep: "txReplace p fsize (format_nat fileID) now now d = Inr (previous, d1)"
    and rest: "(if fs \<noteq> [] \<and> hd fs \<noteq> fileID then markMappingFilesPending now fs (deleteS3Metadata (mr_entry_id e) d1)
       else Inr (deleteS3Metadata (mr_entry_id e) d1)) = Inr d'"
    using step by (auto simp: replaceWebDAVMappingTx_def Let_def bind_result_Inr_iff split: option.splits)
  have "leads idfn d0 d1"
    using leads_dir [OF ids ok dir_step.replace [OF p rep] dir_change_txReplace [OF dir_okD [OF leadsD(3) [OF ok]] rep]] serves_format [OF f] by blast
  then have "leads idfn d0 (deleteS3Metadata (mr_entry_id e) d1)" by (rule leads_deleteS3 [OF ids])
  then show ?thesis using rest leads_markMapping [OF ids] by (auto split: if_splits)
qed

lemma leads_bind_null: "good_ids idfn \<Longrightarrow> leads idfn d0 d \<Longrightarrow> leads idfn d0 (bind_lock_null e p d)"
  unfolding bind_lock_null_def by (erule (1) leads_locks [OF _ _ refl]) (auto dest: leadsD(5) split: if_splits)

lemma publishDAV_steps:
  assumes "publishWebDAVFileTx idfn mime now p fileID fsize options d = Inr ((link, created), d')"
  obtains found current e d1 d2 where "txStat p d = Inr found" and "optional_link p found = Inr current"
    and "evaluateWebDAVCondition current (mo_Condition options) = Inr ()"
    and "assertWebDAVLocksTx now [p] (mo_Condition options) d = Inr ()"
    and "enforceWebDAVQuotaTx (mo_QuotaRoot options) (mo_QuotaBytes options) current fileID fsize d = Inr ()"
    and "linkable d fileID"
    and "storeWebDAVMappingTx idfn now p fileID fsize (found \<noteq> None) d = Inr ((e, created), d1)"
    and "webDAVEntryToLink p e = Inr link" and "insertS3Metadata (webDAVS3Metadata mime now link) d1 = Inr d2"
    and "d' = bind_lock_null (mr_entry_id e) (Clean p) d2"
  using assms unfolding publishWebDAVFileTx_def prepareWebDAVPublishTx_def
  by (clarsimp simp: bind_result_Inr_iff linkable_unit split: if_splits)

lemma leads_publishDAV:
  assumes ids: "good_ids idfn" and ok: "leads idfn d0 d" and p: "absolute p" "components p \<noteq> []" and fid: "fileID < 2 ^ 64"
    and step: "publishWebDAVFileTx idfn mime now p fileID fsize options d = Inr (x, d')"
  shows "leads idfn d0 d'"
proof -
  obtain link created where x: "x = (link, created)" by fastforce
  from step [unfolded x] obtain found current e d1 d2 where "optional_link p found = Inr current" and f: "linkable d fileID"
    and store: "storeWebDAVMappingTx idfn now p fileID fsize (found \<noteq> None) d = Inr ((e, created), d1)"
    and ins: "insertS3Metadata (webDAVS3Metadata mime now link) d1 = Inr d2"
    and d': "d' = bind_lock_null (mr_entry_id e) (Clean p) d2"
    by (rule publishDAV_steps)
  have "leads idfn d0 d1"
    using store leads_replace [OF ids ok p(1) f fid] leads_create [OF ids ok p f fid]
    by (auto simp: storeWebDAVMappingTx_def bind_result_Inr_iff split: if_splits)
  then show ?thesis unfolding d' using leads_bind_null [OF ids] leads_insertS3 [OF ids _ ins] by blast
qed

lemma leads_deleteResource:
  assumes "good_ids idfn" and "leads idfn d0 d" and "absolute p" and "deleteResourceTx now p options d = Inr (x, d')"
  shows "leads idfn d0 d'"
proof -
  obtain removed d1 where "txRemoveTree now p d = Inr (removed, d1)" "finalizeRemovedWebDAVEntries now removed d1 = Inr d'"
    using assms(4) by (auto simp: deleteResourceTx_def bind_result_Inr_iff split: option.splits)
  then show ?thesis using leads_finalize [OF assms(1)] leads_remove [OF assms(1-3)] by blast
qed

lemma leads_copyResource:
  assumes ids: "good_ids idfn" and ok: "leads idfn d0 d" and p: "absolute src" "absolute dst"
    and step: "copyWebDAVResourceTx idfn now src dst overwrite recursive options d = Inr (x, d')"
  shows "leads idfn d0 d'"
proof -
  obtain copies overwritten d1 d2 d3 where copy: "txCopyDepth idfn now src dst overwrite recursive d = Inr ((copies, overwritten), d1)"
    and rest: "finalizeRemovedWebDAVEntries now overwritten d1 = Inr d2"
      "copyWebDAVMetadata copies d2 = Inr d3" "copyWebDAVProperties now copies d3 = Inr d'"
    using step by (auto simp: copyWebDAVResourceTx_def bind_result_Inr_iff split: option.splits)
  have "leads idfn d0 d1"
    using leads_dir [OF ids ok dir_step.copy [OF p copy] dir_change_txCopy [OF copy, of "{}"]] by blast
  then show ?thesis using leads_copyTail [OF ids _ rest] by blast
qed

lemma leads_moveLockRoots:
  assumes ids: "good_ids idfn" and ok: "leads idfn d0 d" and "moveLockRoots src dst d = Inr d'" and "absolute dst"
  shows "leads idfn d0 d'"
proof -
  obtain rows where rows: "update_unique lr_root_path
      (\<lambda>r. lr_root_path r = src \<or> like backslash (escapeSQLiteLike (src @ ''/'') @ ''%'') (lr_root_path r))
      (\<lambda>r. r\<lparr>lr_root_path := dst @ sql_substr (lr_root_path r) (length src + 1)\<rparr>) (locks d) = Inr rows"
    and d': "d' = d\<lparr>locks := rows\<rparr>"
    using assms(3) by (auto simp: moveLockRoots_def bind_result_Inr_iff)
  have "absolute (dst @ s)" for s using assms(4) by (cases dst) (auto simp: absolute_def)
  then show ?thesis
    using update_unique_rows [OF rows] leadsD(5) [OF ok] by (intro leads_locks [OF ids ok d']) auto
qed

lemma leads_moveResource:
  assumes ids: "good_ids idfn" and ok: "leads idfn d0 d" and p: "absolute src" "absolute dst"
    and step: "moveResourceTx now src dst overwrite options d = Inr (x, d')"
  shows "leads idfn d0 d'"
proof -
  obtain overwritten d1 d2 where move: "txMove now src dst overwrite d = Inr (overwritten, d1)"
    and fin: "finalizeRemovedWebDAVEntries now overwritten d1 = Inr d2"
    and lks: "moveLockRoots (Clean src) (Clean dst) d2 = Inr d'"
    using step by (auto simp: moveResourceTx_def bind_result_Inr_iff split: option.splits)
  have "leads idfn d0 d1"
    using leads_dir [OF ids ok dir_step.move [OF p move] dir_change_txMove [OF move, of "{}"]] by blast
  then show ?thesis using leads_moveLockRoots [OF ids leads_finalize [OF ids _ fin] lks Clean_absolute_path [OF p(2)]] by blast
qed

lemma leads_patch:
  assumes "good_ids idfn" and "leads idfn d0 d" and "patch_property e now patch d = Inr d'"
  shows "leads idfn d0 d'"
proof -
  obtain b where "d' = d\<lparr>props := b\<rparr>"
    using assms(3) by (auto simp: patch_property_def upsert_property_def Let_def bind_result_Inr_iff split: if_splits)
  then show ?thesis by (rule leads_props [OF assms(1,2)])
qed

lemma leads_patchProperties:
  assumes ids: "good_ids idfn" and ok: "leads idfn d0 d" and p: "absolute p"
    and step: "patchPropertiesTx now p patches options d = Inr (x, d')"
  shows "leads idfn d0 d'"
proof -
  obtain e d1 where fold: "fold_result (patch_property e now) patches d = Inr d1" and touch: "txTouch p now now d1 = Inr d'"
    using step by (auto simp: patchPropertiesTx_def bind_result_Inr_iff split: option.splits)
  have "leads idfn d0 d1" using fold ok by (rule fold_result_invariant) (rule leads_patch [OF ids])
  then show ?thesis using leads_dir [OF ids _ dir_step.touch [OF p touch] dir_change_txTouch [OF touch, of "{}"]] by blast
qed

lemma leads_lock:
  assumes ids: "good_ids idfn" and ok: "leads idfn d0 d" and p: "absolute (kq_Path request)" "components (kq_Path request) \<noteq> []"
    and f: "fileID \<noteq> 0 \<Longrightarrow> linkable d fileID" "fileID < 2 ^ 64"
    and step: "lockWebDAVResourceTx idfn now uuid request fileID d = Inr (x, d')"
  shows "leads idfn d0 d'"
proof -
  obtain e created d1 lock where target: "ensureWebDAVLockTargetTx idfn now request fileID d = Inr ((e, created), d1)"
    and ins: "insert_lock (kq_Depth request) lock d1 = Inr d'" and root: "lr_root_path lock = Clean (kq_Path request)"
    using step by (auto simp: lockWebDAVResourceTx_def Let_def bind_result_Inr_iff)
  have d1: "leads idfn d0 d1"
    using target leads_create [OF ids ok p f(1) f(2)] ok
    by (auto simp: ensureWebDAVLockTargetTx_def bind_result_Inr_iff split: option.splits if_splits)
  have "d' = d1\<lparr>locks := locks d1 @ [lock]\<rparr>"
    using ins by (auto simp: insert_lock_def insert_unique_def bind_result_Inr_iff split: if_splits)
  then show ?thesis using leadsD(5) [OF d1] Clean_absolute_path [OF p(1)] root by (intro leads_locks [OF ids d1]) auto
qed

lemma leads_refresh:
  assumes "good_ids idfn" and "leads idfn d0 d" and "refreshLockTx now p token user timeout header d = Inr (x, d')"
  shows "leads idfn d0 d'"
proof -
  obtain t e where "d' = d\<lparr>locks := map (\<lambda>r. if lr_token r = t then r\<lparr>lr_expires_at := e\<rparr> else r) (locks d)\<rparr>"
    using assms(3) by (auto simp: refreshLockTx_def Let_def bind_result_Inr_iff split: option.splits if_splits)
  then show ?thesis using leadsD(5) [OF assms(2)] by (intro leads_locks [OF assms(1,2)]) (auto split: if_splits)
qed

lemma leads_unlock:
  assumes ids: "good_ids idfn" and ok: "leads idfn d0 d" and p: "absolute p" and step: "unlockTx now p token user d = Inr (x, d')"
  shows "leads idfn d0 d'"
proof -
  let ?d = "d\<lparr>locks := filter (\<lambda>r. lr_token r \<noteq> token) (locks d)\<rparr>"
  have ok': "leads idfn d0 ?d" using leads_drop_locks [OF ids ok] .
  consider "d' = ?d" | removed d1 where "txRemoveTree now p ?d = Inr (removed, d1)" "finalizeRemovedWebDAVEntries now removed d1 = Inr d'"
    using step by (auto simp: unlockTx_def Let_def bind_result_Inr_iff split: if_splits option.splits)
  then show ?thesis
  proof cases
    case 2
    then show ?thesis using leads_finalize [OF ids] leads_remove [OF ids ok' p] by blast
  qed (use ok' in simp)
qed

end
