(* ===== verification/WebDAV_Sync.thy ===== *)
theory WebDAV_Sync
  imports Directory_Paths
begin

text \<open>
  The change journal of the WebDAV interface (\<^verbatim>\<open>filemgr/webdav_protocol.go\<close>): a client that
  holds a revision asks for the latest change of every path in its scope since then, page by page.
\<close>

record WebDAVChangePage =
  cp_Changes :: "change_row list"
  cp_SyncRevision :: int
  cp_HasMore :: bool

definition revision :: "change_row \<Rightarrow> int" where
  "revision c = int (hr_revision c)"

definition currentWebDAVRevision :: "db \<Rightarrow> int" where
  "currentWebDAVRevision d = foldr max (map revision (changes d)) 0"

section \<open>The query\<close>

definition change_selected :: "string \<Rightarrow> int \<Rightarrow> string \<Rightarrow> change_row \<Rightarrow> bool" where
  "change_selected cleanRoot since depth c \<longleftrightarrow>
     revision c > since \<and>
     (cleanRoot = ''/'' \<and> like None ''/%'' (hr_path c) \<or> hr_path c = cleanRoot \<or>
      like backslash (escapeSQLiteLike (TrimSuffixSlash cleanRoot @ ''/'') @ ''%'') (hr_path c)) \<and>
     (depth = ''infinity'' \<or> hr_path c = cleanRoot \<or>
      sql_instr (sql_substr (hr_path c) (length cleanRoot + 2)) (CHR ''/'') = 0)"

text \<open>Of the selected rows of one path, only the one with the largest revision remains.\<close>

definition latest_of :: "change_row list \<Rightarrow> change_row list" where
  "latest_of rows = filter (\<lambda>c. \<forall>b\<in>set rows. hr_path b = hr_path c \<longrightarrow> revision b \<le> revision c) rows"

definition queryWebDAVChanges :: "string \<Rightarrow> int \<Rightarrow> string \<Rightarrow> nat \<Rightarrow> db \<Rightarrow> change_row list" where
  "queryWebDAVChanges root since depth limit d =
     take (limit + 1) (sort_key revision (latest_of (filter (change_selected (Clean root) since depth) (changes d))))"

section \<open>The page\<close>

definition webDAVChangeInScope :: "string \<Rightarrow> string \<Rightarrow> string \<Rightarrow> bool" where
  "webDAVChangeInScope root changedPath depth =
     (let root = Clean root; changedPath = Clean changedPath
      in if changedPath = root then True
         else if root \<noteq> ''/'' \<and> \<not> HasPrefix changedPath (root @ ''/'') then False
         else if root = ''/'' \<and> \<not> HasPrefix changedPath ''/'' then False
         else if depth = ''infinity'' then True
         else
           let relative = TrimPrefix (TrimPrefix changedPath root) ''/''
           in relative \<noteq> '''' \<and> CHR ''/'' \<notin> set relative)"

fun scanWebDAVChanges :: "string \<Rightarrow> string \<Rightarrow> nat \<Rightarrow> change_row list \<Rightarrow> WebDAVChangePage \<Rightarrow> WebDAVChangePage" where
  "scanWebDAVChanges root depth limit [] page = page"
| "scanWebDAVChanges root depth limit (change # rest) page =
     (if \<not> webDAVChangeInScope root (hr_path change) depth then scanWebDAVChanges root depth limit rest page
      else if length (cp_Changes page) = limit
      then page\<lparr>cp_HasMore := True, cp_SyncRevision := revision (last (cp_Changes page))\<rparr>
      else scanWebDAVChanges root depth limit rest (page\<lparr>cp_Changes := cp_Changes page @ [change]\<rparr>))"

definition WebDAVChanges :: "string \<Rightarrow> int \<Rightarrow> string \<Rightarrow> int \<Rightarrow> db \<Rightarrow> WebDAVChangePage result" where
  "WebDAVChanges root since depth limit d =
     (let n = (if limit \<le> 0 then 1000 else nat limit);
          current = currentWebDAVRevision d;
          page = \<lparr>cp_Changes = [], cp_SyncRevision = current, cp_HasMore = False\<rparr>
      in if since < 0 then Inr page
         else if since > current then Inl ErrWebDAVSyncToken
         else Inr (scanWebDAVChanges (Clean root) depth n (queryWebDAVChanges root since depth n d) page))"

section \<open>What a page holds\<close>

text \<open>
  The changes a client has to learn: the latest one of every path in its scope after a revision,
  oldest first.
\<close>

definition unseen :: "string \<Rightarrow> int \<Rightarrow> string \<Rightarrow> db \<Rightarrow> change_row list" where
  "unseen root since depth d =
     filter (\<lambda>c. revision c > since \<and> webDAVChangeInScope (Clean root) (hr_path c) depth \<and>
       (\<forall>b\<in>set (changes d). hr_path b = hr_path c \<longrightarrow> revision b \<le> revision c)) (changes d)"

text \<open>The journal is in the order of its revisions and its paths are cleaned.\<close>

definition journal_ok :: "db \<Rightarrow> bool" where
  "journal_ok d \<longleftrightarrow> sorted_wrt (<) (map hr_revision (changes d)) \<and> (\<forall>c\<in>set (changes d). hr_revision c \<le> change_seq d) \<and>
     (\<forall>c\<in>set (changes d). absolute (hr_path c) \<and> Clean (hr_path c) = hr_path c)"

lemma scan_page:
  assumes "\<forall>c\<in>set rows. webDAVChangeInScope root (hr_path c) depth" and "length (cp_Changes page) \<le> limit" and "0 < limit"
  shows "scanWebDAVChanges root depth limit rows page =
    (if length (cp_Changes page @ rows) \<le> limit then page\<lparr>cp_Changes := cp_Changes page @ rows\<rparr>
     else page\<lparr>cp_Changes := take limit (cp_Changes page @ rows), cp_HasMore := True,
               cp_SyncRevision := revision (last (take limit (cp_Changes page @ rows)))\<rparr>)"
  using assms
proof (induction rows arbitrary: page)
  case (Cons c rows)
  show ?case
  proof (cases "length (cp_Changes page) = limit")
    case True
    then have "cp_Changes page \<noteq> []" using Cons.prems(3) by auto
    then show ?thesis using True Cons.prems(1) by simp
  next
    case False
    let ?p = "page\<lparr>cp_Changes := cp_Changes page @ [c]\<rparr>"
    have "scanWebDAVChanges root depth limit (c # rows) page = scanWebDAVChanges root depth limit rows ?p"
      using False Cons.prems(1) by simp
    also have "\<dots> = (if length (cp_Changes ?p @ rows) \<le> limit then ?p\<lparr>cp_Changes := cp_Changes ?p @ rows\<rparr>
      else ?p\<lparr>cp_Changes := take limit (cp_Changes ?p @ rows), cp_HasMore := True,
               cp_SyncRevision := revision (last (take limit (cp_Changes ?p @ rows)))\<rparr>)"
      by (rule Cons.IH) (use False Cons.prems in auto)
    finally show ?thesis by simp
  qed
qed simp

lemma HasPrefix_prefix: "HasPrefix s p \<longleftrightarrow> prefix p s"
  by (auto simp: HasPrefix_def prefix_def) (metis append_take_drop_id)


section \<open>The scope of the query\<close>

lemma suffix_skip: "suffix (skip_utf8 s) s"
  by (cases s) (auto simp: skip_utf8_def suffix_dropWhile intro: suffix_Cons [THEN iffD2] split: if_splits)

lemma sql_drop_tail: "suffix (sql_drop n s) s"
proof (induction n arbitrary: s)
  case (Suc n)
  have "suffix (sql_drop n (skip_utf8 s)) (skip_utf8 s)" by (rule Suc.IH)
  then show ?case using suffix_skip [of s] suffix_order.trans by fastforce
qed simp

text \<open>Dropping as many code points as a prefix has bytes drops at least the prefix.\<close>

lemma sql_drop_suffix:
  "n \<ge> length a \<Longrightarrow> suffix (sql_drop n (a @ b)) b"
proof (induction "length a" arbitrary: a n rule: less_induct)
  case less
  show ?case
  proof (cases a)
    case Nil
    then show ?thesis using sql_drop_tail by simp
  next
    case (Cons x c)
    with less.prems obtain m where n: "n = Suc m" "m \<ge> length c" by (cases n) auto
    obtain k where k: "skip_utf8 (x # c @ b) = drop k (c @ b)"
      by (cases "(of_char x :: nat) \<ge> 192") (auto simp: skip_utf8_def dropWhile_eq_drop intro: that [of 0])
    have drop: "sql_drop n (a @ b) = sql_drop m (drop k c @ drop (k - length c) b)" using n k Cons by simp
    show ?thesis
    proof (cases "k \<le> length c")
      case True
      have "suffix (sql_drop m (drop k c @ b)) b" by (rule less.hyps) (use n Cons in auto)
      then show ?thesis using True drop by simp
    next
      case False
      then have "sql_drop n (a @ b) = sql_drop m (drop (k - length c) b)" using drop by simp
      then show ?thesis using sql_drop_tail [of m "drop (k - length c) b"] suffix_drop [of "k - length c" b] suffix_order.trans by metis
    qed
  qed
qed

text \<open>What lies below a root, with the part behind it.\<close>

definition root_prefix :: "string \<Rightarrow> string" where
  "root_prefix root = (if root = ''/'' then ''/'' else root @ ''/'')"

lemma last_clean:
  assumes "absolute p" and "Clean p \<noteq> ''/''"
  shows "last (Clean p) \<noteq> CHR ''/''"
proof -
  have clean: "Clean p = abs_path (components p)" using Clean_components [OF assms(1)] .
  then have "components p \<noteq> []" using assms(2) by (auto simp: abs_path_def)
  then obtain cs c where cs: "components p = cs @ [c]" by (metis append_butlast_last_id)
  have "normal c" using components_normal [of p] cs by simp
  then show ?thesis using normalD(1,3) [of c] clean cs by (simp add: abs_path_snoc)
qed

lemma pattern_root: "absolute p \<Longrightarrow> TrimSuffixSlash (Clean p) @ ''/'' = root_prefix (Clean p)"
  using last_clean [of p] by (auto simp: TrimSuffixSlash_def root_prefix_def)

lemma TrimPrefix_append [simp]: "TrimPrefix (p @ s) p = s"
  by (simp add: TrimPrefix_def HasPrefix_def)

lemma clean_single_slash:
  assumes "Clean (CHR ''/'' # rel) = CHR ''/'' # rel"
  shows "\<not> HasPrefix rel ''/''"
proof (cases "components (CHR ''/'' # rel)")
  case Nil
  then have "rel = []" using Clean_components [of "CHR ''/'' # rel"] assms by (simp add: abs_path_def)
  then show ?thesis by (simp add: HasPrefix_def)
next
  case (Cons c cs)
  then have rel: "rel = join_on (CHR ''/'') (c # cs)"
    using Clean_components [of "CHR ''/'' # rel"] assms by (simp add: abs_path_def)
  have c: "normal c" using components_normal [of "CHR ''/'' # rel"] Cons by simp
  then obtain x xs where "c = x # xs" "x \<noteq> CHR ''/''" using normalD(1,4) [OF c] by (cases c) auto
  then show ?thesis unfolding rel by (cases cs) (simp_all add: HasPrefix_def join_on_Cons)
qed

lemma in_scope:
  assumes "Clean root = root" and "Clean p = p" and "p \<noteq> root"
  shows "webDAVChangeInScope root p depth \<longleftrightarrow>
    (\<exists>rel. p = root_prefix root @ rel \<and> (depth = ''infinity'' \<or> rel \<noteq> '''' \<and> CHR ''/'' \<notin> set rel))"
proof (cases "HasPrefix p (root_prefix root)")
  case False
  then show ?thesis using assms
    by (auto simp: webDAVChangeInScope_def root_prefix_def Let_def HasPrefix_def split: if_splits)
next
  case True
  then obtain rel where p: "p = root_prefix root @ rel" by (auto simp: HasPrefix_prefix prefix_def)
  have "TrimPrefix (TrimPrefix p root) ''/'' = rel"
  proof (cases "root = ''/''")
    case True
    then have "TrimPrefix rel ''/'' = rel" using clean_single_slash [of rel] assms(2) p by (simp add: root_prefix_def TrimPrefix_def)
    then show ?thesis using True TrimPrefix_append [of "''/''" rel] by (simp add: p root_prefix_def)
  next
    case False
    have "TrimPrefix p root = ''/'' @ rel" using False TrimPrefix_append [of root "''/'' @ rel"] by (simp add: p root_prefix_def)
    then show ?thesis using TrimPrefix_append [of "''/''" rel] by simp
  qed
  moreover have "HasPrefix p (root @ ''/'')" if "root \<noteq> ''/''" using True that by (simp add: root_prefix_def)
  moreover have "HasPrefix p ''/''" if "root = ''/''" using True that by (simp add: root_prefix_def)
  ultimately have "webDAVChangeInScope root p depth \<longleftrightarrow> depth = ''infinity'' \<or> rel \<noteq> '''' \<and> CHR ''/'' \<notin> set rel"
    using assms by (cases "root = ''/''") (simp_all add: webDAVChangeInScope_def Let_def)
  then show ?thesis by (simp add: p)
qed

lemma slash_skip:
  assumes "\<not> HasPrefix rel ''/''"
  shows "CHR ''/'' \<in> set (skip_utf8 rel) \<longleftrightarrow> CHR ''/'' \<in> set rel"
proof (cases rel)
  case (Cons c cs)
  then have "c \<noteq> CHR ''/''" using assms by (auto simp: HasPrefix_def)
  moreover have "CHR ''/'' \<in> set (dropWhile (\<lambda>b. 128 \<le> (of_char b :: nat) \<and> (of_char b :: nat) < 192) cs) \<longleftrightarrow> CHR ''/'' \<in> set cs"
    by (induction cs) auto
  ultimately show ?thesis using Cons by (simp add: skip_utf8_def)
qed simp

lemma sql_instr_none: "sql_instr s c = 0 \<longleftrightarrow> c \<notin> set s"
  by (simp add: sql_instr_def)

lemma direct_child:
  assumes root: "ascii root" and p: "p = root_prefix root @ rel" and clean: "Clean p = p"
  shows "sql_instr (sql_substr p (length root + 2)) (CHR ''/'') = 0 \<longleftrightarrow> CHR ''/'' \<notin> set rel"
proof (cases "root = ''/''")
  case True
  then have "\<not> HasPrefix rel ''/''" using clean_single_slash [of rel] clean p by (simp add: root_prefix_def)
  then show ?thesis using slash_skip [of rel] True p
    by (simp add: sql_instr_none sql_substr_def root_prefix_def skip_utf8_ascii numeral_2_eq_2)
next
  case False
  have "sql_drop (length (root @ ''/'')) ((root @ ''/'') @ rel) = rel" by (rule sql_drop_ascii) (simp add: root)
  then show ?thesis using False p by (simp add: sql_instr_none sql_substr_def root_prefix_def)
qed

text \<open>
  \<open>LIKE\<close> folds case, so that the query also finds changes below a path that differs from the root
  in the case of letters. The scan drops them afterwards; where there are none, the query is exact.
\<close>

definition no_case_twin :: "string \<Rightarrow> db \<Rightarrow> bool" where
  "no_case_twin root d \<longleftrightarrow>
     (\<forall>c\<in>set (changes d). starts_fold (root_prefix root) (hr_path c) \<longrightarrow> prefix (root_prefix root) (hr_path c))"

lemma selected_scope:
  assumes root: "absolute root" "Clean root = root" "ascii root" and c: "c \<in> set (changes d)"
    and ok: "journal_ok d" and twin: "no_case_twin root d"
  shows "change_selected root since depth c \<longleftrightarrow> revision c > since \<and> webDAVChangeInScope root (hr_path c) depth"
proof (cases "hr_path c = root")
  case True
  then show ?thesis using root(2) by (simp add: change_selected_def webDAVChangeInScope_def)
next
  case False
  let ?p = "hr_path c"
  have p: "absolute ?p" "Clean ?p = ?p" using ok c by (auto simp: journal_ok_def)
  have starts: "starts_fold (root_prefix root) ?p \<longleftrightarrow> prefix (root_prefix root) ?p"
    using twin c starts_fold_prefix by (auto simp: no_case_twin_def prefix_def)
  have "like None ''/%'' ?p \<longleftrightarrow> starts_fold ''/'' ?p" using like_plain [of "''/''" ?p] by simp
  then have below: "(root = ''/'' \<and> like None ''/%'' ?p \<or> ?p = root \<or>
      like backslash (escapeSQLiteLike (TrimSuffixSlash root @ ''/'') @ ''%'') ?p) \<longleftrightarrow> prefix (root_prefix root) ?p"
    using starts pattern_root [OF root(1)] False unfolding root(2) like_escaped by (auto simp: root_prefix_def)
  show ?thesis
  proof (cases "prefix (root_prefix root) ?p")
    case False
    then show ?thesis using below in_scope [OF root(2) p(2) \<open>?p \<noteq> root\<close>] by (auto simp: change_selected_def prefix_def)
  next
    case True
    then obtain rel where rel: "?p = root_prefix root @ rel" by (auto simp: prefix_def)
    have "rel \<noteq> ''''"
    proof
      assume "rel = ''''"
      then have "?p = root @ ''/''" "root \<noteq> ''/''" using rel False by (auto simp: root_prefix_def split: if_splits)
      moreover have "?p \<noteq> ''/''" using calculation root(1) by (cases root) (auto simp: absolute_def)
      ultimately show False using last_clean [OF p(1)] p(2) by simp
    qed
    then show ?thesis
      using below True in_scope [OF root(2) p(2) \<open>?p \<noteq> root\<close>] direct_child [OF root(3) rel p(2)] False rel
      by (auto simp: change_selected_def)
  qed
qed

section \<open>Pages\<close>

lemma journal_sorted:
  assumes "journal_ok d"
  shows "sorted_wrt (\<lambda>x y. revision x < revision y) (filter P (changes d))"
proof -
  have "sorted_wrt (\<lambda>x y. revision x < revision y) (changes d)"
    using assms by (simp add: journal_ok_def sorted_wrt_map revision_def)
  then show ?thesis by (rule sorted_wrt_filter)
qed

lemma clean_absolute:
  assumes "absolute p"
  shows "absolute (Clean p)" and "Clean (Clean p) = Clean p"
proof -
  have "Clean p = abs_path (components p)" using Clean_components [OF assms] .
  then show "absolute (Clean p)" and "Clean (Clean p) = Clean p"
    using Clean_abs_path [OF components_normal] by (simp_all add: absolute_def abs_path_def)
qed

lemma query_unseen:
  assumes root: "absolute root" "ascii (Clean root)" and ok: "journal_ok d" and twin: "no_case_twin (Clean root) d"
  shows "queryWebDAVChanges root since depth n d = take (n + 1) (unseen root since depth d)"
proof -
  have r: "absolute (Clean root)" "Clean (Clean root) = Clean root" using clean_absolute [OF root(1)] by simp_all
  note sel = selected_scope [OF r root(2) _ ok twin]
  have "filter (change_selected (Clean root) since depth) (changes d) =
      filter (\<lambda>c. revision c > since \<and> webDAVChangeInScope (Clean root) (hr_path c) depth) (changes d)"
    by (rule filter_cong) (simp_all add: sel)
  moreover have "latest_of (filter (\<lambda>c. revision c > since \<and> webDAVChangeInScope (Clean root) (hr_path c) depth) (changes d)) =
      unseen root since depth d"
    unfolding latest_of_def unseen_def filter_filter by (rule filter_cong) force+
  ultimately have "latest_of (filter (change_selected (Clean root) since depth) (changes d)) = unseen root since depth d" by simp
  moreover have "sort_key revision (unseen root since depth d) = unseen root since depth d"
    unfolding unseen_def by (rule sort_strict [OF journal_sorted [OF ok]])
  ultimately show ?thesis by (simp add: queryWebDAVChanges_def)
qed

lemma current_upper: "c \<in> set (changes d) \<Longrightarrow> revision c \<le> currentWebDAVRevision d"
proof -
  have "c \<in> set cs \<Longrightarrow> revision c \<le> foldr max (map revision cs) 0" for cs
    by (induction cs) auto
  then show "c \<in> set (changes d) \<Longrightarrow> revision c \<le> currentWebDAVRevision d" by (simp add: currentWebDAVRevision_def)
qed

lemma unseen_current: "unseen root (currentWebDAVRevision d) depth d = []"
  using current_upper by (force simp: unseen_def filter_empty_conv)

lemma unseen_later:
  assumes ok: "journal_ok d" and i: "i < length (unseen root since depth d)"
  shows "unseen root (revision (unseen root since depth d ! i)) depth d = drop (Suc i) (unseen root since depth d)"
proof -
  let ?K = "unseen root since depth d"
  have "?K ! i \<in> set ?K" using i by simp
  then have "since < revision (?K ! i)" by (simp add: unseen_def)
  then have "unseen root (revision (?K ! i)) depth d = filter (\<lambda>c. revision (?K ! i) < revision c) ?K"
    unfolding unseen_def filter_filter by (intro filter_cong) auto
  also have "\<dots> = drop (Suc i) ?K"
    by (rule above_nth_key [OF _ i]) (unfold unseen_def, rule journal_sorted [OF ok])
  finally show ?thesis .
qed

lemma changes_page:
  assumes root: "absolute root" "ascii (Clean root)" and ok: "journal_ok d" and twin: "no_case_twin (Clean root) d"
    and since: "0 \<le> since" "since \<le> currentWebDAVRevision d"
    and n_def: "n = (if limit \<le> 0 then 1000 else nat limit)" and K_def: "K = unseen root since depth d"
  shows "\<exists>page. WebDAVChanges root since depth limit d = Inr page \<and> cp_Changes page = take n K \<and>
    cp_HasMore page = (n < length K) \<and> unseen root (cp_SyncRevision page) depth d = drop n K"
proof -
  let ?page = "\<lparr>cp_Changes = [], cp_SyncRevision = currentWebDAVRevision d, cp_HasMore = False\<rparr>"
  have n: "0 < n" by (simp add: n_def)
  have scope: "\<forall>c\<in>set (take (n + 1) K). webDAVChangeInScope (Clean root) (hr_path c) depth"
    by (auto simp: K_def unseen_def dest!: in_set_takeD)
  have run: "WebDAVChanges root since depth limit d = Inr (scanWebDAVChanges (Clean root) depth n (take (n + 1) K) ?page)"
    using since query_unseen [OF root ok twin] by (simp add: WebDAVChanges_def Let_def n_def K_def)
  show ?thesis
  proof (cases "n < length K")
    case True
    let ?last = "K ! (n - 1)"
    have len: "\<not> length (take (n + 1) K) \<le> n" using True by simp
    have "take n (take (n + 1) K) = take n K" by (simp add: min_def)
    moreover have "last (take n K) = ?last" using n True by (subst last_conv_nth) auto
    ultimately have "scanWebDAVChanges (Clean root) depth n (take (n + 1) K) ?page =
        ?page\<lparr>cp_Changes := take n K, cp_HasMore := True, cp_SyncRevision := revision ?last\<rparr>"
      using scan_page [OF scope, of ?page] n len by simp
    moreover have "unseen root (revision ?last) depth d = drop n K"
      using unseen_later [OF ok, of "n - 1" root since depth] True n unfolding K_def by simp
    ultimately show ?thesis using True run by simp
  next
    case False
    then have "scanWebDAVChanges (Clean root) depth n (take (n + 1) K) ?page = ?page\<lparr>cp_Changes := K\<rparr>"
      using scan_page [OF scope, of ?page] n by simp
    then show ?thesis using False run unseen_current by simp
  qed
qed

text \<open>Recording a change keeps the journal well formed.\<close>

lemma journal_record:
  assumes "journal_ok d" and "absolute p"
  shows "journal_ok (recordChange p kind now d)"
  using assms clean_absolute [OF assms(2)]
  by (auto simp: journal_ok_def recordChange_def sorted_wrt_append le_less_trans)

section \<open>Properties\<close>


definition sample_journal :: db where
  "sample_journal = empty_db\<lparr>changes :=
     [\<lparr>hr_revision = 1, hr_path = ''/a/x'', hr_kind = ChangeCreated, hr_at = 1\<rparr>,
      \<lparr>hr_revision = 2, hr_path = ''/A/y'', hr_kind = ChangeCreated, hr_at = 2\<rparr>,
      \<lparr>hr_revision = 3, hr_path = ''/A/z'', hr_kind = ChangeCreated, hr_at = 3\<rparr>], change_seq := 3\<rparr>"



end
