(* ===== verification/WebDAV_Properties.thy ===== *)
theory WebDAV_Properties
  imports WebDAV_Spec S3_Properties WebDAV_Sync
begin

text \<open>
  The properties of the WebDAV operations: what a lock protects, who may release it, and what a
  published file looks like afterwards.
\<close>

section \<open>Locks that cover a path\<close>

text \<open>The meaning of a lock: it covers its root and, with depth infinity, everything below.\<close>

definition covers :: "lock_row \<Rightarrow> string \<Rightarrow> bool" where
  "covers r p \<longleftrightarrow> lr_root_path r = p \<or> lr_infinity r \<and> prefix (root_prefix (lr_root_path r)) p"

text \<open>A request submits a token if it occurs in its \<open>If\<close> header, outside of a \<open>Not\<close>.\<close>

definition if_lists :: "WebDAVCondition option \<Rightarrow> WebDAVIfList list" where
  "if_lists condition =
     (case condition of None \<Rightarrow> [] | Some c \<Rightarrow> case wc_IfHeader c of None \<Rightarrow> [] | Some h \<Rightarrow> ih_Lists h)"

definition positive_tokens :: "WebDAVIfList \<Rightarrow> string set" where
  "positive_tokens list = {it_LockToken t | t. t \<in> set (il_Terms list) \<and> \<not> it_Not t \<and> it_LockToken t \<noteq> ''''}"

definition submits :: "WebDAVCondition option \<Rightarrow> string \<Rightarrow> bool" where
  "submits condition token \<longleftrightarrow> (\<exists>list\<in>set (if_lists condition). token \<in> positive_tokens list)"

text \<open>Every list of the header names a token, as clients that work with locks send them.\<close>

definition names_tokens :: "WebDAVCondition option \<Rightarrow> bool" where
  "names_tokens condition \<longleftrightarrow> (\<forall>list\<in>set (if_lists condition). positive_tokens list \<noteq> {})"

lemma like_self: "like None (v @ ''%'') (v @ s)"
proof (induction v)
  case Nil
  then show ?case by (simp add: like_any)
next
  case (Cons c v)
  consider "c = CHR ''%''" | "c = CHR ''_''" | "c \<noteq> CHR ''%''" "c \<noteq> CHR ''_''" by blast
  then show ?case
  proof cases
    case 1
    have "like None (c # v @ ''%'') (v @ s)" using Cons.IH 1 by (simp add: like.simps(2))
    moreover have "skip_utf8 (c # v @ s) = v @ s" using 1 by (simp add: skip_utf8_def)
    ultimately show ?thesis using 1 like.simps(2) [of None c "v @ ''%''" "c # v @ s"] by simp
  next
    case 2
    moreover have "skip_utf8 (c # v @ s) = v @ s" using 2 by (simp add: skip_utf8_def)
    ultimately show ?thesis using Cons.IH like.simps(2) [of None c "v @ ''%''" "c # v @ s"] by simp
  next
    case 3
    then show ?thesis using Cons.IH by (simp add: like_byte)
  qed
qed

lemma covers_applies: "covers r p \<Longrightarrow> lr_expires_at r > now \<Longrightarrow> lock_applies now p r"
  using like_self [of "lr_root_path r @ ''/''"] like_self [of "''/''"]
  by (auto simp: covers_def lock_applies_def root_prefix_def prefix_def split: if_splits)

lemma below_overlaps:
  assumes "prefix (p @ ''/'') (lr_root_path r)"
  shows "like backslash (escapeSQLiteLike (p @ ''/'') @ ''%'') (lr_root_path r)"
proof -
  obtain s where "lr_root_path r = (p @ ''/'') @ s" using assms by (auto simp: prefix_def)
  then show ?thesis unfolding like_escaped by (simp only: starts_fold_prefix)
qed

lemma allows_submits:
  assumes "webDAVIfHeaderAllows condition p etag [r]" and "names_tokens condition"
  shows "submits condition (lr_token r)"
proof -
  obtain list where list: "list \<in> set (if_lists condition)" "webDAVIfListSatisfied list etag [r]"
    using assms(1) by (auto simp: webDAVIfHeaderAllows_def if_lists_def list_ex_iff split: option.splits)
  then obtain t where t: "t \<in> set (il_Terms list)" "\<not> it_Not t" "it_LockToken t \<noteq> ''''"
    using assms(2) by (auto simp: names_tokens_def positive_tokens_def)
  then have "it_LockToken t = lr_token r"
    using list(2) by (auto simp: webDAVIfListSatisfied_def list_all_iff webDAVIfTermSatisfied_def Let_def)
  then have "lr_token r \<in> positive_tokens list" using t unfolding positive_tokens_def by (metis (mono_tags, lifting) mem_Collect_eq)
  then show ?thesis using list(1) by (auto simp: submits_def)
qed

lemma locks_assert:
  assumes "assertLocksAt now condition d p = Inr u" and "r \<in> set (locks d)" and "lr_expires_at r > now" and "covers r (Clean p)"
    and "names_tokens condition"
  shows "submits condition (lr_token r)"
proof -
  let ?lks = "queryApplicableWebDAVLocks now p d"
  have r: "r \<in> set ?lks" using covers_applies [OF assms(4,3)] assms(2) by (simp add: queryApplicableWebDAVLocks_def)
  then have "?lks \<noteq> []" by auto
  then obtain etag where "list_all (\<lambda>lock. webDAVIfHeaderAllows condition p etag [lock]) ?lks"
    using assms(1) by (auto simp: assertLocksAt_def Let_def bind_result_Inr_iff split: if_splits)
  then show ?thesis using r allows_submits [OF _ assms(5)] by (auto simp: list_all_iff)
qed

lemma tree_assert:
  assumes "assertTreeLocksAt now condition d p = Inr u" and "r \<in> set (locks d)" and "lr_expires_at r > now"
    and "covers r (Clean p) \<or> prefix (Clean p @ ''/'') (lr_root_path r)" and "names_tokens condition"
  shows "submits condition (lr_token r)"
proof -
  let ?lks = "queryOverlappingWebDAVLocks now p d"
  have r: "r \<in> set ?lks" using covers_applies [OF _ assms(3)] below_overlaps assms(2,3,4)
    by (auto simp: queryOverlappingWebDAVLocks_def Let_def)
  obtain etag where "list_all (\<lambda>lock. webDAVIfHeaderAllows condition p etag [lock]) ?lks"
    using assms(1) by (auto simp: assertTreeLocksAt_def Let_def bind_result_Inr_iff split: if_splits)
  then show ?thesis using r allows_submits [OF _ assms(5)] by (auto simp: list_all_iff)
qed

lemma assert_at:
  "p \<in> set ps \<Longrightarrow> assertWebDAVLocksTx now ps condition d = Inr u \<Longrightarrow> \<exists>v. assertLocksAt now condition d p = Inr v"
  "p \<in> set ps \<Longrightarrow> assertWebDAVTreeLocksTx now ps condition d = Inr u \<Longrightarrow> \<exists>v. assertTreeLocksAt now condition d p = Inr v"
proof -
  have "p \<in> set ps \<Longrightarrow> fold_result (\<lambda>p (_ :: unit). f p) ps s = Inr u \<Longrightarrow> \<exists>v. f p = Inr v" for f :: "string \<Rightarrow> unit result" and s
    by (induction ps arbitrary: s) (auto simp: bind_result_Inr_iff)
  then show "p \<in> set ps \<Longrightarrow> assertWebDAVLocksTx now ps condition d = Inr u \<Longrightarrow> \<exists>v. assertLocksAt now condition d p = Inr v"
    and "p \<in> set ps \<Longrightarrow> assertWebDAVTreeLocksTx now ps condition d = Inr u \<Longrightarrow> \<exists>v. assertTreeLocksAt now condition d p = Inr v"
    unfolding assertWebDAVLocksTx_def assertWebDAVTreeLocksTx_def by blast+
qed

text \<open>The assertions each transaction makes on its way to success.\<close>

lemma writes_assert:
  "publishWebDAVFileTx idfn mime now p f n options d = Inr (x, d') \<Longrightarrow> assertWebDAVLocksTx now [p] (mo_Condition options) d = Inr ()"
  "createCollectionTx idfn now p options d = Inr (y, d') \<Longrightarrow> assertWebDAVLocksTx now [p] (mo_Condition options) d = Inr ()"
  "patchPropertiesTx now p patches options d = Inr (u, d') \<Longrightarrow> assertWebDAVLocksTx now [p] (mo_Condition options) d = Inr ()"
  "deleteResourceTx now p options d = Inr (u, d') \<Longrightarrow> assertWebDAVTreeLocksTx now [p] (mo_Condition options) d = Inr ()"
  "moveResourceTx now p q overwrite options d = Inr (y, d') \<Longrightarrow> assertWebDAVTreeLocksTx now [p, q] (mo_Condition options) d = Inr ()"
  "copyWebDAVResourceTx idfn now q p overwrite recursive options d = Inr (y, d') \<Longrightarrow>
     assertWebDAVLocksTx now [p] (mo_Condition options) d = Inr () \<or> assertWebDAVTreeLocksTx now [p] (mo_Condition options) d = Inr ()"
       apply (cases x, simp, erule publishDAV_steps, assumption)
      apply (auto simp: createCollectionTx_def assertWebDAVConditionsTx_def bind_result_Inr_iff) []
     apply (auto simp: patchPropertiesTx_def assertWebDAVConditionsTx_def bind_result_Inr_iff split: option.splits) []
    apply (auto simp: deleteResourceTx_def bind_result_Inr_iff split: option.splits) []
   apply (auto simp: moveResourceTx_def bind_result_Inr_iff split: option.splits) []
  apply (auto simp: copyWebDAVResourceTx_def prepareWebDAVCopyDestinationTx_def bind_result_Inr_iff split: option.splits if_splits) []
  done

text \<open>An operation that fails and leaves the database in a given state.\<close>

definition refused :: "db \<Rightarrow> db \<times> 'a result \<Rightarrow> bool" where
  "refused d1 r \<longleftrightarrow> fst r = d1 \<and> isl (snd r)"

lemma after_cleanup_refused:
  assumes "cleanupExpiredWebDAVLocks now d = Inr d1" and "\<And>x d'. tx d1 = Inr (x, d') \<Longrightarrow> A" and "\<not> A"
  shows "refused d1 (after_cleanup now tx d)"
  using assms by (auto simp: after_cleanup_def refused_def split: sum.splits prod.splits)


section \<open>A locked database\<close>

definition lock_request :: "string \<Rightarrow> string \<Rightarrow> string \<Rightarrow> WebDAVLockRequest" where
  "lock_request p depth user = \<lparr>kq_Path = p, kq_Depth = depth, kq_OwnerXML = '''', kq_Principal = user, kq_Timeout = 60000\<rparr>"

definition locked_db :: db where
  "locked_db =
     (case lockWebDAVResourceTx Suc 6 ''t1'' (lock_request ''/b'' ''infinity'' ''alice'') 0 object_db of
        Inr (_, d) \<Rightarrow> d | Inl _ \<Rightarrow> empty_db)"

definition request_with :: "WebDAVIfTerm list \<Rightarrow> WebDAVMutationOptions" where
  "request_with terms =
     \<lparr>mo_Principal = ''bob'',
      mo_Condition = Some \<lparr>wc_IfMatch = '''', wc_IfNoneMatch = '''', wc_IfModifiedSince = None, wc_IfUnmodifiedSince = None,
        wc_IfHeader = (if terms = [] then None else Some \<lparr>ih_Lists = [\<lparr>il_Resource = '''', il_Terms = terms\<rparr>]\<rparr>),
        wc_RequestPath = ''/b/k''\<rparr>,
      mo_MaxEntries = 0, mo_QuotaRoot = ''/'', mo_QuotaBytes = 0\<rparr>"




section \<open>Holders\<close>



section \<open>Writing a file\<close>

lemma replace_effect:
  assumes ok: "dir_ok idfn d" and p: "absolute p" and rep: "txReplace p fsize refdata mtime now d = Inr (e, d')"
  shows "lookup d (items p) = Some e" and "mr_kind e = KindFile"
    and "\<exists>m. lookup d' (items p) = Some m \<and> mr_entry_id m = mr_entry_id e \<and> mr_kind m = KindFile \<and> mr_ref_data m = refdata \<and> mr_size m = fsize"
    and "xs \<noteq> items p \<Longrightarrow> entries d' xs = entries d xs"
proof -
  note tree = dir_okD [OF ok]
  let ?f = "\<lambda>m. if mr_entry_id m = mr_entry_id e then m\<lparr>mr_ref_data := refdata, mr_size := fsize, mr_mtime := mtime\<rparr> else m"
  let ?d = "recordChange p ChangeUpdated now (d\<lparr>mappings := map ?f (mappings d)\<rparr>)"
  obtain q where get: "txGetEntryInfo p d = Inr (q, Some e)" and kind: "mr_kind e = KindFile" and touch: "touchParent p mtime ?d = Inr d'"
    using rep by (auto simp: txReplace_def Let_def bind_result_Inr_iff split: option.splits if_splits)
  show e: "lookup d (items p) = Some e" using txGetEntryInfo_lookup(1) [OF p get] by simp
  show "mr_kind e = KindFile" by (fact kind)
  have place: "same_place m (?f m)" for m by (simp add: same_place_def)
  have look: "lookup ?d xs = map_option ?f (lookup d xs)" for xs
    by (rule lookup_map [OF tree place]) simp
  have tree': "tree_ok (mappings ?d)" using tree_ok_map [of ?f] tree place by simp
  note t = touchParent_tree [OF tree' touch]
  have "lookup ?d (items p) = Some (?f e)" using look e by simp
  then have "entries d' (items p) = Some (bare (?f e))" unfolding t(2) entries_def by (simp only: option.map)
  then obtain m where m: "lookup d' (items p) = Some m" "bare m = bare (?f e)" by (auto simp: entries_def)
  moreover have "mr_entry_id m = mr_entry_id (?f e)" "mr_kind m = mr_kind (?f e)" "mr_ref_data m = mr_ref_data (?f e)" "mr_size m = mr_size (?f e)"
    using m(2) by (auto simp: bare_def dest: arg_cong [where f = mr_entry_id] arg_cong [where f = mr_kind]
        arg_cong [where f = mr_ref_data] arg_cong [where f = mr_size])
  ultimately show "\<exists>m. lookup d' (items p) = Some m \<and> mr_entry_id m = mr_entry_id e \<and> mr_kind m = KindFile \<and> mr_ref_data m = refdata \<and> mr_size m = fsize"
    using kind by auto
  show "entries d' xs = entries d xs" if "xs \<noteq> items p"
  proof (cases "lookup d xs")
    case None
    then show ?thesis unfolding t(2) entries_def look by (simp only: option.map)
  next
    case (Some m)
    have "mr_entry_id m \<noteq> mr_entry_id e"
    proof
      assume "mr_entry_id m = mr_entry_id e"
      then have "m = e" using same_entry_id [OF tree] row_path_in Some e lookup_path [OF tree] by metis
      then have "xs = items p" using Some e lookup_path [OF tree] row_path_unique [OF tree] by blast
      then show False using that by simp
    qed
    then show ?thesis unfolding t(2) entries_def look Some by (simp only: option.map if_False)
  qed
qed

lemma mark_rows:
  assumes "markMappingFilesPending now fs d = Inr d'"
  shows "props d' = props d" and "metas d' = metas d"
proof -
  have "(props d', metas d') = (props d, metas d)"
    using assms unfolding markMappingFilesPending_def
    by (rule fold_result_same [where g = "\<lambda>d. (props d, metas d)"]) (simp add: mark_tables)
  then show "props d' = props d" and "metas d' = metas d" by simp_all
qed

lemma store_effect:
  assumes ids: "good_ids idfn" and ok: "dir_ok idfn d" and p: "absolute p" "components p \<noteq> []"
    and found: "found = lookup d (items p)"
    and store: "storeWebDAVMappingTx idfn now p fileID fsize (found \<noteq> None) d = Inr ((e, created), d')"
  shows "created = (lookup d (items p) = None)" and "props d' = props d"
    and "mr_ref_data e = format_nat fileID" and "mr_size e = fsize" and "mr_kind e = KindFile"
    and "\<exists>m. lookup d' (items p) = Some m \<and> mr_entry_id m = mr_entry_id e \<and> mr_kind m = KindFile \<and> mr_ref_data m = format_nat fileID \<and> mr_size m = fsize"
    and "\<And>old. lookup d (items p) = Some old \<Longrightarrow> mr_entry_id e = mr_entry_id old"
    and "\<And>xs x. xs \<noteq> items p \<Longrightarrow> entries d xs = Some x \<Longrightarrow> entries d' xs = Some x"
proof -
  have "created = (lookup d (items p) = None) \<and> props d' = props d \<and> mr_ref_data e = format_nat fileID \<and> mr_size e = fsize \<and> mr_kind e = KindFile \<and>
    (\<exists>m. lookup d' (items p) = Some m \<and> mr_entry_id m = mr_entry_id e \<and> mr_kind m = KindFile \<and> mr_ref_data m = format_nat fileID \<and> mr_size m = fsize) \<and>
    (\<forall>old. lookup d (items p) = Some old \<longrightarrow> mr_entry_id e = mr_entry_id old) \<and>
    (\<forall>xs x. xs \<noteq> items p \<longrightarrow> entries d xs = Some x \<longrightarrow> entries d' xs = Some x)"
  proof (cases found)
    case None
    then have new: "txCreate idfn now p fsize (format_nat fileID) d = Inr (e, d')" and "created"
      using store by (auto simp: storeWebDAVMappingTx_def bind_result_Inr_iff)
    note c = txCreate_tree [OF ids ok p new] and ce = txCreate_entry [OF ids ok p new]
    have "props d' = props d" using dir_change_txCreate [OF new] dir_frame_tables [of d d'] by (simp add: dir_change_def)
    then show ?thesis using c(4) ce(1-4) None found \<open>created\<close> by auto
  next
    case (Some x)
    then obtain previous d1 fs where rep: "txReplace p fsize (format_nat fileID) now now d = Inr (previous, d1)"
      and stat: "txStat p d1 = Inr (Some e)" and "\<not> created"
      and rest: "(if fs \<noteq> [] \<and> hd fs \<noteq> fileID then markMappingFilesPending now fs (deleteS3Metadata (mr_entry_id e) d1)
         else Inr (deleteS3Metadata (mr_entry_id e) d1)) = Inr d'"
      using store by (auto simp: storeWebDAVMappingTx_def replaceWebDAVMappingTx_def Let_def bind_result_Inr_iff split: option.splits)
    note r = replace_effect [OF ok p(1) rep]
    have e: "lookup d1 (items p) = Some e" using txStat_lookup [OF p(1) stat] by simp
    have same: "mappings d' = mappings d1" "props d' = props d1"
      using rest markMapping_tables mark_rows by (auto simp: deleteS3Metadata_def split: if_splits)
    have "props d1 = props d" using dir_change_txReplace [OF dir_okD [OF ok] rep] dir_frame_tables [of d d1] by (simp add: dir_change_def)
    then show ?thesis using r e Some found \<open>\<not> created\<close> same entries_mappings [OF same(1)] lookup_mappings [OF same(1)] by auto
  qed
  then show "created = (lookup d (items p) = None)" and "props d' = props d"
    and "mr_ref_data e = format_nat fileID" and "mr_size e = fsize" and "mr_kind e = KindFile"
    and "\<exists>m. lookup d' (items p) = Some m \<and> mr_entry_id m = mr_entry_id e \<and> mr_kind m = KindFile \<and> mr_ref_data m = format_nat fileID \<and> mr_size m = fsize"
    and "\<And>old. lookup d (items p) = Some old \<Longrightarrow> mr_entry_id e = mr_entry_id old"
    and "\<And>xs x. xs \<noteq> items p \<Longrightarrow> entries d xs = Some x \<Longrightarrow> entries d' xs = Some x" by blast+
qed

text \<open>
  C20: A file written through WebDAV is served at its path, with its size and with the entity tag made
  of file and size as its S3 metadata. An existing entry keeps its identity, so that its dead
  properties stay; every other path leads where it led, the path is no longer the empty
  placeholder of a lock, and what is served can still be served.
\<close>

theorem PublishDAV_stat:
  assumes "good_ids idfn" and "db_ok idfn d" and "absolute p" and "components p \<noteq> []" and "fileID < 2 ^ 64"
    and "publishWebDAVFileTx idfn mime now p fileID fsize options d = Inr ((link, created), d')"
  shows "lk_FileId link = fileID \<and> lk_FileSize link = fsize \<and> created = (lookup d (items p) = None) \<and>
    (\<exists>i. StatS3Object mime p d' = Inr i \<and> lk_FileId (oi_Link i) = fileID \<and> lk_FileSize (oi_Link i) = fsize \<and>
       lk_EntryID (oi_Link i) = lk_EntryID link \<and> or_etag (oi_Metadata i) = webDAVFileETag fileID fsize) \<and>
    (\<forall>e. lookup d (items p) = Some e \<longrightarrow> lk_EntryID link = mr_entry_id e) \<and> props d' = props d \<and>
    (\<forall>r\<in>set (locks d'). lr_root_path r = Clean p \<longrightarrow> \<not> lr_null r) \<and> db_ok idfn d' \<and>
    (\<forall>xs x. xs \<noteq> items p \<longrightarrow> entries d xs = Some x \<longrightarrow> entries d' xs = Some x)"
proof -
  from assms(6) obtain found current e d1 d2 where stat: "txStat p d = Inr found" and "optional_link p found = Inr current"
    and store: "storeWebDAVMappingTx idfn now p fileID fsize (found \<noteq> None) d = Inr ((e, created), d1)"
    and link: "webDAVEntryToLink p e = Inr link" and ins: "insertS3Metadata (webDAVS3Metadata mime now link) d1 = Inr d2"
    and d': "d' = bind_lock_null (mr_entry_id e) (Clean p) d2" by (rule publishDAV_steps)
  have found: "found = lookup d (items p)" using txStat_lookup [OF assms(3) stat] .
  note s = store_effect [OF assms(1) db_okD(1) [OF assms(2)] assms(3,4) found store]
  have l: "lk_EntryID link = mr_entry_id e" "lk_FileId link = fileID" "lk_FileSize link = fsize" "\<not> lk_IsDir link"
    using link s(3-5) parse_format [OF assms(5)] by (auto simp: webDAVEntryToLink_def bind_result_Inr_iff)
  have same: "mappings d' = mappings d1" "props d' = props d1" "metas d' = metas d2"
    using insert_read(1) [OF ins] by (simp_all add: d' bind_lock_null_def)
  obtain m where m: "lookup d' (items p) = Some m" "mr_entry_id m = mr_entry_id e" "mr_kind m = KindFile"
      "mr_ref_data m = format_nat fileID" "mr_size m = fsize"
    using s(6) lookup_mappings [OF same(1)] by auto
  have read: "readS3Metadata (mr_entry_id m) d' = Some (webDAVS3Metadata mime now link)"
    using insert_read(2) [OF ins] same(3) m(2) l(1) by (simp add: webDAVS3Metadata_def readS3Metadata_def)
  have "dirStat p d' = Inr m" using m(1) dirStat_lookup [OF assms(3)] by blast
  then have "\<exists>i. StatS3Object mime p d' = Inr i \<and> lk_FileId (oi_Link i) = fileID \<and> lk_FileSize (oi_Link i) = fsize \<and>
       lk_EntryID (oi_Link i) = lk_EntryID link \<and> or_etag (oi_Metadata i) = webDAVFileETag fileID fsize"
    using m read l parse_format [OF assms(5)]
    by (simp add: StatS3Object_def object_info_def directoryEntryToLink_def webDAVS3Metadata_def WebDAVETag_def)
  moreover have "\<forall>r\<in>set (locks d'). lr_root_path r = Clean p \<longrightarrow> \<not> lr_null r" by (auto simp: d' bind_lock_null_def)
  moreover have "db_ok idfn d'" using leadsD(2) [OF leads_publishDAV [OF assms(1) leads_refl [OF assms(2)] assms(3-6)]] .
  ultimately show ?thesis using l s(1,2,7,8) same(2) entries_mappings [OF same(1)] by auto
qed

definition no_condition :: WebDAVMutationOptions where
  "no_condition = \<lparr>mo_Principal = ''bob'', mo_Condition = None, mo_MaxEntries = 0, mo_QuotaRoot = ''/'', mo_QuotaBytes = 0\<rparr>"

theorem PublishDAV_stat_witness:
  "\<exists>link d' i. publishWebDAVFileTx Suc plain_mime 7 ''/b/k'' 8 0 no_condition object_db = Inr ((link, False), d') \<and>
     StatS3Object plain_mime ''/b/k'' d' = Inr i \<and> lk_FileId (oi_Link i) = 8"
proof -
  have "(case publishWebDAVFileTx Suc plain_mime 7 ''/b/k'' 8 0 no_condition object_db of Inl _ \<Rightarrow> False | Inr ((_, created), _) \<Rightarrow> \<not> created)" by code_simp
  then obtain link d' where pub: "publishWebDAVFileTx Suc plain_mime 7 ''/b/k'' 8 0 no_condition object_db = Inr ((link, False), d')"
    by (auto split: sum.splits prod.splits)
  have "locks object_db = []" by code_simp
  then have "db_ok Suc object_db" by (simp add: db_ok_def)
  then show ?thesis using PublishDAV_stat [OF good_ids_Suc _ absolute_code _ _ pub] pub by auto
qed

end
