(* ===== verification/S3_Multipart.thy ===== *)
theory S3_Multipart
  imports S3_Object S3_Checksum File_Manager
begin

text \<open>
  Multipart uploads of the S3 interface (\<^verbatim>\<open>filemgr/s3_multipart.go\<close>). An upload is a control row
  with a state and one row per part; every part is a stored file of its own. Completion
  builds a composite file from the parts and publishes it, abortion and expiry give the parts up.
  Each operation is one transaction; an operation that finds its upload expired aborts it and
  commits that before it reports the upload as missing, so the result of an operation is the
  database it leaves together with the value or error. Times and durations are milliseconds.

  The random bytes of an upload identifier are the parameter \<open>rnd\<close>, one draw per attempt.
\<close>

definition maxS3MultipartParts :: int where
  "maxS3MultipartParts = 10000"

definition maxS3MultipartPartSize :: int where
  "maxS3MultipartPartSize = 5 * 1024 * 1024 * 1024"

definition minS3MultipartPartSize :: int where
  "minS3MultipartPartSize = 5 * 1024 * 1024"

definition defaultMultipartExpiry :: int where
  "defaultMultipartExpiry = 24 * 60 * 60 * 1000"

definition multipartControlRetention :: int where
  "multipartControlRetention = 24 * 60 * 60 * 1000"

definition multipartCleanupBatchSize :: nat where
  "multipartCleanupBatchSize = 100"

section \<open>Requests and results\<close>

record CreateMultipartRequest =
  cm_Bucket :: string
  cm_Key :: string
  cm_Metadata :: metadata_row
  cm_ExpireAfter :: int
  cm_Algorithm :: string
  cm_ChecksumType :: string

record MultipartUpload =
  mu_UploadID :: string
  mu_Bucket :: string
  mu_Key :: string
  mu_Initiated :: int
  mu_ExpiresAt :: int
  mu_Algorithm :: string
  mu_ChecksumType :: string

record MultipartTarget =
  mt_UploadID :: string
  mt_Bucket :: string
  mt_Key :: string

record MultipartChecksumSpec =
  ms_Algorithm :: string
  ms_ChecksumType :: string
  ms_Legacy :: bool

record PutMultipartPartRequest =
  pq_UploadID :: string
  pq_Bucket :: string
  pq_Key :: string
  pq_PartNumber :: int
  pq_FileID :: nat
  pq_Size :: int
  pq_ETag :: string
  pq_ChecksumValue :: string
  pq_MaxObjectSize :: int

record MultipartPart =
  mp_PartNumber :: int
  mp_FileID :: nat
  mp_Size :: int
  mp_ETag :: string
  mp_ChecksumValue :: string
  mp_LastModified :: int

record ListMultipartPartsRequest =
  lp_UploadID :: string
  lp_Bucket :: string
  lp_Key :: string
  lp_Marker :: int
  lp_MaxParts :: int

record MultipartPartPage =
  pp_Parts :: "MultipartPart list"
  pp_IsTruncated :: bool
  pp_NextPartNumberMarker :: int
  pp_Algorithm :: string
  pp_ChecksumType :: string
  pp_Legacy :: bool

record CompleteMultipartPart =
  ct_PartNumber :: int
  ct_ETag :: string
  ct_ChecksumAlgorithm :: string
  ct_ChecksumValue :: string

record CompleteMultipartRequest =
  cq_UploadID :: string
  cq_Bucket :: string
  cq_Key :: string
  cq_Parts :: "CompleteMultipartPart list"
  cq_MaxObjectSize :: int
  cq_Condition :: "S3Condition option"
  cq_FinalChecksumAlgorithm :: string
  cq_FinalChecksum :: string
  cq_ChecksumType :: string
  cq_ExpectedSize :: "int option"

record CompleteMultipartResult =
  cx_FileID :: nat
  cx_Size :: int
  cx_ETag :: string
  cx_Algorithm :: string
  cx_ChecksumType :: string
  cx_ChecksumValue :: string

record ListMultipartUploadsRequest =
  lu_Bucket :: string
  lu_Prefix :: string
  lu_Delimiter :: string
  lu_KeyMarker :: string
  lu_UploadIDMarker :: string
  lu_MaxUploads :: int

record MultipartUploadListItem =
  ui_Key :: string
  ui_UploadID :: string
  ui_Initiated :: int
  ui_Algorithm :: string
  ui_ChecksumType :: string

record MultipartUploadPage =
  up_Uploads :: "MultipartUploadListItem list"
  up_CommonPrefixes :: "string list"
  up_IsTruncated :: bool
  up_NextKeyMarker :: string
  up_NextUploadIDMarker :: string

text \<open>\<open>OnTransation\<close>: an error leaves the database as it was.\<close>

definition OnTransation :: "(db \<Rightarrow> ('a \<times> db) result) \<Rightarrow> db \<Rightarrow> db \<times> 'a result" where
  "OnTransation tx d = (case tx d of Inl e \<Rightarrow> (d, Inl e) | Inr (x, d') \<Rightarrow> (d', Inr x))"

section \<open>Creating an upload\<close>

definition resolveCreateMultipartChecksum :: "CreateMultipartRequest \<Rightarrow> (string \<times> string) result" where
  "resolveCreateMultipartChecksum request =
     (case ResolveMultipart (cm_Algorithm request) (cm_ChecksumType request) of
        Inl _ \<Rightarrow> Inl ErrInvalidMultipartRequest
      | Inr p \<Rightarrow> Inr p)"

definition generateMultipartUploadID :: "int \<Rightarrow> byte list \<Rightarrow> string" where
  "generateMultipartUploadID now random = hex_encode (be_put 8 (word_of_int now :: 64 word) @ random)"

definition new_upload :: "CreateMultipartRequest \<Rightarrow> string \<Rightarrow> string \<Rightarrow> string \<Rightarrow> int \<Rightarrow> int \<Rightarrow> upload_row" where
  "new_upload request uploadID algorithm checksumType now expiry =
     (let m = cm_Metadata request
      in \<lparr>ur_upload_id = uploadID, ur_bucket = cm_Bucket request, ur_key = cm_Key request,
          ur_state = UActive, ur_content_type = or_content_type m, ur_cache_control = or_cache_control m,
          ur_content_disposition = or_content_disposition m, ur_content_encoding = or_content_encoding m,
          ur_content_language = or_content_language m, ur_expires = or_expires m,
          ur_user_metadata = or_user_metadata m, ur_checksum_algorithm = algorithm,
          ur_checksum_type = checksumType, ur_fingerprint = '''', ur_result_file_id = 0,
          ur_result_etag = '''', ur_result_checksum = '''', ur_initiated_at = now,
          ur_expires_at = now + expiry, ur_completed_at = 0, ur_cleanup_at = 0, ur_ctime = now, ur_mtime = now\<rparr>)"

text \<open>The draws of the remaining attempts; a draw that fails ends the loop.\<close>

fun createUploadLoop ::
  "CreateMultipartRequest \<Rightarrow> string \<Rightarrow> string \<Rightarrow> int \<Rightarrow> int \<Rightarrow> byte list option list \<Rightarrow> db \<Rightarrow> (string \<times> db) result" where
  "createUploadLoop request algorithm checksumType now expiry [] d = Inl ErrMultipartConflict"
| "createUploadLoop request algorithm checksumType now expiry (draw # draws) d =
     (case draw of
        None \<Rightarrow> Inl ErrRead
      | Some random \<Rightarrow>
          let uploadID = generateMultipartUploadID now random
          in case insert_unique ur_upload_id (new_upload request uploadID algorithm checksumType now expiry) (uploads d) of
               Inr rows \<Rightarrow> Inr (uploadID, d\<lparr>uploads := rows\<rparr>)
             | Inl _ \<Rightarrow> createUploadLoop request algorithm checksumType now expiry draws d)"

definition CreateMultipartUpload ::
  "(nat \<Rightarrow> byte list option) \<Rightarrow> int \<Rightarrow> CreateMultipartRequest \<Rightarrow> db \<Rightarrow> db \<times> MultipartUpload result" where
  "CreateMultipartUpload rnd now request d =
     OnTransation (\<lambda>d.
       if cm_Bucket request = '''' \<or> cm_Key request = '''' then Inl ErrInvalidMultipartRequest
       else
         bind_result (resolveCreateMultipartChecksum request) (\<lambda>(algorithm, checksumType).
         let expiry = (if cm_ExpireAfter request = 0 then defaultMultipartExpiry else cm_ExpireAfter request)
         in if expiry < 60 * 60 * 1000 \<or> expiry > defaultMultipartExpiry then Inl ErrInvalidMultipartRequest
            else
              bind_result (createUploadLoop request algorithm checksumType now expiry (map rnd [0..<3]) d) (\<lambda>(uploadID, d).
              Inr (\<lparr>mu_UploadID = uploadID, mu_Bucket = cm_Bucket request, mu_Key = cm_Key request,
                    mu_Initiated = now, mu_ExpiresAt = now + expiry, mu_Algorithm = algorithm,
                    mu_ChecksumType = checksumType\<rparr>, d)))) d"

section \<open>Finding an upload\<close>

definition readMultipartUpload :: "string \<Rightarrow> db \<Rightarrow> upload_row option" where
  "readMultipartUpload uploadID d = find (\<lambda>u. ur_upload_id u = uploadID) (uploads d)"

definition matchingMultipartUpload :: "upload_row \<Rightarrow> string \<Rightarrow> string \<Rightarrow> bool" where
  "matchingMultipartUpload upload bucket key \<longleftrightarrow> ur_bucket upload = bucket \<and> ur_key upload = key"

definition multipartChecksumSpec :: "upload_row \<Rightarrow> MultipartChecksumSpec result" where
  "multipartChecksumSpec upload =
     (if ur_checksum_algorithm upload = '''' \<and> ur_checksum_type upload = '''' then
        Inr \<lparr>ms_Algorithm = '''', ms_ChecksumType = '''', ms_Legacy = True\<rparr>
      else
        case ParseAlgorithm (ur_checksum_algorithm upload) of
          Inl _ \<Rightarrow> Inl ErrMultipartConflict
        | Inr algorithm \<Rightarrow>
            case ParseType (ur_checksum_type upload) of
              Inl _ \<Rightarrow> Inl ErrMultipartConflict
            | Inr checksumType \<Rightarrow>
                case ValidateCombination algorithm checksumType of
                  Inl _ \<Rightarrow> Inl ErrMultipartConflict
                | Inr _ \<Rightarrow> Inr \<lparr>ms_Algorithm = algorithm, ms_ChecksumType = checksumType, ms_Legacy = False\<rparr>)"

section \<open>Giving an upload up\<close>

definition active_parts :: "string \<Rightarrow> db \<Rightarrow> mpart_row list" where
  "active_parts uploadID d =
     sort_key qr_part_number (filter (\<lambda>q. qr_upload_id q = uploadID \<and> qr_state q = MActive) (mparts d))"

definition listMultipartPartFileIDs :: "string \<Rightarrow> db \<Rightarrow> nat list" where
  "listMultipartPartFileIDs uploadID d = map qr_file_id (active_parts uploadID d)"

text \<open>\<open>UPDATE\<close> of the control row in a given state, which has to find exactly one row.\<close>

definition update_upload :: "(upload_row \<Rightarrow> bool) \<Rightarrow> (upload_row \<Rightarrow> upload_row) \<Rightarrow> db \<Rightarrow> db result" where
  "update_upload P f d =
     (if length (filter P (uploads d)) \<noteq> 1 then Inl ErrMultipartConflict
      else Inr (d\<lparr>uploads := map (\<lambda>u. if P u then f u else u) (uploads d)\<rparr>))"

definition discard_parts :: "string \<Rightarrow> int \<Rightarrow> db \<Rightarrow> db" where
  "discard_parts uploadID now d =
     d\<lparr>mparts := map (\<lambda>q. if qr_upload_id q = uploadID \<and> qr_state q = MActive
        then q\<lparr>qr_state := MDiscarded, qr_mtime := now\<rparr> else q) (mparts d)\<rparr>"

definition abortMultipartUploadTx :: "upload_row \<Rightarrow> int \<Rightarrow> db \<Rightarrow> db result" where
  "abortMultipartUploadTx upload now d =
     (let fileIDs = listMultipartPartFileIDs (ur_upload_id upload) d
      in bind_result
           (update_upload (\<lambda>u. ur_upload_id u = ur_upload_id upload \<and> ur_state u = UActive)
              (\<lambda>u. u\<lparr>ur_state := UAborted, ur_cleanup_at := now + multipartControlRetention, ur_mtime := now\<rparr>) d) (\<lambda>d.
         fold_result (\<lambda>fileID. markFileTreePendingIfUnreferenced fileID now) fileIDs
           (discard_parts (ur_upload_id upload) now d)))"

text \<open>Whether the upload was expired comes with it.\<close>

definition ensureActiveMultipartUpload ::
  "string \<Rightarrow> string \<Rightarrow> string \<Rightarrow> int \<Rightarrow> db \<Rightarrow> ((upload_row \<times> bool) \<times> db) result" where
  "ensureActiveMultipartUpload uploadID bucket key now d =
     (case readMultipartUpload uploadID d of
        None \<Rightarrow> Inl ErrNoSuchUpload
      | Some upload \<Rightarrow>
          if \<not> matchingMultipartUpload upload bucket key \<or> ur_state upload \<noteq> UActive then Inl ErrNoSuchUpload
          else if ur_expires_at upload > now then Inr ((upload, False), d)
          else bind_result (abortMultipartUploadTx upload now d) (\<lambda>d. Inr ((upload, True), d)))"

text \<open>The value of a transaction whose upload may have been expired (\<open>None\<close>).\<close>

definition unless_expired :: "db \<times> 'a option result \<Rightarrow> db \<times> 'a result" where
  "unless_expired r =
     (case r of
        (d, Inl e) \<Rightarrow> (d, Inl e)
      | (d, Inr None) \<Rightarrow> (d, Inl ErrNoSuchUpload)
      | (d, Inr (Some x)) \<Rightarrow> (d, Inr x))"

definition PrepareMultipartPart :: "int \<Rightarrow> MultipartTarget \<Rightarrow> db \<Rightarrow> db \<times> MultipartChecksumSpec result" where
  "PrepareMultipartPart now request d =
     (if mt_UploadID request = '''' \<or> mt_Bucket request = '''' \<or> mt_Key request = '''' then
        (d, Inl ErrInvalidMultipartRequest)
      else
        case unless_expired (OnTransation (\<lambda>d.
               bind_result (ensureActiveMultipartUpload (mt_UploadID request) (mt_Bucket request) (mt_Key request) now d)
                 (\<lambda>((upload, expired), d). Inr (if expired then None else Some upload, d))) d) of
          (d, Inl e) \<Rightarrow> (d, Inl e)
        | (d, Inr upload) \<Rightarrow> (d, multipartChecksumSpec upload))"

definition AbortMultipartUpload :: "int \<Rightarrow> MultipartTarget \<Rightarrow> db \<Rightarrow> db \<times> unit result" where
  "AbortMultipartUpload now request d =
     (if mt_UploadID request = '''' \<or> mt_Bucket request = '''' \<or> mt_Key request = '''' then
        (d, Inl ErrInvalidMultipartRequest)
      else
        OnTransation (\<lambda>d.
          case readMultipartUpload (mt_UploadID request) d of
            None \<Rightarrow> Inl ErrNoSuchUpload
          | Some upload \<Rightarrow>
              if \<not> matchingMultipartUpload upload (mt_Bucket request) (mt_Key request) then Inl ErrNoSuchUpload
              else
                case ur_state upload of
                  UAborted \<Rightarrow> Inr ((), d)
                | UCompleted \<Rightarrow> Inl ErrNoSuchUpload
                | UActive \<Rightarrow> bind_result (abortMultipartUploadTx upload now d) (\<lambda>d. Inr ((), d))
                | UCompleting \<Rightarrow> Inl ErrMultipartConflict) d)"

section \<open>Registering a part\<close>

definition validatePutMultipartPartRequest :: "PutMultipartPartRequest \<Rightarrow> unit result" where
  "validatePutMultipartPartRequest request =
     (if pq_UploadID request = '''' \<or> pq_Bucket request = '''' \<or> pq_Key request = '''' \<or>
         pq_PartNumber request < 1 \<or> pq_PartNumber request > maxS3MultipartParts \<or>
         pq_Size request < 0 \<or> pq_Size request > maxS3MultipartPartSize \<or>
         length (pq_ETag request) \<noteq> 32 then Inl ErrInvalidMultipartRequest
      else if hex_decode (pq_ETag request) = None \<or> pq_ETag request \<noteq> ToLower (pq_ETag request) then
        Inl ErrInvalidMultipartRequest
      else Inr ())"

definition validateStoredMultipartPartChecksum :: "upload_row \<Rightarrow> string \<Rightarrow> unit result" where
  "validateStoredMultipartPartChecksum upload value =
     bind_result (multipartChecksumSpec upload) (\<lambda>spec.
       if ms_Legacy spec then guard_err (value = '''') ErrInvalidMultipartRequest
       else if value = '''' then Inl ErrInvalidMultipartRequest
       else case Decode (ms_Algorithm spec) value of
              Inl _ \<Rightarrow> Inl ErrInvalidMultipartRequest
            | Inr _ \<Rightarrow> Inr ())"

text \<open>
  The three counts of the joined query: a part contributes one row if it has no deletion state and
  one row per state otherwise.
\<close>

definition part_states :: "part_row \<Rightarrow> db \<Rightarrow> delete_row list" where
  "part_states p d = filter (\<lambda>r. dr_file_id r = pr_file_id p \<and> dr_part_id r = pr_part_id p) (deletes d)"

definition ensureMultipartStagingFileLive :: "nat \<Rightarrow> int \<Rightarrow> db \<Rightarrow> unit result" where
  "ensureMultipartStagingFileLive fileID partCount d =
     (let ps = filter (\<lambda>p. pr_file_id p = fileID) (parts d);
          physicalParts = sum_list (map (\<lambda>p. max 1 (int (length (part_states p d)))) ps);
          deleteStates = sum_list (map (\<lambda>p. int (length (part_states p d))) ps);
          nonLive = sum_list (map (\<lambda>p. int (length (filter (\<lambda>r. dr_state r \<noteq> Live) (part_states p d)))) ps)
      in guard_err (physicalParts = partCount \<and> deleteStates = partCount \<and> nonLive = 0) ErrInvalidMultipartPart)"

definition mapping_count :: "nat \<Rightarrow> db \<Rightarrow> nat" where
  "mapping_count fileID d = length (filter (\<lambda>m. mr_ref_data m = format_nat fileID) (mappings d))"

definition validateMultipartStagingFile :: "nat \<Rightarrow> int \<Rightarrow> db \<Rightarrow> file_row result" where
  "validateMultipartStagingFile fileID fsize d =
     (case readStoredFile fileID d of
        None \<Rightarrow> Inl ErrInvalidMultipartPart
      | Some record \<Rightarrow>
          if fr_state record \<noteq> FileStateReady \<or> fr_layout record \<noteq> 1 \<or> fr_size record \<noteq> fsize then
            Inl ErrInvalidMultipartPart
          else
            bind_result (ensureMultipartStagingFileLive fileID (fr_part_count record) d) (\<lambda>_.
            if mapping_count fileID d \<noteq> 0 then Inl ErrInvalidMultipartPart else Inr record))"

record replacedMultipartPart =
  rp_fileID :: nat
  rp_size :: int
  rp_partCount :: int

text \<open>The join of the active parts of an upload with their files, in the order of the table.\<close>

definition active_join :: "string \<Rightarrow> db \<Rightarrow> (mpart_row \<times> file_row) list" where
  "active_join uploadID d =
     concat (map (\<lambda>q. map (\<lambda>f. (q, f)) (filter (\<lambda>f. fr_file_id f = qr_file_id q) (files d)))
       (filter (\<lambda>q. qr_upload_id q = uploadID \<and> qr_state q = MActive) (mparts d)))"

definition readReplacedMultipartPart :: "string \<Rightarrow> int \<Rightarrow> db \<Rightarrow> replacedMultipartPart" where
  "readReplacedMultipartPart uploadID partNumber d =
     (case find (\<lambda>(q, f). qr_part_number q = partNumber) (active_join uploadID d) of
        None \<Rightarrow> \<lparr>rp_fileID = 0, rp_size = 0, rp_partCount = 0\<rparr>
      | Some (q, f) \<Rightarrow> \<lparr>rp_fileID = qr_file_id q, rp_size = qr_size q, rp_partCount = fr_part_count f\<rparr>)"

definition multipartObjectSizeLimit :: "int \<Rightarrow> int \<Rightarrow> int" where
  "multipartObjectSizeLimit configured blockSize =
     (if configured > 0 then configured
      else if blockSize \<le> 0 \<or> blockSize > (2 ^ 63 - 1) div maxFilePartCount then 2 ^ 63 - 1
      else blockSize * maxFilePartCount)"

definition validateMultipartStagingTotals ::
  "int \<Rightarrow> PutMultipartPartRequest \<Rightarrow> file_row \<Rightarrow> replacedMultipartPart \<Rightarrow> db \<Rightarrow> unit result" where
  "validateMultipartStagingTotals blockSize request record previous d =
     (let joined = active_join (pq_UploadID request) d;
          totalSize = sum_list (map (\<lambda>(q, f). qr_size q) joined) - rp_size previous + pq_Size request;
          totalPartCount = sum_list (map (\<lambda>(q, f). fr_part_count f) joined) - rp_partCount previous + fr_part_count record
      in if totalSize > multipartObjectSizeLimit (pq_MaxObjectSize request) blockSize then Inl ErrMultipartEntityTooLarge
         else if totalPartCount > maxFilePartCount then Inl ErrTooManyFileParts
         else Inr ())"

text \<open>The table has the key \<open>(upload_id, part_number)\<close> and a unique index on \<open>file_id\<close>.\<close>

definition insertMultipartPart :: "PutMultipartPartRequest \<Rightarrow> int \<Rightarrow> db \<Rightarrow> db result" where
  "insertMultipartPart request now d =
     (let row = \<lparr>qr_upload_id = pq_UploadID request, qr_part_number = pq_PartNumber request, qr_state = MActive,
                qr_file_id = pq_FileID request, qr_size = pq_Size request, qr_etag = pq_ETag request,
                qr_checksum = pq_ChecksumValue request, qr_uploaded_at = now, qr_ctime = now, qr_mtime = now\<rparr>
      in bind_result (insert_unique (\<lambda>q. (qr_upload_id q, qr_part_number q)) row (mparts d)) (\<lambda>_.
         bind_result (insert_unique qr_file_id row (mparts d)) (\<lambda>rows.
         Inr (d\<lparr>mparts := rows\<rparr>))))"

definition upsertMultipartPart :: "PutMultipartPartRequest \<Rightarrow> nat \<Rightarrow> int \<Rightarrow> db \<Rightarrow> db result" where
  "upsertMultipartPart request previousFileID now d =
     (if previousFileID = 0 then insertMultipartPart request now d
      else
        let target = (\<lambda>q. qr_upload_id q = pq_UploadID request \<and> qr_part_number q = pq_PartNumber request \<and>
                          qr_state q = MActive)
        in bind_result (update_unique qr_file_id target
             (\<lambda>q. q\<lparr>qr_file_id := pq_FileID request, qr_size := pq_Size request, qr_etag := pq_ETag request,
                    qr_checksum := pq_ChecksumValue request, qr_uploaded_at := now, qr_mtime := now\<rparr>) (mparts d)) (\<lambda>rows.
           if length (filter target (mparts d)) \<noteq> 1 then Inl ErrMultipartConflict
           else Inr (d\<lparr>mparts := rows\<rparr>)))"

definition putMultipartPartTx :: "int \<Rightarrow> PutMultipartPartRequest \<Rightarrow> int \<Rightarrow> db \<Rightarrow> (unit option \<times> db) result" where
  "putMultipartPartTx blockSize request now d =
     bind_result (ensureActiveMultipartUpload (pq_UploadID request) (pq_Bucket request) (pq_Key request) now d)
       (\<lambda>((upload, expired), d).
     if expired then Inr (None, d)
     else
       bind_result (validateStoredMultipartPartChecksum upload (pq_ChecksumValue request)) (\<lambda>_.
       bind_result (validateMultipartStagingFile (pq_FileID request) (pq_Size request) d) (\<lambda>record.
       let previous = readReplacedMultipartPart (pq_UploadID request) (pq_PartNumber request) d
       in bind_result (validateMultipartStagingTotals blockSize request record previous d) (\<lambda>_.
          bind_result (upsertMultipartPart request (rp_fileID previous) now d) (\<lambda>d.
          if rp_fileID previous \<noteq> 0 \<and> rp_fileID previous \<noteq> pq_FileID request then
            bind_result (markFileTreePendingIfUnreferenced (rp_fileID previous) now d) (\<lambda>d. Inr (Some (), d))
          else Inr (Some (), d))))))"

definition PutMultipartPart :: "int \<Rightarrow> int \<Rightarrow> PutMultipartPartRequest \<Rightarrow> db \<Rightarrow> db \<times> MultipartPart result" where
  "PutMultipartPart blockSize now request d =
     (case validatePutMultipartPartRequest request of
        Inl e \<Rightarrow> (d, Inl e)
      | Inr _ \<Rightarrow>
          case unless_expired (OnTransation (putMultipartPartTx blockSize request now) d) of
            (d, Inl e) \<Rightarrow> (d, Inl e)
          | (d, Inr _) \<Rightarrow>
              (d, Inr \<lparr>mp_PartNumber = pq_PartNumber request, mp_FileID = pq_FileID request, mp_Size = pq_Size request,
                       mp_ETag = pq_ETag request, mp_ChecksumValue = pq_ChecksumValue request, mp_LastModified = now\<rparr>))"

section \<open>Listing the parts of an upload\<close>

definition part_of_row :: "mpart_row \<Rightarrow> MultipartPart" where
  "part_of_row q =
     \<lparr>mp_PartNumber = qr_part_number q, mp_FileID = qr_file_id q, mp_Size = qr_size q, mp_ETag = qr_etag q,
      mp_ChecksumValue = qr_checksum q, mp_LastModified = qr_uploaded_at q\<rparr>"

definition empty_part_page :: MultipartPartPage where
  "empty_part_page = \<lparr>pp_Parts = [], pp_IsTruncated = False, pp_NextPartNumberMarker = 0, pp_Algorithm = '''',
     pp_ChecksumType = '''', pp_Legacy = False\<rparr>"

definition readMultipartPartPage :: "ListMultipartPartsRequest \<Rightarrow> db \<Rightarrow> MultipartPartPage" where
  "readMultipartPartPage request d =
     (let rows = take (nat (lp_MaxParts request + 1))
                   (filter (\<lambda>q. qr_part_number q > lp_Marker request) (active_parts (lp_UploadID request) d));
          shown = map part_of_row (take (nat (lp_MaxParts request)) rows);
          truncated = (length rows > nat (lp_MaxParts request))
      in empty_part_page\<lparr>pp_Parts := shown, pp_IsTruncated := truncated,
           pp_NextPartNumberMarker := (if truncated \<and> shown \<noteq> [] then mp_PartNumber (last shown) else 0)\<rparr>)"

definition ListMultipartParts :: "int \<Rightarrow> ListMultipartPartsRequest \<Rightarrow> db \<Rightarrow> db \<times> MultipartPartPage result" where
  "ListMultipartParts now request d =
     (if lp_UploadID request = '''' \<or> lp_Bucket request = '''' \<or> lp_Key request = '''' \<or>
         lp_Marker request < 0 \<or> lp_Marker request > maxS3MultipartParts \<or>
         lp_MaxParts request < 0 \<or> lp_MaxParts request > 1000 then (d, Inl ErrInvalidMultipartRequest)
      else
        case unless_expired (OnTransation (\<lambda>d.
               bind_result (ensureActiveMultipartUpload (lp_UploadID request) (lp_Bucket request) (lp_Key request) now d)
                 (\<lambda>((upload, expired), d).
                    Inr (if expired then None
                         else Some (upload, if lp_MaxParts request = 0 then empty_part_page
                                            else readMultipartPartPage request d), d))) d) of
          (d, Inl e) \<Rightarrow> (d, Inl e)
        | (d, Inr (upload, page)) \<Rightarrow>
            (d, bind_result (multipartChecksumSpec upload) (\<lambda>spec.
                  Inr (page\<lparr>pp_Algorithm := ms_Algorithm spec, pp_ChecksumType := ms_ChecksumType spec,
                            pp_Legacy := ms_Legacy spec\<rparr>))))"

section \<open>Checking a completion request\<close>

fun completePartsLoop :: "int \<Rightarrow> CompleteMultipartPart list \<Rightarrow> unit result" where
  "completePartsLoop previous [] = Inr ()"
| "completePartsLoop previous (part # rest) =
     (if ct_PartNumber part \<le> previous then Inl ErrInvalidPartOrder
      else if ct_PartNumber part < 1 \<or> ct_PartNumber part > maxS3MultipartParts \<or> length (ct_ETag part) \<noteq> 32 then
        Inl ErrInvalidMultipartPart
      else
        case hex_decode (ct_ETag part) of
          None \<Rightarrow> Inl ErrInvalidMultipartPart
        | Some decoded \<Rightarrow>
            if length decoded \<noteq> 16 \<or> ct_ETag part \<noteq> ToLower (ct_ETag part) then Inl ErrInvalidMultipartPart
            else completePartsLoop (ct_PartNumber part) rest)"

definition validateCompleteMultipartRequest :: "CompleteMultipartRequest \<Rightarrow> unit result" where
  "validateCompleteMultipartRequest request =
     (if cq_UploadID request = '''' \<or> cq_Bucket request = '''' \<or> cq_Key request = '''' \<or>
         cq_Parts request = [] \<or> int (length (cq_Parts request)) > maxS3MultipartParts then
        Inl ErrInvalidMultipartRequest
      else completePartsLoop 0 (cq_Parts request))"

definition fingerprint_line :: "CompleteMultipartPart \<Rightarrow> string" where
  "fingerprint_line part = Itoa (ct_PartNumber part) @ '':'' @ ct_ETag part @ [CHR 0x0A]"

definition multipartCompletionFingerprint :: "CompleteMultipartPart list \<Rightarrow> string" where
  "multipartCompletionFingerprint ps = hex_encode (sha256 (bytes_of_string (concat (map fingerprint_line ps))))"

definition validateLegacyCompleteChecksumRequest :: "CompleteMultipartRequest \<Rightarrow> unit result" where
  "validateLegacyCompleteChecksumRequest request =
     (if cq_FinalChecksumAlgorithm request \<noteq> '''' \<or> cq_FinalChecksum request \<noteq> '''' \<or>
         cq_ChecksumType request \<noteq> '''' \<or> cq_ExpectedSize request \<noteq> None then Inl ErrInvalidMultipartRequest
      else guard_err (\<forall>part\<in>set (cq_Parts request). ct_ChecksumAlgorithm part = '''' \<and> ct_ChecksumValue part = '''')
             ErrInvalidMultipartRequest)"

definition validateCompleteChecksumHeaders :: "MultipartChecksumSpec \<Rightarrow> CompleteMultipartRequest \<Rightarrow> unit result" where
  "validateCompleteChecksumHeaders spec request =
     (if cq_FinalChecksumAlgorithm request \<noteq> '''' \<and> cq_FinalChecksumAlgorithm request \<noteq> ms_Algorithm spec then
        Inl ErrInvalidMultipartRequest
      else if cq_ChecksumType request \<noteq> '''' \<and> cq_ChecksumType request \<noteq> ms_ChecksumType spec then
        Inl ErrMultipartChecksumType
      else if cq_FinalChecksum request \<noteq> '''' \<and> isl (Decode (ms_Algorithm spec) (cq_FinalChecksum request)) then
        Inl ErrInvalidMultipartRequest
      else if (case cq_ExpectedSize request of None \<Rightarrow> False | Some n \<Rightarrow> n < 0) then Inl ErrInvalidMultipartRequest
      else Inr ())"

fun completePartChecksumsLoop :: "MultipartChecksumSpec \<Rightarrow> int \<Rightarrow> CompleteMultipartPart list \<Rightarrow> unit result" where
  "completePartChecksumsLoop spec index [] = Inr ()"
| "completePartChecksumsLoop spec index (part # rest) =
     (if ct_ChecksumAlgorithm part \<noteq> '''' \<and> ct_ChecksumAlgorithm part \<noteq> ms_Algorithm spec then Inl ErrInvalidMultipartPart
      else if ms_ChecksumType spec = TypeComposite \<and> ct_PartNumber part \<noteq> index + 1 then Inl ErrInvalidPartOrder
      else if ms_ChecksumType spec = TypeComposite \<and> ct_ChecksumValue part = '''' then Inl ErrInvalidMultipartPart
      else if ct_ChecksumValue part \<noteq> '''' \<and> isl (Decode (ms_Algorithm spec) (ct_ChecksumValue part)) then
        Inl ErrInvalidMultipartPart
      else completePartChecksumsLoop spec (index + 1) rest)"

definition validateCompletePartChecksums :: "MultipartChecksumSpec \<Rightarrow> CompleteMultipartPart list \<Rightarrow> unit result" where
  "validateCompletePartChecksums spec ps = completePartChecksumsLoop spec 0 ps"

definition validateCompleteChecksumRequest :: "upload_row \<Rightarrow> CompleteMultipartRequest \<Rightarrow> unit result" where
  "validateCompleteChecksumRequest upload request =
     bind_result (multipartChecksumSpec upload) (\<lambda>spec.
       if ms_Legacy spec then validateLegacyCompleteChecksumRequest request
       else
         bind_result (validateCompleteChecksumHeaders spec request) (\<lambda>_.
         validateCompletePartChecksums spec (cq_Parts request)))"

definition validateFinalChecksum :: "upload_row \<Rightarrow> CompleteMultipartRequest \<Rightarrow> string \<Rightarrow> unit result" where
  "validateFinalChecksum upload request storedValue =
     (if cq_FinalChecksum request = '''' then Inr ()
      else
        bind_result (multipartChecksumSpec upload) (\<lambda>spec.
        bind_result
          (if ms_ChecksumType spec = TypeComposite then
             (case ParseCompositeStored (ms_Algorithm spec) storedValue (int (length (cq_Parts request))) of
                Inl _ \<Rightarrow> Inl ErrMultipartConflict
              | Inr v \<Rightarrow> Inr v)
           else Inr storedValue) (\<lambda>expected.
        guard_err (cq_FinalChecksum request = expected) ErrMultipartChecksum)))"

section \<open>Repeating a completion\<close>

fun completedChecksumsLoop :: "string \<Rightarrow> db \<Rightarrow> CompleteMultipartPart list \<Rightarrow> unit result" where
  "completedChecksumsLoop uploadID d [] = Inr ()"
| "completedChecksumsLoop uploadID d (requested # rest) =
     (case find (\<lambda>q. qr_upload_id q = uploadID \<and> qr_part_number q = ct_PartNumber requested \<and> qr_state q = MSelected) (mparts d) of
        None \<Rightarrow> Inl ErrMultipartConflict
      | Some q \<Rightarrow>
          if qr_etag q \<noteq> ct_ETag requested \<or> ct_ChecksumValue requested \<noteq> '''' \<and> ct_ChecksumValue requested \<noteq> qr_checksum q
          then Inl ErrInvalidMultipartPart
          else completedChecksumsLoop uploadID d rest)"

definition validateCompletedPartChecksums :: "upload_row \<Rightarrow> CompleteMultipartRequest \<Rightarrow> db \<Rightarrow> unit result" where
  "validateCompletedPartChecksums upload request d =
     bind_result (multipartChecksumSpec upload) (\<lambda>spec.
       if ms_Legacy spec then Inr () else completedChecksumsLoop (cq_UploadID request) d (cq_Parts request))"

definition readCompletedMultipartResult ::
  "upload_row \<Rightarrow> CompleteMultipartRequest \<Rightarrow> string \<Rightarrow> db \<Rightarrow> CompleteMultipartResult result" where
  "readCompletedMultipartResult upload request fingerprint d =
     (if ur_fingerprint upload \<noteq> fingerprint then Inl ErrNoSuchUpload
      else
        case readStoredFile (ur_result_file_id upload) d of
          None \<Rightarrow> Inl ErrMultipartConflict
        | Some record \<Rightarrow>
            bind_result (validateCompleteChecksumRequest upload request) (\<lambda>_.
            if (case cq_ExpectedSize request of None \<Rightarrow> False | Some n \<Rightarrow> n \<noteq> fr_size record) then Inl ErrMultipartObjectSize
            else
              bind_result (validateCompletedPartChecksums upload request d) (\<lambda>_.
              bind_result (validateFinalChecksum upload request (ur_result_checksum upload)) (\<lambda>_.
              bind_result (multipartChecksumSpec upload) (\<lambda>spec.
              Inr \<lparr>cx_FileID = ur_result_file_id upload, cx_Size = fr_size record, cx_ETag = ur_result_etag upload,
                   cx_Algorithm = ms_Algorithm spec, cx_ChecksumType = ms_ChecksumType spec,
                   cx_ChecksumValue = ur_result_checksum upload\<rparr>)))))"

section \<open>Completing an upload\<close>

definition claimMultipartCompletion :: "string \<Rightarrow> int \<Rightarrow> db \<Rightarrow> db result" where
  "claimMultipartCompletion uploadID now d =
     update_upload (\<lambda>u. ur_upload_id u = uploadID \<and> ur_state u = UActive \<and> ur_expires_at u > now)
       (\<lambda>u. u\<lparr>ur_state := UCompleting, ur_mtime := now\<rparr>) d"

definition readCompletionPart :: "string \<Rightarrow> int \<Rightarrow> db \<Rightarrow> (MultipartPart \<times> file_row) result" where
  "readCompletionPart uploadID partNumber d =
     (case find (\<lambda>(q, f). qr_part_number q = partNumber) (active_join uploadID d) of
        None \<Rightarrow> Inl ErrInvalidMultipartPart
      | Some (q, f) \<Rightarrow> Inr ((part_of_row q)\<lparr>mp_LastModified := 0\<rparr>, f))"

definition validateCompletionPart ::
  "MultipartChecksumSpec \<Rightarrow> CompleteMultipartPart \<Rightarrow> MultipartPart \<Rightarrow> file_row \<Rightarrow> bool \<Rightarrow> db \<Rightarrow> unit result" where
  "validateCompletionPart spec requested part record isLast d =
     (if mp_ETag part \<noteq> ct_ETag requested then Inl ErrInvalidMultipartPart
      else if \<not> ms_Legacy spec \<and> mp_ChecksumValue part = '''' then Inl ErrMultipartConflict
      else if \<not> ms_Legacy spec \<and> ct_ChecksumValue requested \<noteq> '''' \<and> ct_ChecksumValue requested \<noteq> mp_ChecksumValue part then
        Inl ErrInvalidMultipartPart
      else if fr_state record \<noteq> FileStateReady \<or> fr_layout record \<noteq> 1 then Inl ErrInvalidMultipartPart
      else if \<not> isLast \<and> mp_Size part < minS3MultipartPartSize then Inl ErrMultipartPartTooSmall
      else
        bind_result (ensureMultipartStagingFileLive (mp_FileID part) (fr_part_count record) d) (\<lambda>_.
        guard_err (mapping_count (mp_FileID part) d = 0) ErrInvalidMultipartPart))"

text \<open>The loop over the requested parts, with the parts and the two totals so far.\<close>

fun completionLoop ::
  "MultipartChecksumSpec \<Rightarrow> string \<Rightarrow> db \<Rightarrow> CompleteMultipartPart list \<Rightarrow> MultipartPart list \<Rightarrow> int \<Rightarrow> int
     \<Rightarrow> (MultipartPart list \<times> int \<times> int) result" where
  "completionLoop spec uploadID d [] selected totalSize totalPartCount = Inr (selected, totalSize, totalPartCount)"
| "completionLoop spec uploadID d (requested # rest) selected totalSize totalPartCount =
     bind_result (readCompletionPart uploadID (ct_PartNumber requested) d) (\<lambda>(part, record).
     bind_result (validateCompletionPart spec requested part record (rest = []) d) (\<lambda>_.
     if totalSize > maxS3MultipartPartSize * maxS3MultipartParts - mp_Size part then Inl ErrInvalidMultipartPart
     else completionLoop spec uploadID d rest (selected @ [part]) (totalSize + mp_Size part)
            (totalPartCount + fr_part_count record)))"

definition loadCompletionParts ::
  "CompleteMultipartRequest \<Rightarrow> upload_row \<Rightarrow> db \<Rightarrow> (MultipartPart list \<times> int \<times> int) result" where
  "loadCompletionParts request upload d =
     bind_result (multipartChecksumSpec upload) (\<lambda>spec.
       completionLoop spec (cq_UploadID request) d (cq_Parts request) [] 0 0)"

text \<open>The segment table has the key \<open>(file_id, segment_index)\<close> and a unique index on the source.\<close>

definition insert_segment :: "segment_row \<Rightarrow> db \<Rightarrow> db result" where
  "insert_segment row d =
     bind_result (insert_unique (\<lambda>s. (sr_file_id s, sr_index s)) row (segments d)) (\<lambda>_.
     bind_result (insert_unique sr_source row (segments d)) (\<lambda>rows.
     Inr (d\<lparr>segments := rows\<rparr>)))"

definition insertCompositeFile ::
  "nat \<Rightarrow> MultipartPart list \<Rightarrow> int \<Rightarrow> int \<Rightarrow> int \<Rightarrow> db \<Rightarrow> db result" where
  "insertCompositeFile finalFileID selected totalSize totalPartCount now d =
     bind_result
       (insert_unique fr_file_id
          \<lparr>fr_id = Suc (file_seq d), fr_file_id = finalFileID, fr_size = totalSize, fr_part_count = totalPartCount,
           fr_state = FileStateReady, fr_ctime = now, fr_mtime = now, fr_extinfo = ''{}'', fr_layout = 2\<rparr> (files d)) (\<lambda>rows.
     fold_result (\<lambda>(index, part).
         insert_segment \<lparr>sr_file_id = finalFileID, sr_index = index, sr_source = mp_FileID part, sr_size = mp_Size part,
                         sr_ctime = now, sr_mtime = now\<rparr>)
       (enumerate 0 selected) (d\<lparr>files := rows, file_seq := Suc (file_seq d)\<rparr>))"

text \<open>The \<open>CHECK\<close> clauses of the table: a positive file, and a checksum just if it is available.\<close>

definition insert_completed :: "completed_row \<Rightarrow> db \<Rightarrow> db result" where
  "insert_completed row d =
     (if cr_file_id row = 0 \<or> cr_available row \<and> (cr_algorithm row = '''' \<or> cr_value row = '''') \<or>
         \<not> cr_available row \<and> (cr_algorithm row \<noteq> '''' \<or> cr_value row \<noteq> '''') then Inl ErrCheck
      else
        bind_result (insert_unique (\<lambda>c. (cr_file_id c, cr_part_number c)) row (completed d)) (\<lambda>rows.
        Inr (d\<lparr>completed := rows\<rparr>)))"

definition insertCompletedPartManifest ::
  "nat \<Rightarrow> upload_row \<Rightarrow> MultipartPart list \<Rightarrow> int \<Rightarrow> db \<Rightarrow> db result" where
  "insertCompletedPartManifest finalFileID upload selected now d =
     (let available = (ur_checksum_algorithm upload \<noteq> '''')
      in fold_result (\<lambda>(index, part).
           insert_completed \<lparr>cr_file_id = finalFileID, cr_part_number = int index + 1, cr_size = mp_Size part,
             cr_available = available,
             cr_algorithm = (if available then ur_checksum_algorithm upload else ''''),
             cr_value = (if available then mp_ChecksumValue part else ''''), cr_ctime = now, cr_mtime = now\<rparr>)
         (enumerate 0 selected) d)"

fun etagBytes :: "MultipartPart list \<Rightarrow> byte list result" where
  "etagBytes [] = Inr []"
| "etagBytes (part # rest) =
     (case hex_decode (mp_ETag part) of
        None \<Rightarrow> Inl ErrInvalidMultipartPart
      | Some raw \<Rightarrow>
          if length raw \<noteq> 16 then Inl ErrInvalidMultipartPart
          else bind_result (etagBytes rest) (\<lambda>bs. Inr (raw @ bs)))"

definition multipartETag :: "MultipartPart list \<Rightarrow> string result" where
  "multipartETag ps =
     bind_result (etagBytes ps) (\<lambda>bs.
       Inr ([CHR 0x22] @ hex_encode (md5 bs) @ ''-'' @ Itoa (int (length ps)) @ [CHR 0x22]))"

definition calculateMultipartChecksum :: "upload_row \<Rightarrow> MultipartPart list \<Rightarrow> string result" where
  "calculateMultipartChecksum upload ps =
     bind_result (multipartChecksumSpec upload) (\<lambda>spec.
       if ms_Legacy spec then Inr ''''
       else if ms_ChecksumType spec = TypeFullObject then
         FullObject (ms_Algorithm spec) (map (\<lambda>part. \<lparr>Value = mp_ChecksumValue part, PSize = mp_Size part\<rparr>) ps)
       else
         bind_result (Composite (ms_Algorithm spec) (map mp_ChecksumValue ps)) (\<lambda>(_, storedValue). Inr storedValue))"

definition multipartObjectMetadata :: "upload_row \<Rightarrow> string \<Rightarrow> string \<Rightarrow> metadata_row" where
  "multipartObjectMetadata upload etag checksumValue =
     \<lparr>or_entry_id = 0, or_etag = etag, or_sha256 = '''', or_checksum_algorithm = ur_checksum_algorithm upload,
      or_checksum_value = checksumValue, or_checksum_type = ur_checksum_type upload,
      or_content_type = ur_content_type upload, or_cache_control = ur_cache_control upload,
      or_content_disposition = ur_content_disposition upload, or_content_encoding = ur_content_encoding upload,
      or_content_language = ur_content_language upload, or_expires = ur_expires upload,
      or_user_metadata = ur_user_metadata upload, or_ctime = 0, or_mtime = 0\<rparr>"

definition select_part :: "string \<Rightarrow> int \<Rightarrow> MultipartPart \<Rightarrow> db \<Rightarrow> db result" where
  "select_part uploadID now part d =
     (let target = (\<lambda>q. qr_upload_id q = uploadID \<and> qr_part_number q = mp_PartNumber part \<and>
                        qr_file_id q = mp_FileID part \<and> qr_state q = MDiscarded)
      in if length (filter target (mparts d)) \<noteq> 1 then Inl ErrMultipartConflict
         else Inr (d\<lparr>mparts := map (\<lambda>q. if target q then q\<lparr>qr_state := MSelected, qr_mtime := now\<rparr> else q) (mparts d)\<rparr>))"

text \<open>The set of selected files comes with the new database.\<close>

definition selectCompletedMultipartParts ::
  "string \<Rightarrow> MultipartPart list \<Rightarrow> int \<Rightarrow> db \<Rightarrow> (nat list \<times> db) result" where
  "selectCompletedMultipartParts uploadID selected now d =
     bind_result (fold_result (select_part uploadID now) selected d) (\<lambda>d. Inr (map mp_FileID selected, d))"

definition finalizeMultipartParts :: "string \<Rightarrow> MultipartPart list \<Rightarrow> int \<Rightarrow> db \<Rightarrow> db result" where
  "finalizeMultipartParts uploadID selected now d =
     (let allParts = listMultipartPartFileIDs uploadID d
      in bind_result (selectCompletedMultipartParts uploadID selected now (discard_parts uploadID now d)) (\<lambda>(selectedSet, d).
         fold_result (\<lambda>fileID. markFileTreePendingIfUnreferenced fileID now)
           (filter (\<lambda>fileID. fileID \<notin> set selectedSet) allParts) d))"

definition finishMultipartControl ::
  "string \<Rightarrow> string \<Rightarrow> nat \<Rightarrow> string \<Rightarrow> string \<Rightarrow> int \<Rightarrow> db \<Rightarrow> db result" where
  "finishMultipartControl uploadID fingerprint finalFileID etag checksumValue now d =
     update_upload (\<lambda>u. ur_upload_id u = uploadID \<and> ur_state u = UCompleting)
       (\<lambda>u. u\<lparr>ur_state := UCompleted, ur_fingerprint := fingerprint, ur_result_file_id := finalFileID,
              ur_result_etag := etag, ur_result_checksum := checksumValue, ur_completed_at := now,
              ur_cleanup_at := now + multipartControlRetention, ur_mtime := now\<rparr>) d"

definition persistCompletedMultipart ::
  "(nat \<Rightarrow> nat) \<Rightarrow> (string \<Rightarrow> string \<Rightarrow> string) \<Rightarrow> CompleteMultipartRequest \<Rightarrow> upload_row \<Rightarrow> MultipartPart list \<Rightarrow> nat
     \<Rightarrow> int \<Rightarrow> string \<Rightarrow> string \<Rightarrow> string \<Rightarrow> int \<Rightarrow> db \<Rightarrow> db result" where
  "persistCompletedMultipart idfn mime request upload selected finalFileID totalSize etag checksumValue fingerprint now d =
     bind_result (publishS3ObjectTx idfn mime now (''/'' @ cq_Bucket request @ ''/'' @ cq_Key request) finalFileID totalSize
       (multipartObjectMetadata upload etag checksumValue) (cq_Condition request) d) (\<lambda>(_, d).
     bind_result (finalizeMultipartParts (cq_UploadID request) selected now d) (\<lambda>d.
     finishMultipartControl (cq_UploadID request) fingerprint finalFileID etag checksumValue now d))"

definition completedMultipartResult ::
  "upload_row \<Rightarrow> nat \<Rightarrow> int \<Rightarrow> string \<Rightarrow> string \<Rightarrow> CompleteMultipartResult result" where
  "completedMultipartResult upload finalFileID totalSize etag checksumValue =
     bind_result (multipartChecksumSpec upload) (\<lambda>spec.
       Inr \<lparr>cx_FileID = finalFileID, cx_Size = totalSize, cx_ETag = etag, cx_Algorithm = ms_Algorithm spec,
            cx_ChecksumType = ms_ChecksumType spec, cx_ChecksumValue = checksumValue\<rparr>)"

definition completeActiveMultipart ::
  "(nat \<Rightarrow> nat) \<Rightarrow> (string \<Rightarrow> string \<Rightarrow> string) \<Rightarrow> int \<Rightarrow> CompleteMultipartRequest \<Rightarrow> upload_row \<Rightarrow> string \<Rightarrow> int \<Rightarrow> db
     \<Rightarrow> (CompleteMultipartResult \<times> db) result" where
  "completeActiveMultipart idfn mime blockSize request upload fingerprint now d =
     bind_result (loadCompletionParts request upload d) (\<lambda>(selected, totalSize, totalPartCount).
     if (case cq_ExpectedSize request of None \<Rightarrow> False | Some n \<Rightarrow> n \<noteq> totalSize) then Inl ErrMultipartObjectSize
     else if totalSize > multipartObjectSizeLimit (cq_MaxObjectSize request) blockSize then Inl ErrMultipartEntityTooLarge
     else if totalPartCount > maxFilePartCount then Inl ErrTooManyFileParts
     else
       let finalFileID = idfn (id_seq d); d = d\<lparr>id_seq := Suc (id_seq d)\<rparr>
       in bind_result (insertCompositeFile finalFileID selected totalSize totalPartCount now d) (\<lambda>d.
          bind_result (insertCompletedPartManifest finalFileID upload selected now d) (\<lambda>d.
          bind_result (multipartETag selected) (\<lambda>etag.
          bind_result (calculateMultipartChecksum upload selected) (\<lambda>checksumValue.
          bind_result (validateFinalChecksum upload request checksumValue) (\<lambda>_.
          bind_result (persistCompletedMultipart idfn mime request upload selected finalFileID totalSize etag checksumValue
            fingerprint now d) (\<lambda>d.
          bind_result (completedMultipartResult upload finalFileID totalSize etag checksumValue) (\<lambda>res.
          Inr (res, d)))))))))"

definition completeMultipartUploadTx ::
  "(nat \<Rightarrow> nat) \<Rightarrow> (string \<Rightarrow> string \<Rightarrow> string) \<Rightarrow> int \<Rightarrow> CompleteMultipartRequest \<Rightarrow> string \<Rightarrow> int \<Rightarrow> db
     \<Rightarrow> (CompleteMultipartResult option \<times> db) result" where
  "completeMultipartUploadTx idfn mime blockSize request fingerprint now d =
     (case readMultipartUpload (cq_UploadID request) d of
        None \<Rightarrow> Inl ErrNoSuchUpload
      | Some upload \<Rightarrow>
          if \<not> matchingMultipartUpload upload (cq_Bucket request) (cq_Key request) then Inl ErrNoSuchUpload
          else if ur_state upload = UCompleted then
            bind_result (readCompletedMultipartResult upload request fingerprint d) (\<lambda>res. Inr (Some res, d))
          else if ur_state upload \<noteq> UActive then Inl ErrNoSuchUpload
          else if ur_expires_at upload \<le> now then
            bind_result (abortMultipartUploadTx upload now d) (\<lambda>d. Inr (None, d))
          else
            bind_result (validateCompleteChecksumRequest upload request) (\<lambda>_.
            bind_result (claimMultipartCompletion (cq_UploadID request) now d) (\<lambda>d.
            bind_result (completeActiveMultipart idfn mime blockSize request upload fingerprint now d) (\<lambda>(res, d).
            Inr (Some res, d)))))"

definition CompleteMultipartUpload ::
  "(nat \<Rightarrow> nat) \<Rightarrow> (string \<Rightarrow> string \<Rightarrow> string) \<Rightarrow> int \<Rightarrow> int \<Rightarrow> CompleteMultipartRequest \<Rightarrow> db
     \<Rightarrow> db \<times> CompleteMultipartResult result" where
  "CompleteMultipartUpload idfn mime blockSize now request d =
     (case validateCompleteMultipartRequest request of
        Inl e \<Rightarrow> (d, Inl e)
      | Inr _ \<Rightarrow>
          unless_expired (OnTransation
            (completeMultipartUploadTx idfn mime blockSize request (multipartCompletionFingerprint (cq_Parts request)) now) d))"

section \<open>Expiry and cleanup\<close>

fun expireLoop :: "int \<Rightarrow> string list \<Rightarrow> db \<Rightarrow> db result" where
  "expireLoop now [] d = Inr d"
| "expireLoop now (uploadID # rest) d =
     (case readMultipartUpload uploadID d of
        None \<Rightarrow> expireLoop now rest d
      | Some upload \<Rightarrow>
          if ur_state upload \<noteq> UActive then expireLoop now rest d
          else bind_result (abortMultipartUploadTx upload now d) (expireLoop now rest))"

definition processExpiredMultipartUploads :: "int \<Rightarrow> nat \<Rightarrow> db \<Rightarrow> db result" where
  "processExpiredMultipartUploads now limit d =
     expireLoop now
       (map ur_upload_id (take limit (sort_key ur_expires_at
         (filter (\<lambda>u. ur_state u = UActive \<and> ur_expires_at u \<le> now) (uploads d))))) d"

definition purge_upload :: "string \<Rightarrow> db \<Rightarrow> db" where
  "purge_upload uploadID d =
     d\<lparr>mparts := filter (\<lambda>q. qr_upload_id q \<noteq> uploadID) (mparts d),
       uploads := filter (\<lambda>u. \<not> (ur_upload_id u = uploadID \<and> ur_state u \<in> {UCompleted, UAborted})) (uploads d)\<rparr>"

definition purgeMultipartControlRows :: "int \<Rightarrow> nat \<Rightarrow> db \<Rightarrow> db" where
  "purgeMultipartControlRows now limit d =
     fold purge_upload
       (map ur_upload_id (take limit (sort_key ur_cleanup_at
         (filter (\<lambda>u. ur_state u \<in> {UCompleted, UAborted} \<and> 0 < ur_cleanup_at u \<and> ur_cleanup_at u \<le> now) (uploads d))))) d"

text \<open>A pass of \<open>RunMultipartCleanupWorker\<close>; a failure is logged and the pass goes on.\<close>

definition runMultipartCleanupPass :: "int \<Rightarrow> db \<Rightarrow> db" where
  "runMultipartCleanupPass now d =
     purgeMultipartControlRows now multipartCleanupBatchSize
       (case processExpiredMultipartUploads now multipartCleanupBatchSize d of Inl _ \<Rightarrow> d | Inr d' \<Rightarrow> d')"

section \<open>Listing uploads\<close>

record multipartListProjection =
  pj_key :: string
  pj_uploadID :: string
  pj_initiated :: int
  pj_checksumAlgorithm :: string
  pj_checksumType :: string
  pj_common :: bool

text \<open>The steps of the query: \<open>matching\<close>, \<open>projected\<close>, \<open>deduplicated\<close>.\<close>

definition matching_uploads :: "ListMultipartUploadsRequest \<Rightarrow> int \<Rightarrow> db \<Rightarrow> upload_row list" where
  "matching_uploads request now d =
     filter (\<lambda>u. ur_bucket u = lu_Bucket request \<and> ur_state u = UActive \<and> ur_expires_at u > now \<and>
       sql_left (ur_key u) (sql_length (lu_Prefix request)) = lu_Prefix request) (uploads d)"

definition project_upload :: "ListMultipartUploadsRequest \<Rightarrow> upload_row \<Rightarrow> multipartListProjection" where
  "project_upload request u =
     (let rest = sql_substr (ur_key u) (sql_length (lu_Prefix request) + 1);
          at = sql_instr rest (CHR ''/'')
      in if lu_Delimiter request = ''/'' \<and> at > 0 then
           \<lparr>pj_key = lu_Prefix request @ sql_left rest at, pj_uploadID = '''', pj_initiated = 0,
            pj_checksumAlgorithm = '''', pj_checksumType = '''', pj_common = True\<rparr>
         else
           \<lparr>pj_key = ur_key u, pj_uploadID = ur_upload_id u, pj_initiated = ur_initiated_at u,
            pj_checksumAlgorithm = ur_checksum_algorithm u, pj_checksumType = ur_checksum_type u, pj_common = False\<rparr>)"

definition projection_key :: "multipartListProjection \<Rightarrow> string \<times> string \<times> bool" where
  "projection_key p = (pj_key p, pj_uploadID p, pj_common p)"

definition max_of :: "('a \<Rightarrow> 'b::linorder) \<Rightarrow> 'a list \<Rightarrow> 'b" where
  "max_of f xs = fold max (map f (tl xs)) (f (hd xs))"

definition group_projections :: "multipartListProjection list \<Rightarrow> string \<times> string \<times> bool \<Rightarrow> multipartListProjection" where
  "group_projections rows k =
     (let g = filter (\<lambda>p. projection_key p = k) rows
      in \<lparr>pj_key = fst k, pj_uploadID = fst (snd k), pj_initiated = max_of pj_initiated g,
          pj_checksumAlgorithm = max_of pj_checksumAlgorithm g, pj_checksumType = max_of pj_checksumType g,
          pj_common = snd (snd k)\<rparr>)"

definition after_marker :: "ListMultipartUploadsRequest \<Rightarrow> multipartListProjection \<Rightarrow> bool" where
  "after_marker request p \<longleftrightarrow>
     pj_key p > lu_KeyMarker request \<or>
     pj_key p = lu_KeyMarker request \<and> lu_UploadIDMarker request \<noteq> '''' \<and> pj_uploadID p > lu_UploadIDMarker request"

definition readMultipartUploadProjections ::
  "ListMultipartUploadsRequest \<Rightarrow> int \<Rightarrow> db \<Rightarrow> multipartListProjection list" where
  "readMultipartUploadProjections request now d =
     (let rows = map (project_upload request) (matching_uploads request now d)
      in take (nat (lu_MaxUploads request + 1))
           (sort_key (\<lambda>p. (pj_key p, pj_uploadID p))
             (filter (after_marker request) (map (group_projections rows) (remdups (map projection_key rows))))))"

fun append_projection :: "multipartListProjection \<Rightarrow> MultipartUploadPage \<Rightarrow> MultipartUploadPage" where
  "append_projection p page =
     (let page = page\<lparr>up_NextKeyMarker := pj_key p, up_NextUploadIDMarker := pj_uploadID p\<rparr>
      in if pj_common p then page\<lparr>up_CommonPrefixes := up_CommonPrefixes page @ [pj_key p]\<rparr>
         else page\<lparr>up_Uploads := up_Uploads page @
           [\<lparr>ui_Key = pj_key p, ui_UploadID = pj_uploadID p, ui_Initiated = pj_initiated p,
             ui_Algorithm = pj_checksumAlgorithm p, ui_ChecksumType = pj_checksumType p\<rparr>]\<rparr>)"

definition buildMultipartUploadPage ::
  "MultipartUploadPage \<Rightarrow> multipartListProjection list \<Rightarrow> nat \<Rightarrow> MultipartUploadPage" where
  "buildMultipartUploadPage page projections maxUploads =
     (let truncated = (length projections > maxUploads);
          page = fold append_projection (take maxUploads projections) (page\<lparr>up_IsTruncated := truncated\<rparr>)
      in if truncated then page else page\<lparr>up_NextKeyMarker := '''', up_NextUploadIDMarker := ''''\<rparr>)"

definition ListMultipartUploads :: "int \<Rightarrow> ListMultipartUploadsRequest \<Rightarrow> db \<Rightarrow> db \<times> MultipartUploadPage result" where
  "ListMultipartUploads now request d =
     (if lu_Bucket request = '''' \<or> lu_MaxUploads request < 0 \<or> lu_MaxUploads request > 1000 \<or>
         lu_Delimiter request \<noteq> '''' \<and> lu_Delimiter request \<noteq> ''/'' then (d, Inl ErrInvalidMultipartRequest)
      else
        case processExpiredMultipartUploads now multipartCleanupBatchSize d of
          Inl e \<Rightarrow> (d, Inl e)
        | Inr d \<Rightarrow>
            let page = \<lparr>up_Uploads = [], up_CommonPrefixes = [], up_IsTruncated = False, up_NextKeyMarker = '''',
                        up_NextUploadIDMarker = ''''\<rparr>
            in (d, Inr (if lu_MaxUploads request = 0 then page
                        else buildMultipartUploadPage page (readMultipartUploadProjections request now d)
                               (nat (lu_MaxUploads request)))))"

end
