(* ===== verification/Spec2Isabelle.thy ===== *)
theory Spec2Isabelle
  imports Authz S3_Checksum References Directory_Spec Composite_Stream Delete_Worker S3_Properties WebDAV_Properties S3_Multipart
begin

text \<open>
  Verification of tgfile.
\<close>

end
